(* ===== verification/Prelude.thy ===== *)
theory Prelude
  imports Main "HOL-Library.Word" "HOL-Library.Sublist"
begin

text \<open>
  Shared vocabulary of the development: machine integers, the part of the C++ string library
  the proxy uses (\<open>find\<close>, \<open>substr\<close>, \<open>getline\<close>, \<open>stoi\<close>, \<open>to_string\<close>, \<open>tolower\<close>), the errors
  a C++ call can raise, byte order conversions, and the lemma collections \<open>cxx\<close> (unfolding of
  library operations) and \<open>bounds\<close> (length facts).
  A \<open>std::string\<close> is a \<^typ>\<open>string\<close>, one \<^typ>\<open>char\<close> per byte; a position is a \<^typ>\<open>nat\<close> and
  \<open>npos\<close> is \<^term>\<open>None\<close>. \<open>s.substr(p)\<close> is \<^term>\<open>drop p s\<close> and \<open>s.substr(p, n)\<close> is
  \<^term>\<open>take n (drop p s)\<close>.
\<close>

unbundle bit_operations_syntax

named_theorems cxx "definitions of the modelled C++ library operations"
named_theorems bounds "length and index facts"
named_theorems no_fail "introduction rules showing that a checked computation does not fail"

type_synonym u8 = "8 word"
type_synonym u16 = "16 word"
type_synonym u32 = "32 word"
type_synonym u64 = "64 word"

section \<open>Errors of the C++ runtime\<close>

datatype cxx_error =
    InvalidArgument       \<comment> \<open>\<open>std::invalid_argument\<close>\<close>
  | OutOfRange            \<comment> \<open>\<open>std::out_of_range\<close>\<close>
  | RuntimeError string   \<comment> \<open>\<open>std::runtime_error\<close>\<close>
  | RegexError            \<comment> \<open>\<open>std::regex_error\<close>\<close>
  | JsonError             \<comment> \<open>\<open>nlohmann::json::exception\<close>\<close>
  | UndefinedBehaviour    \<comment> \<open>an access or operation the language leaves undefined\<close>

section \<open>Searching in strings\<close>

text \<open>\<open>s.find(pat)\<close>: the least position where the pattern occurs.\<close>

fun str_find :: "string \<Rightarrow> string \<Rightarrow> nat option" where
  "str_find pat [] = (if pat = [] then Some 0 else None)"
| "str_find pat (c # cs) =
     (if prefix pat (c # cs) then Some 0 else map_option Suc (str_find pat cs))"

text \<open>\<open>s.find(pat, pos)\<close>.\<close>

definition str_find_from :: "string \<Rightarrow> string \<Rightarrow> nat \<Rightarrow> nat option" where
  "str_find_from pat s pos =
     (if pos \<le> length s then map_option ((+) pos) (str_find pat (drop pos s)) else None)"

text \<open>\<open>s.find_first_of(cs)\<close> and \<open>s.find_first_of(cs, pos)\<close>.\<close>

fun find_first_of :: "string \<Rightarrow> string \<Rightarrow> nat option" where
  "find_first_of cs [] = None"
| "find_first_of cs (x # xs) =
     (if x \<in> set cs then Some 0 else map_option Suc (find_first_of cs xs))"

definition find_first_of_from :: "string \<Rightarrow> string \<Rightarrow> nat \<Rightarrow> nat option" where
  "find_first_of_from cs s pos =
     (if pos \<le> length s then map_option ((+) pos) (find_first_of cs (drop pos s)) else None)"

text \<open>\<open>s.substr(a, b - a)\<close> where \<open>b\<close> may be \<open>npos\<close>: the difference is then at least the
  remaining length, so the whole suffix is returned.\<close>

definition substr_to :: "string \<Rightarrow> nat \<Rightarrow> nat option \<Rightarrow> string" where
  "substr_to s a b = (case b of None \<Rightarrow> drop a s | Some e \<Rightarrow> take (e - a) (drop a s))"

definition str_contains :: "string \<Rightarrow> string \<Rightarrow> bool" where
  "str_contains pat s \<longleftrightarrow> str_find pat s \<noteq> None"

declare str_find_from_def [cxx] find_first_of_from_def [cxx] substr_to_def [cxx]

lemma str_find_Nil_pat [simp]: "str_find [] s = Some 0"
  by (cases s) auto

lemma str_find_prefix [simp]: "prefix pat s \<Longrightarrow> str_find pat s = Some 0"
  by (cases s) auto

lemma str_find_Some_iff:
  "str_find pat s = Some i \<longleftrightarrow>
     i \<le> length s \<and> prefix pat (drop i s) \<and> (\<forall>j<i. \<not> prefix pat (drop j s))"
proof (induction s arbitrary: i)
  case Nil
  then show ?case by auto
next
  case (Cons c s)
  show ?case
  proof (cases "prefix pat (c # s)")
    case True
    then show ?thesis by (cases i) auto
  next
    case False
    with Cons.IH show ?thesis
      by (cases i) (auto simp: less_Suc_eq_0_disj)
  qed
qed

lemma str_find_None_iff: "str_find pat s = None \<longleftrightarrow> (\<forall>j \<le> length s. \<not> prefix pat (drop j s))"
proof (induction s)
  case Nil
  show ?case by auto
next
  case (Cons c s)
  have "(\<forall>j \<le> length (c # s). \<not> prefix pat (drop j (c # s))) \<longleftrightarrow>
        \<not> prefix pat (c # s) \<and> (\<forall>j \<le> length s. \<not> prefix pat (drop j s))"
    by (auto simp: All_less_Suc2 less_Suc_eq_le [symmetric])
  with Cons.IH show ?case by simp
qed

lemma str_find_bound [bounds]:
  assumes "str_find pat s = Some i" shows "i + length pat \<le> length s"
proof -
  from assms have "i \<le> length s" and "prefix pat (drop i s)" by (simp_all add: str_find_Some_iff)
  then have "length pat \<le> length s - i" using prefix_length_le [of pat "drop i s"] by simp
  with \<open>i \<le> length s\<close> show ?thesis by simp
qed

lemma str_find_from_bound [bounds]:
  "str_find_from pat s p = Some i \<Longrightarrow> p \<le> i \<and> i + length pat \<le> length s"
  by (auto simp: str_find_from_def split: if_splits dest!: str_find_bound)

text \<open>Skipping a part of the string in which the pattern cannot start.\<close>

lemma str_find_skip:
  assumes "\<And>j. j < length xs \<Longrightarrow> \<not> prefix pat (drop j (xs @ ys))"
  shows "str_find pat (xs @ ys) = map_option ((+) (length xs)) (str_find pat ys)"
  using assms
proof (induction xs)
  case Nil
  then show ?case by (simp add: option.map_ident)
next
  case (Cons x xs)
  have np: "\<not> prefix pat (x # xs @ ys)" using Cons.prems [of 0] by simp
  have "str_find pat (xs @ ys) = map_option ((+) (length xs)) (str_find pat ys)"
    by (rule Cons.IH) (use Cons.prems [of "Suc j" for j] in auto)
  with np show ?case by (simp add: option.map_comp comp_def)
qed

lemma str_find_char_skip:
  "c \<notin> set xs \<Longrightarrow> str_find [c] (xs @ ys) = map_option ((+) (length xs)) (str_find [c] ys)"
  by (cases "str_find [c] ys"; induction xs; auto)

lemma str_find_char_None [simp]: "str_find [c] xs = None \<longleftrightarrow> c \<notin> set xs"
  by (induction xs) auto

lemma str_find_char_first: "c \<notin> set xs \<Longrightarrow> str_find [c] (xs @ c # ys) = Some (length xs)"
  by (simp add: str_find_char_skip)

lemma str_contains_char [simp]: "str_contains [c] s \<longleftrightarrow> c \<in> set s"
  by (simp add: str_contains_def)

lemma find_first_of_bound [bounds]:
  "find_first_of cs s = Some i \<Longrightarrow> i < length s \<and> s ! i \<in> set cs"
  by (induction s arbitrary: i) (auto split: if_splits)

lemma find_first_of_first:
  "set xs \<inter> set cs = {} \<Longrightarrow> y \<in> set cs \<Longrightarrow> find_first_of cs (xs @ y # ys) = Some (length xs)"
  by (induction xs) auto

section \<open>Characters and numbers in text\<close>

text \<open>\<open>isspace\<close>, \<open>isdigit\<close> and \<open>tolower\<close> in the C locale.\<close>

definition c_isspace :: "char \<Rightarrow> bool" where
  "c_isspace c \<longleftrightarrow> (of_char c :: nat) = 32 \<or> 9 \<le> (of_char c :: nat) \<and> (of_char c :: nat) \<le> 13"

definition c_isdigit :: "char \<Rightarrow> bool" where
  "c_isdigit c \<longleftrightarrow> 48 \<le> (of_char c :: nat) \<and> (of_char c :: nat) \<le> 57"

definition c_tolower :: "char \<Rightarrow> char" where
  "c_tolower c = (if 65 \<le> (of_char c :: nat) \<and> (of_char c :: nat) \<le> 90
                  then char_of ((of_char c :: nat) + 32) else c)"

text \<open>Carriage return, line feed, tab, blank; the line and header terminators.\<close>

abbreviation CR :: char where "CR \<equiv> CHR 0x0D"
abbreviation LF :: char where "LF \<equiv> CHR 0x0A"
abbreviation TAB :: char where "TAB \<equiv> CHR 0x09"
abbreviation CRLF :: string where "CRLF \<equiv> [CR, LF]"

definition digit_val :: "char \<Rightarrow> nat" where
  "digit_val c = (of_char c :: nat) - 48"

definition digit_char :: "nat \<Rightarrow> char" where
  "digit_char n = char_of (n + 48)"

definition nat_of_digits :: "string \<Rightarrow> nat" where
  "nat_of_digits ds = foldl (\<lambda>n c. 10 * n + digit_val c) 0 ds"

text \<open>The common part of \<open>strtol\<close>/\<open>strtoul\<close>: leading white space, an optional sign, the longest
  run of digits. \<^term>\<open>None\<close> when there is no digit.\<close>

definition scan_int :: "string \<Rightarrow> (bool \<times> nat) option" where
  "scan_int s =
     (let t = dropWhile c_isspace s;
          neg = (t \<noteq> [] \<and> hd t = CHR ''-'');
          signed = (t \<noteq> [] \<and> (hd t = CHR ''-'' \<or> hd t = CHR ''+''));
          ds = takeWhile c_isdigit (if signed then tl t else t)
      in if ds = [] then None else Some (neg, nat_of_digits ds))"

text \<open>\<open>std::stoi\<close>: an \<open>int\<close> of 32 bits or one of the two exceptions.\<close>

definition stoi :: "string \<Rightarrow> cxx_error + int" where
  "stoi s = (case scan_int s of None \<Rightarrow> Inl InvalidArgument
     | Some (neg, n) \<Rightarrow>
         (let v = (if neg then - int n else int n)
          in if - (2 ^ 31) \<le> v \<and> v < 2 ^ 31 then Inr v else Inl OutOfRange))"

text \<open>\<open>std::stoul\<close>: 64 bits; a minus sign negates modulo \<open>2\<^sup>6\<^sup>4\<close>, as \<open>strtoul\<close> does.\<close>

definition stoul :: "string \<Rightarrow> cxx_error + u64" where
  "stoul s = (case scan_int s of None \<Rightarrow> Inl InvalidArgument
     | Some (neg, n) \<Rightarrow>
         (if n < 2 ^ 64 then Inr (if neg then - of_nat n else of_nat n) else Inl OutOfRange))"

text \<open>\<open>std::stoll\<close>: 64 bits, signed.\<close>

definition stoll :: "string \<Rightarrow> cxx_error + int" where
  "stoll s = (case scan_int s of None \<Rightarrow> Inl InvalidArgument
     | Some (neg, n) \<Rightarrow>
         (let v = (if neg then - int n else int n)
          in if - (2 ^ 63) \<le> v \<and> v < 2 ^ 63 then Inr v else Inl OutOfRange))"

text \<open>\<open>std::to_string\<close> of an unsigned and of a signed value.\<close>

fun to_string :: "nat \<Rightarrow> string" where
  "to_string n = (if n < 10 then [digit_char n] else to_string (n div 10) @ [digit_char (n mod 10)])"

declare to_string.simps [simp del]

definition to_string_int :: "int \<Rightarrow> string" where
  "to_string_int i = (if i < 0 then CHR ''-'' # to_string (nat (- i)) else to_string (nat i))"

lemma of_char_digit_char [simp]: "n < 10 \<Longrightarrow> (of_char (digit_char n) :: nat) = n + 48"
  by (simp add: digit_char_def)

lemma digit_val_digit_char [simp]: "n < 10 \<Longrightarrow> digit_val (digit_char n) = n"
  by (simp add: digit_val_def)

lemma c_isdigit_digit_char [simp]: "n < 10 \<Longrightarrow> c_isdigit (digit_char n)"
  by (simp add: c_isdigit_def)

lemma to_string_digits: "\<forall>c \<in> set (to_string n). c_isdigit c"
proof (induction n rule: to_string.induct)
  case (1 n)
  then show ?case by (cases "n < 10") (auto simp: to_string.simps [of n])
qed

lemma to_string_not_Nil [simp]: "to_string n \<noteq> []"
  by (subst to_string.simps) simp

lemma nat_of_digits_snoc [simp]: "nat_of_digits (ds @ [c]) = 10 * nat_of_digits ds + digit_val c"
  by (simp add: nat_of_digits_def)

lemma nat_of_digits_to_string [simp]: "nat_of_digits (to_string n) = n"
proof (induction n rule: to_string.induct)
  case (1 n)
  show ?case
  proof (cases "n < 10")
    case True
    then show ?thesis by (simp add: to_string.simps [of n] nat_of_digits_def)
  next
    case False
    with 1 show ?thesis by (simp add: to_string.simps [of n])
  qed
qed

lemma digit_not_special:
  assumes "c_isdigit c"
  shows "\<not> c_isspace c" and "c \<noteq> CHR ''-''" and "c \<noteq> CHR ''+''" and "c \<noteq> CHR ''/''"
    and "c \<noteq> CHR '':''" and "c \<noteq> CR" and "c \<noteq> LF" and "c \<noteq> CHR '';''" and "c \<noteq> CHR '' ''"
  using assms by (auto simp: c_isdigit_def c_isspace_def)

text \<open>Text that starts with digits parses to the value of the longest digit prefix.\<close>

lemma scan_int_digits:
  assumes "ds \<noteq> []" and "\<forall>c \<in> set ds. c_isdigit c" and "rest = [] \<or> \<not> c_isdigit (hd rest)"
  shows "scan_int (ds @ rest) = Some (False, nat_of_digits ds)"
proof -
  obtain d ds' where ds: "ds = d # ds'" using assms(1) by (cases ds) auto
  with assms(2) have d: "c_isdigit d" by simp
  have "takeWhile c_isdigit (ds @ rest) = ds"
    using assms(2,3) by (cases rest) (auto simp: takeWhile_append)
  with ds d show ?thesis by (auto simp: scan_int_def Let_def digit_not_special)
qed

lemma stoi_to_string [simp]: "n < 2 ^ 31 \<Longrightarrow> stoi (to_string n) = Inr (int n)"
  using scan_int_digits [of "to_string n" "[]"] to_string_digits [of n]
  by (simp add: stoi_def)

lemma stoi_to_string_append:
  "n < 2 ^ 31 \<Longrightarrow> c_isdigit c = False \<Longrightarrow> stoi (to_string n @ c # rest) = Inr (int n)"
  using scan_int_digits [of "to_string n" "c # rest"] to_string_digits [of n]
  by (simp add: stoi_def)

text \<open>The result of \<open>stoi\<close> always fits a 32-bit \<open>int\<close>.\<close>

lemma stoi_range [bounds]: "stoi s = Inr v \<Longrightarrow> - (2 ^ 31) \<le> v \<and> v < 2 ^ 31"
  by (auto simp: stoi_def Let_def split: option.splits if_splits)

lemma stoi_cases: "stoi s = Inl e \<Longrightarrow> e = InvalidArgument \<or> e = OutOfRange"
  by (auto simp: stoi_def Let_def split: option.splits if_splits)

section \<open>Reading lines\<close>

text \<open>\<open>std::getline(stream, line, d)\<close> on the unread rest of a string stream: fails (\<^term>\<open>None\<close>)
  only when nothing is left; the delimiter is consumed and not stored.\<close>

definition getline :: "char \<Rightarrow> string \<Rightarrow> (string \<times> string) option" where
  "getline d s = (if s = [] then None
     else Some (takeWhile (\<lambda>c. c \<noteq> d) s, drop 1 (dropWhile (\<lambda>c. c \<noteq> d) s)))"

lemma getline_shorter [bounds]: "getline d s = Some (l, r) \<Longrightarrow> length r < length s"
proof -
  assume a: "getline d s = Some (l, r)"
  then have r: "r = drop 1 (dropWhile (\<lambda>c. c \<noteq> d) s)" and "s \<noteq> []"
    by (auto simp: getline_def split: if_splits)
  have "length (dropWhile (\<lambda>c. c \<noteq> d) s) \<le> length s" by (rule length_dropWhile_le)
  with r \<open>s \<noteq> []\<close> show "length r < length s" by (cases "dropWhile (\<lambda>c. c \<noteq> d) s") auto
qed

text \<open>The lines a \<open>while (std::getline(...))\<close> loop visits.\<close>

function getlines :: "char \<Rightarrow> string \<Rightarrow> string list" where
  "getlines d s = (case getline d s of None \<Rightarrow> [] | Some (l, r) \<Rightarrow> l # getlines d r)"
  by pat_completeness auto
termination
  by (relation "measure (\<lambda>(d, s). length s)") (auto dest: getline_shorter)

declare getlines.simps [simp del]

lemma getlines_Nil [simp]: "getlines d [] = []"
  by (simp add: getlines.simps getline_def)

lemma getlines_no_delim: "l \<in> set (getlines d s) \<Longrightarrow> d \<notin> set l"
proof (induction d s rule: getlines.induct)
  case (1 d s)
  then show ?case
    by (auto simp: getlines.simps [of d s] getline_def split: option.splits if_splits
        dest: set_takeWhileD)
qed

section \<open>Bytes and byte order\<close>

text \<open>\<open>ntohs\<close> and \<open>ntohl\<close> of bytes in memory order, \<open>htons\<close> and \<open>htonl\<close> into memory order.\<close>

definition ntohs :: "u8 \<Rightarrow> u8 \<Rightarrow> u16" where
  "ntohs b0 b1 = of_nat (256 * unat b0 + unat b1)"

definition ntohl :: "u8 \<Rightarrow> u8 \<Rightarrow> u8 \<Rightarrow> u8 \<Rightarrow> u32" where
  "ntohl b0 b1 b2 b3 = of_nat (16777216 * unat b0 + 65536 * unat b1 + 256 * unat b2 + unat b3)"

definition htons :: "u16 \<Rightarrow> u8 list" where
  "htons v = [of_nat (unat v div 256), of_nat (unat v mod 256)]"

definition htonl :: "u32 \<Rightarrow> u8 list" where
  "htonl v = [of_nat (unat v div 16777216), of_nat (unat v div 65536 mod 256),
              of_nat (unat v div 256 mod 256), of_nat (unat v mod 256)]"

lemma unat_u8_lt [simp]: "unat (b :: u8) < 256"
  using unsigned_less [of b, where ?'a = nat] by simp

lemma unat_u16_lt [simp]: "unat (b :: u16) < 65536"
  using unsigned_less [of b, where ?'a = nat] by simp

lemma unat_u32_lt [simp]: "unat (b :: u32) < 4294967296"
  using unsigned_less [of b, where ?'a = nat] by simp

lemma unat_of_nat_u8: "unat (of_nat n :: u8) = n mod 256"
  by (simp add: unat_of_nat)

lemma unat_of_nat_u16: "unat (of_nat n :: u16) = n mod 65536"
  by (simp add: unat_of_nat)

lemma unat_of_nat_u32: "unat (of_nat n :: u32) = n mod 4294967296"
  by (simp add: unat_of_nat)

lemma unat_ntohs [simp]: "unat (ntohs a b) = 256 * unat a + unat b"
proof -
  have "256 * unat a + unat b < 65536" using unat_u8_lt [of a] unat_u8_lt [of b] by linarith
  then show ?thesis unfolding ntohs_def unat_of_nat_u16 by simp
qed

lemma ntohs_htons [simp]: "ntohs (htons v ! 0) (htons v ! Suc 0) = v"
proof -
  have "unat v div 256 < 256" using unat_u16_lt [of v] by linarith
  then show ?thesis
    by (simp add: htons_def ntohs_def unat_of_nat_u8)
qed

lemma length_htons [simp]: "length (htons v) = 2"
  by (simp add: htons_def)

lemma length_htonl [simp]: "length (htonl v) = 4"
  by (simp add: htonl_def)

text \<open>Reading a byte of a memory block: out of bounds is \<^term>\<open>None\<close>.\<close>

definition rd :: "u8 list \<Rightarrow> nat \<Rightarrow> u8 option" where
  "rd buf i = (if i < length buf then Some (buf ! i) else None)"

lemma rd_in [simp]: "i < length buf \<Longrightarrow> rd buf i = Some (buf ! i)"
  by (simp add: rd_def)

lemma rd_out [simp]: "length buf \<le> i \<Longrightarrow> rd buf i = None"
  by (simp add: rd_def)

text \<open>A checked computation fails only where one of its accesses does.\<close>

lemma bind_no_fail [no_fail]:
  "m \<noteq> None \<Longrightarrow> (\<And>x. m = Some x \<Longrightarrow> f x \<noteq> None) \<Longrightarrow> Option.bind m f \<noteq> None"
  by (cases m) auto

lemma if_no_fail [no_fail]:
  "(P \<Longrightarrow> a \<noteq> None) \<Longrightarrow> (\<not> P \<Longrightarrow> b \<noteq> None) \<Longrightarrow> (if P then a else b) \<noteq> None"
  by simp

lemma Some_no_fail [no_fail]: "Some x \<noteq> None"
  by simp

lemma rd_no_fail [no_fail]: "i < length buf \<Longrightarrow> rd buf i \<noteq> None"
  by simp

text \<open>\<open>memcpy(dst + at, src, n)\<close> and \<open>memmove\<close> into a block: outside the block is \<^term>\<open>None\<close>.\<close>

definition wr :: "u8 list \<Rightarrow> nat \<Rightarrow> u8 list \<Rightarrow> u8 list option" where
  "wr buf at src = (if at + length src \<le> length buf
     then Some (take at buf @ src @ drop (at + length src) buf) else None)"

lemma wr_length [bounds]: "wr buf at src = Some buf' \<Longrightarrow> length buf' = length buf"
  by (auto simp: wr_def split: if_splits)

lemma wr_ok: "at + length src \<le> length buf \<Longrightarrow> \<exists>buf'. wr buf at src = Some buf'"
  by (simp add: wr_def)

text \<open>The bytes of a \<open>std::string\<close> and back.\<close>

definition bytes_of :: "string \<Rightarrow> u8 list" where
  "bytes_of s = map (\<lambda>c. of_nat (of_char c)) s"

definition string_of :: "u8 list \<Rightarrow> string" where
  "string_of bs = map (\<lambda>b. char_of (unat b)) bs"

lemma length_bytes_of [simp]: "length (bytes_of s) = length s"
  by (simp add: bytes_of_def)

lemma length_string_of [simp]: "length (string_of bs) = length bs"
  by (simp add: string_of_def)

lemma string_of_bytes_of [simp]: "string_of (bytes_of s) = s"
  by (induction s) (simp_all add: string_of_def bytes_of_def unat_of_nat_u8)

lemma bytes_of_string_of [simp]: "bytes_of (string_of bs) = bs"
  by (induction bs) (simp_all add: string_of_def bytes_of_def)

end
