(* ===== verification/Buffer_Pool.thy ===== *)
theory Buffer_Pool
  imports Prelude
begin

text \<open>
  \<open>BufferPool\<close> and \<open>Packet\<close> (\<open>include/core/buffer_pool.h\<close>): the pool of equally sized memory blocks
  every packet of the proxy lives in. A block is its list of bytes; the free blocks \<open>pool_\<close> are a
  stack whose head is \<open>pool_.back()\<close>. The counters are \<^typ>\<open>nat\<close>: they count allocations, and
  \<open>2\<^sup>6\<^sup>4\<close> of them cannot happen.
  The clients rely on the locale \<open>block_pool\<close>: blocks have the pool's size, and the number of
  blocks on loan goes up by one with every acquisition and down by one with every release.
\<close>

section \<open>The model\<close>

record buffer_pool =
  buf_size :: nat
  total_allocated :: nat
  peak_used :: nat
  pool :: "u8 list list"

definition BufferPool :: "nat \<Rightarrow> nat \<Rightarrow> buffer_pool" where
  "BufferPool bsize count = \<lparr>buf_size = bsize, total_allocated = count, peak_used = 0,
     pool = replicate count (replicate bsize 0)\<rparr>"

definition acquire :: "buffer_pool \<Rightarrow> u8 list \<times> buffer_pool" where
  "acquire bp = (case pool bp of
      [] \<Rightarrow>
        (let used = total_allocated bp + 1
         in (replicate (buf_size bp) 0,
             bp\<lparr>total_allocated := used,
                peak_used := (if used > peak_used bp then used else peak_used bp)\<rparr>))
    | buf # rest \<Rightarrow>
        (let used = total_allocated bp - length rest
         in (buf,
             bp\<lparr>pool := rest,
                peak_used := (if used > peak_used bp then used else peak_used bp)\<rparr>)))"

definition release :: "u8 list \<Rightarrow> buffer_pool \<Rightarrow> buffer_pool" where
  "release buf bp = bp\<lparr>pool := buf # pool bp\<rparr>"

definition get_available_count :: "buffer_pool \<Rightarrow> nat" where
  "get_available_count bp = length (pool bp)"

definition get_total_allocated :: "buffer_pool \<Rightarrow> nat" where
  "get_total_allocated bp = total_allocated bp"

definition get_buffer_size :: "buffer_pool \<Rightarrow> nat" where
  "get_buffer_size bp = buf_size bp"

definition get_peak_used :: "buffer_pool \<Rightarrow> nat" where
  "get_peak_used bp = peak_used bp"

text \<open>\<open>Packet\<close>: a block, the number of its bytes that count, and how many of them are sent.\<close>

record packet =
  pkt_data :: "u8 list"
  pkt_length :: nat
  pkt_offset :: nat

definition Packet :: "u8 list \<Rightarrow> nat \<Rightarrow> nat \<Rightarrow> packet" where
  "Packet d len off = \<lparr>pkt_data = d, pkt_length = len, pkt_offset = off\<rparr>"

section \<open>Invariant\<close>

text \<open>The blocks on loan: the \<open>used\<close> figure of the status page.\<close>

definition on_loan :: "buffer_pool \<Rightarrow> nat" where
  "on_loan bp = get_total_allocated bp - get_available_count bp"

definition bp_inv :: "buffer_pool \<Rightarrow> bool" where
  "bp_inv bp \<longleftrightarrow> length (pool bp) \<le> total_allocated bp \<and>
     on_loan bp \<le> peak_used bp \<and> peak_used bp \<le> total_allocated bp \<and>
     (\<forall>b \<in> set (pool bp). length b = buf_size bp)"

named_theorems bp_defs "definitions of the buffer pool"

declare on_loan_def [bp_defs] get_available_count_def [bp_defs] get_total_allocated_def [bp_defs]
  get_buffer_size_def [bp_defs] get_peak_used_def [bp_defs]

lemma BufferPool_inv [simp]: "bp_inv (BufferPool bsize count)"
  by (auto simp: bp_inv_def BufferPool_def bp_defs)

lemma acquire_props:
  assumes "bp_inv bp" and "acquire bp = (buf, bp')"
  shows "bp_inv bp'" "length buf = buf_size bp" "buf_size bp' = buf_size bp"
    "on_loan bp' = Suc (on_loan bp)" "peak_used bp \<le> peak_used bp'"
    "total_allocated bp' = max (total_allocated bp) (Suc (on_loan bp))"
  using assms
  by (cases "pool bp"; force simp: acquire_def Let_def bp_inv_def bp_defs)+

lemma release_props:
  assumes "bp_inv bp" and "length buf = buf_size bp" and "0 < on_loan bp"
  shows "bp_inv (release buf bp)" "buf_size (release buf bp) = buf_size bp"
    "Suc (on_loan (release buf bp)) = on_loan bp"
    "peak_used (release buf bp) = peak_used bp"
    "total_allocated (release buf bp) = total_allocated bp"
  using assms by (auto simp: release_def bp_inv_def bp_defs)

section \<open>The interface: pools of blocks\<close>

locale block_pool =
  fixes acq :: "'p \<Rightarrow> u8 list \<times> 'p"
    and rel :: "u8 list \<Rightarrow> 'p \<Rightarrow> 'p"
    and size_of :: "'p \<Rightarrow> nat"
    and loan :: "'p \<Rightarrow> nat"
    and ok :: "'p \<Rightarrow> bool"
  assumes acq_ok: "ok p \<Longrightarrow> acq p = (b, p') \<Longrightarrow> ok p'"
    and acq_block: "ok p \<Longrightarrow> acq p = (b, p') \<Longrightarrow> length b = size_of p"
    and acq_size: "ok p \<Longrightarrow> acq p = (b, p') \<Longrightarrow> size_of p' = size_of p"
    and acq_loan: "ok p \<Longrightarrow> acq p = (b, p') \<Longrightarrow> loan p' = Suc (loan p)"
    and rel_ok: "ok p \<Longrightarrow> length b = size_of p \<Longrightarrow> 0 < loan p \<Longrightarrow> ok (rel b p)"
    and rel_size: "ok p \<Longrightarrow> length b = size_of p \<Longrightarrow> 0 < loan p \<Longrightarrow> size_of (rel b p) = size_of p"
    and rel_loan: "ok p \<Longrightarrow> length b = size_of p \<Longrightarrow> 0 < loan p \<Longrightarrow> Suc (loan (rel b p)) = loan p"
begin

lemma acq_rel:
  assumes "ok p" "acq p = (b, p')" "length b' = size_of p"
  shows "ok (rel b' p') \<and> size_of (rel b' p') = size_of p \<and> loan (rel b' p') = loan p"
proof -
  note a = acq_ok [OF assms(1,2)] acq_size [OF assms(1,2)] acq_loan [OF assms(1,2)]
  have l: "length b' = size_of p'" "0 < loan p'" using a assms(3) by simp_all
  show ?thesis using rel_ok [OF a(1) l] rel_size [OF a(1) l] rel_loan [OF a(1) l] a by simp
qed

text \<open>Giving back a whole queue of blocks (the clients' destructors).\<close>

lemma rel_all:
  assumes "ok p" "\<forall>b \<in> set bs. length b = size_of p" "length bs \<le> loan p"
  shows "ok (fold rel bs p) \<and> size_of (fold rel bs p) = size_of p \<and>
    loan (fold rel bs p) + length bs = loan p"
  using assms
proof (induction bs arbitrary: p)
  case (Cons b bs)
  have l: "length b = size_of p" "0 < loan p" using Cons.prems by auto
  note r = rel_ok [OF Cons.prems(1) l] rel_size [OF Cons.prems(1) l] rel_loan [OF Cons.prems(1) l]
  have "\<forall>b' \<in> set bs. length b' = size_of (rel b p)" and "length bs \<le> loan (rel b p)"
    using r Cons.prems by auto
  then show ?case using Cons.IH [OF r(1)] r by simp
qed simp

end

interpretation bpool: block_pool acquire release get_buffer_size on_loan bp_inv
proof (unfold_locales, goal_cases)
  case (1 p b p') then show ?case by (rule acquire_props)
next
  case (2 p b p') then show ?case unfolding get_buffer_size_def by (rule acquire_props)
next
  case (3 p b p') then show ?case unfolding get_buffer_size_def by (rule acquire_props)
next
  case (4 p b p') then show ?case by (rule acquire_props)
next
  case (5 p b) then show ?case unfolding get_buffer_size_def by (rule release_props)
next
  case (6 p b) then show ?case unfolding get_buffer_size_def by (rule release_props)
next
  case (7 p b) then show ?case unfolding get_buffer_size_def by (rule release_props)
qed

section \<open>Runs of the pool\<close>

text \<open>A run of the pool as the proxy uses it: an acquisition puts the block on the list of loans,
  a release takes one of the loans (its bytes may have been overwritten) back.\<close>

datatype pool_op = PAcquire | PRelease "u8 list"

fun pool_step :: "buffer_pool \<Rightarrow> pool_op \<Rightarrow> buffer_pool" where
  "pool_step bp PAcquire = snd (acquire bp)"
| "pool_step bp (PRelease b) = release b bp"

fun pool_run :: "buffer_pool \<Rightarrow> pool_op list \<Rightarrow> buffer_pool" where
  "pool_run bp [] = bp"
| "pool_run bp (x # xs) = pool_run (pool_step bp x) xs"

text \<open>The loans after a run that starts with \<open>n\<close> of them; \<^term>\<open>None\<close> when more blocks come back
  than were taken or one of a wrong size does. \<open>high\<close> is the largest number seen.\<close>

fun loans :: "nat \<Rightarrow> nat \<Rightarrow> pool_op list \<Rightarrow> nat option" where
  "loans bsize n [] = Some n"
| "loans bsize n (PAcquire # xs) = loans bsize (Suc n) xs"
| "loans bsize n (PRelease b # xs) = (if n = 0 \<or> length b \<noteq> bsize then None else loans bsize (n - 1) xs)"

fun loans_high :: "nat \<Rightarrow> nat \<Rightarrow> pool_op list \<Rightarrow> nat" where
  "loans_high n h [] = h"
| "loans_high n h (PAcquire # xs) = loans_high (Suc n) (max h (Suc n)) xs"
| "loans_high n h (PRelease b # xs) = loans_high (n - 1) h xs"

lemma pool_step_acquire:
  "bp_inv bp \<Longrightarrow> bp_inv (snd (acquire bp)) \<and> buf_size (snd (acquire bp)) = buf_size bp \<and>
     on_loan (snd (acquire bp)) = Suc (on_loan bp) \<and>
     peak_used (snd (acquire bp)) = max (peak_used bp) (Suc (on_loan bp)) \<and>
     total_allocated (snd (acquire bp)) = max (total_allocated bp) (Suc (on_loan bp))"
  by (cases "pool bp") (auto simp: acquire_def Let_def bp_inv_def bp_defs)

lemma loans_high_ge: "h \<le> loans_high n h ops"
proof (induction ops arbitrary: n h)
  case (Cons x xs)
  then show ?case
    by (cases x) (auto intro: order_trans [OF _ Cons.IH])
qed simp

lemma pool_run_accounting:
  assumes "bp_inv bp" and "loans (buf_size bp) (on_loan bp) ops = Some n"
  shows "bp_inv (pool_run bp ops) \<and> on_loan (pool_run bp ops) = n \<and>
    peak_used (pool_run bp ops) = loans_high (on_loan bp) (peak_used bp) ops \<and>
    total_allocated (pool_run bp ops) =
      max (total_allocated bp) (loans_high (on_loan bp) (peak_used bp) ops)"
  using assms
proof (induction ops arbitrary: bp)
  case Nil
  then show ?case by (auto simp: bp_inv_def)
next
  case (Cons x xs)
  show ?case
  proof (cases x)
    case PAcquire
    note a = pool_step_acquire [OF Cons.prems(1)]
    have "loans (buf_size (snd (acquire bp))) (on_loan (snd (acquire bp))) xs = Some n"
      using Cons.prems(2) PAcquire a by simp
    note IH = Cons.IH [OF conjunct1 [OF a] this]
    let ?h = "loans_high (Suc (on_loan bp)) (max (peak_used bp) (Suc (on_loan bp))) xs"
    have "Suc (on_loan bp) \<le> ?h"
      using loans_high_ge [of "max (peak_used bp) (Suc (on_loan bp))"] by (meson max.boundedE)
    then have "max (max (total_allocated bp) (Suc (on_loan bp))) ?h = max (total_allocated bp) ?h"
      by simp
    with IH a PAcquire show ?thesis by simp
  next
    case (PRelease b)
    with Cons.prems(2) have b: "length b = buf_size bp" "0 < on_loan bp"
      by (auto split: if_splits)
    note r = release_props [OF Cons.prems(1) b]
    have "on_loan (release b bp) = on_loan bp - 1" using r(3) by simp
    with Cons.IH [OF r(1)] r PRelease Cons.prems(2) b show ?thesis by simp
  qed
qed

section \<open>Properties\<close>

text \<open>The accounting of the pool, over every run in which only blocks on loan come back. The
  \<open>used\<close> figure of the status page is the number of blocks on loan, \<open>peak_used_\<close> is the largest
  number ever on loan, the number of blocks ever allocated is the larger of the configured count
  and that peak (the pool never allocates while a free block is left), and every free block has
  the configured size.\<close>

theorem pool_accounting:
  assumes "loans bsize 0 ops = Some n"
  shows "on_loan (pool_run (BufferPool bsize count) ops) = n \<and>
    get_peak_used (pool_run (BufferPool bsize count) ops) = loans_high 0 0 ops \<and>
    get_total_allocated (pool_run (BufferPool bsize count) ops) = max count (loans_high 0 0 ops) \<and>
    (\<forall>b \<in> set (pool (pool_run (BufferPool bsize count) ops)).
       length b = get_buffer_size (pool_run (BufferPool bsize count) ops))"
  using pool_run_accounting [of "BufferPool bsize count" ops n] assms
  by (auto simp: BufferPool_def bp_defs bp_inv_def)

theorem pool_accounting_witness:
  "on_loan (pool_run (BufferPool 2 1) [PAcquire, PAcquire, PRelease [7, 7]]) = 1 \<and>
   get_total_allocated (pool_run (BufferPool 2 1) [PAcquire, PAcquire, PRelease [7, 7]]) = 2"
  using pool_accounting [of 2 "[PAcquire, PAcquire, PRelease [7, 7]]" 1 1] by simp

end
