(* ===== verification/Rtp_Pipeline.thy ===== *)
theory Rtp_Pipeline
  imports Prelude "HOL-Library.Monad_Syntax"
begin

text \<open>
  \<open>RtpPipeline\<close> (\<open>include/protocol/rtp_pipeline.h\<close>, \<open>src/protocol/rtp_pipeline.cpp\<close>): the per-packet
  filter that waits for a key frame and strips RTP padding and MPEG-TS null packets in place.
  A packet is a memory block and a length; every read and write of the block goes through the
  checked accesses \<^const>\<open>rd\<close> and \<^const>\<open>wr\<close>, so an access outside the block makes the result
  \<^term>\<open>None\<close>. The two configuration flags are arguments.
  Shown: no access outside the block ever happens; the in-place compaction computes the
  concatenation of the non-null transport packets; nothing is forwarded before the first key
  frame, and everything after it is filtered as if there had been no wait.
\<close>

section \<open>The model\<close>

definition memmove :: "u8 list \<Rightarrow> nat \<Rightarrow> nat \<Rightarrow> nat \<Rightarrow> u8 list option" where
  "memmove buf dst src n =
     (if src + n \<le> length buf then wr buf dst (take n (drop src buf)) else None)"

text \<open>The RTP version test of \<open>buf[0]\<close>.\<close>

definition rtp_v2 :: "u8 \<Rightarrow> bool" where
  "rtp_v2 b \<longleftrightarrow> b AND 0xC0 = 0x80"

text \<open>\<open>get_payload_offset\<close>: the inner option is the Boolean result with its output argument.\<close>

definition get_payload_offset :: "u8 list \<Rightarrow> nat \<Rightarrow> nat option option" where
  "get_payload_offset buf len =
     (if len < 12 then Some None
      else do {
        b0 \<leftarrow> rd buf 0;
        if \<not> rtp_v2 b0 then Some None
        else do {
          let off = 12 + unat (b0 AND 0x0F) * 4;
          if b0 AND 0x10 \<noteq> 0 then
            if off + 4 > len then Some None
            else do {
              h \<leftarrow> rd buf (off + 2);
              l \<leftarrow> rd buf (off + 3);
              let off' = off + 4 + 4 * unat (ntohs h l);
              Some (if off' > len then None else Some off')
            }
          else Some (if off > len then None else Some off)
        }
      })"

text \<open>The 13-bit PID of a transport packet from its second and third byte.\<close>

definition ts_pid :: "u8 \<Rightarrow> u8 \<Rightarrow> u16" where
  "ts_pid b1 b2 = ntohs (b1 AND 0x1F) b2"

text \<open>The compaction loop; \<open>i\<close> and \<open>np\<close> are \<open>i\<close> and \<open>new_payload_len\<close>.\<close>

function strip_ts_loop :: "nat \<Rightarrow> nat \<Rightarrow> nat \<Rightarrow> nat \<Rightarrow> u8 list \<Rightarrow> (u8 list \<times> nat) option" where
  "strip_ts_loop po pl i np buf =
     (if i + 188 \<le> pl then do {
        b1 \<leftarrow> rd buf (po + i + 1);
        b2 \<leftarrow> rd buf (po + i + 2);
        if ts_pid b1 b2 \<noteq> 0x1FFF then do {
          buf' \<leftarrow> (if np \<noteq> i then memmove buf (po + np) (po + i) 188 else Some buf);
          strip_ts_loop po pl (i + 188) (np + 188) buf'
        }
        else strip_ts_loop po pl (i + 188) np buf
      }
      else Some (buf, np))"
  by pat_completeness auto
termination
  by (relation "measure (\<lambda>(po, pl, i, np, buf). pl - i)") auto

declare strip_ts_loop.simps [simp del]

definition clear_padding_bit :: "u8 list \<Rightarrow> u8 list" where
  "clear_padding_bit buf = buf[0 := (buf ! 0) AND NOT 0x20]"

definition strip_rtp_padding_and_ts_null ::
    "bool \<Rightarrow> u8 list \<Rightarrow> nat \<Rightarrow> (u8 list \<times> nat) option" where
  "strip_rtp_padding_and_ts_null strip buf len = do {
     r \<leftarrow> get_payload_offset buf len;
     case r of None \<Rightarrow> Some (buf, len)
     | Some po \<Rightarrow>
         if \<not> strip then Some (buf, len)
         else do {
           b0 \<leftarrow> rd buf 0;
           (buf, len) \<leftarrow>
             (if b0 AND 0x20 \<noteq> 0 then do {
                pad \<leftarrow> rd buf (len - 1);
                Some (clear_padding_bit buf,
                      if 0 < unat pad \<and> unat pad \<le> len - po then len - unat pad else len)
              }
              else Some (buf, len));
           let pl = len - po;
           if 188 \<le> pl then do {
             s \<leftarrow> rd buf po;
             if s = 0x47 then do {
               (buf', np) \<leftarrow> strip_ts_loop po pl 0 0 buf;
               Some (clear_padding_bit buf', if np = 0 then 0 else po + np)
             }
             else Some (buf, len)
           }
           else Some (buf, len)
         }
   }"

text \<open>The NAL unit tests on the byte after a start code: H.264 SPS, PPS, IDR and H.265 VPS, SPS,
  PPS, IDR.\<close>

definition nal_key :: "u8 \<Rightarrow> bool" where
  "nal_key b \<longleftrightarrow>
     (let t4 = b AND 0x1F; t5 = drop_bit 1 b AND 0x3F
      in t4 = 7 \<or> t4 = 8 \<or> t4 = 5 \<or> 32 \<le> t5 \<and> t5 \<le> 34 \<or> t5 = 19 \<or> t5 = 20)"

text \<open>The inner scan over \<open>data = buf + d\<close> of \<open>n\<close> bytes.\<close>

function nal_scan :: "u8 list \<Rightarrow> nat \<Rightarrow> nat \<Rightarrow> nat \<Rightarrow> bool option" where
  "nal_scan buf d n j =
     (if j + 4 < n then do {
        x0 \<leftarrow> rd buf (d + j);
        x1 \<leftarrow> (if x0 = 0 then rd buf (d + j + 1) else Some 1);
        x2 \<leftarrow> (if x0 = 0 \<and> x1 = 0 then rd buf (d + j + 2) else Some 0);
        x3 \<leftarrow> (if x0 = 0 \<and> x1 = 0 \<and> x2 = 1 then rd buf (d + j + 3) else Some 0);
        if x0 = 0 \<and> x1 = 0 \<and> x2 = 1 \<and> nal_key x3 then Some True
        else nal_scan buf d n (j + 1)
      }
      else Some False)"
  by pat_completeness auto
termination
  by (relation "measure (\<lambda>(buf, d, n, j). n - j)") auto

declare nal_scan.simps [simp del]

text \<open>The body of the outer loop of \<open>check_keyframe\<close> on the transport packet at \<open>t\<close>.\<close>

definition ts_key :: "u8 list \<Rightarrow> nat \<Rightarrow> bool option" where
  "ts_key buf t = do {
     b1 \<leftarrow> rd buf (t + 1);
     b2 \<leftarrow> rd buf (t + 2);
     if ts_pid b1 b2 = 0 then Some True
     else do {
       b3 \<leftarrow> rd buf (t + 3);
       let afc = drop_bit 4 (b3 AND 0x30);
       b4 \<leftarrow> (if 2 \<le> afc then rd buf (t + 4) else Some 0);
       b5 \<leftarrow> (if 2 \<le> afc \<and> 0 < b4 then rd buf (t + 5) else Some 0);
       if 2 \<le> afc \<and> 0 < b4 \<and> b5 AND 0x40 \<noteq> 0 then Some True
       else do {
         let off = 4 + (if afc = 2 \<or> afc = 3 then 1 + unat b4 else 0);
         if off < 188 then nal_scan buf (t + off) (188 - off) 0 else Some False
       }
     }
   }"

function keyframe_loop :: "u8 list \<Rightarrow> nat \<Rightarrow> nat \<Rightarrow> nat \<Rightarrow> bool option" where
  "keyframe_loop buf po len i =
     (if po + i + 188 \<le> len then do {
        k \<leftarrow> ts_key buf (po + i);
        if k then Some True else keyframe_loop buf po len (i + 188)
      }
      else Some False)"
  by pat_completeness auto
termination
  by (relation "measure (\<lambda>(buf, po, len, i). len - i)") auto

declare keyframe_loop.simps [simp del]

definition check_keyframe :: "u8 list \<Rightarrow> nat \<Rightarrow> bool option" where
  "check_keyframe buf len = do {
     r \<leftarrow> get_payload_offset buf len;
     case r of None \<Rightarrow> Some False
     | Some po \<Rightarrow>
         if po + 188 \<le> len then do {
           s \<leftarrow> rd buf po;
           if s = 0x47 then keyframe_loop buf po len 0 else Some False
         }
         else Some False
   }"

record pipeline_cfg =
  strip_padding :: bool
  wait_keyframe :: bool

text \<open>\<open>reset\<close>: the new \<open>wait_for_keyframe_\<close>.\<close>

definition pipeline_reset :: "pipeline_cfg \<Rightarrow> bool" where
  "pipeline_reset cfg = wait_keyframe cfg"

record process_result =
  forward :: bool        \<comment> \<open>the return value\<close>
  waiting :: bool        \<comment> \<open>\<open>wait_for_keyframe_\<close> afterwards\<close>
  out_buf :: "u8 list"
  out_len :: nat

definition process_forward :: "pipeline_cfg \<Rightarrow> u8 list \<Rightarrow> nat \<Rightarrow> process_result option" where
  "process_forward cfg buf len = do {
     (buf', len') \<leftarrow> strip_rtp_padding_and_ts_null (strip_padding cfg) buf len;
     Some \<lparr>forward = 0 < len', waiting = False, out_buf = buf', out_len = len'\<rparr>
   }"

definition process :: "pipeline_cfg \<Rightarrow> bool \<Rightarrow> u8 list \<Rightarrow> nat \<Rightarrow> process_result option" where
  "process cfg wait buf len =
     (if len < 12
      then Some \<lparr>forward = False, waiting = wait, out_buf = buf, out_len = len\<rparr>
      else do {
        b0 \<leftarrow> rd buf 0;
        if \<not> rtp_v2 b0
        then Some \<lparr>forward = False, waiting = wait, out_buf = buf, out_len = len\<rparr>
        else if wait then do {
          k \<leftarrow> check_keyframe buf len;
          if k then process_forward cfg buf len
          else Some \<lparr>forward = False, waiting = True, out_buf = buf, out_len = len\<rparr>
        }
        else process_forward cfg buf len
      })"

section \<open>No access outside the block\<close>

lemma get_payload_offset_safe:
  assumes "len \<le> length buf"
  obtains r where "get_payload_offset buf len = Some r"
    and "\<And>po. r = Some po \<Longrightarrow> 12 \<le> po \<and> po \<le> len"
proof -
  have "get_payload_offset buf len \<noteq> None"
    unfolding get_payload_offset_def Let_def using assms by (intro no_fail) auto
  moreover have "12 \<le> po \<and> po \<le> len" if "get_payload_offset buf len = Some (Some po)" for po
    using that by (auto simp: get_payload_offset_def Let_def bind_eq_Some_conv split: if_splits)
  ultimately show thesis using that by blast
qed

lemma get_payload_offset_12:
  "get_payload_offset buf len = Some (Some po) \<Longrightarrow> 12 \<le> po \<and> po \<le> len \<and> 12 \<le> len"
  by (auto simp: get_payload_offset_def Let_def bind_eq_Some_conv split: if_splits)

lemma memmove_ok:
  assumes "src + n \<le> length buf" "dst \<le> src"
  shows "memmove buf dst src n =
    Some (take dst buf @ take n (drop src buf) @ drop (dst + n) buf)"
  using assms by (simp add: memmove_def wr_def min_absorb2)

lemma nal_scan_safe: "d + n \<le> length buf \<Longrightarrow> nal_scan buf d n j \<noteq> None"
proof (induction buf d n j rule: nal_scan.induct)
  case (1 buf d n j)
  show ?case
    by (subst nal_scan.simps, intro no_fail "1.IH") (use "1.prems" in simp_all)
qed

lemma ts_key_safe: "t + 188 \<le> length buf \<Longrightarrow> ts_key buf t \<noteq> None"
  unfolding ts_key_def Let_def by (intro no_fail nal_scan_safe) simp_all

lemma keyframe_loop_safe: "len \<le> length buf \<Longrightarrow> keyframe_loop buf po len i \<noteq> None"
proof (induction buf po len i rule: keyframe_loop.induct)
  case (1 buf po len i)
  show ?case
    by (subst keyframe_loop.simps, intro no_fail ts_key_safe)
      (use "1.prems" "1.IH" in \<open>auto simp del: not_None_eq\<close>)
qed

lemma check_keyframe_safe: "len \<le> length buf \<Longrightarrow> check_keyframe buf len \<noteq> None"
proof -
  assume l: "len \<le> length buf"
  then obtain r where "get_payload_offset buf len = Some r"
    "\<And>po. r = Some po \<Longrightarrow> 12 \<le> po \<and> po \<le> len" by (rule get_payload_offset_safe) blast
  then show ?thesis
    using keyframe_loop_safe [OF l] l by (cases r) (auto simp: check_keyframe_def simp del: not_None_eq)
qed

section \<open>The compaction loop against its specification\<close>

text \<open>The transport packets of a payload (an incomplete rest is ignored) and the null packets.\<close>

function ts_packets :: "u8 list \<Rightarrow> u8 list list" where
  "ts_packets xs = (if length xs < 188 then [] else take 188 xs # ts_packets (drop 188 xs))"
  by pat_completeness auto
termination
  by (relation "measure length") auto

declare ts_packets.simps [simp del]

definition ts_null :: "u8 list \<Rightarrow> bool" where
  "ts_null p \<longleftrightarrow> ts_pid (p ! 1) (p ! 2) = 0x1FFF"

definition strip_spec :: "u8 list \<Rightarrow> u8 list" where
  "strip_spec payload = concat (filter (\<lambda>p. \<not> ts_null p) (ts_packets payload))"

lemma strip_ts_loop_correct:
  assumes "np \<le> i" "i \<le> pl" "po + pl \<le> length buf"
  shows "\<exists>buf' np'. strip_ts_loop po pl i np buf = Some (buf', np') \<and>
    take (po + np') buf' = take (po + np) buf @ strip_spec (take (pl - i) (drop (po + i) buf)) \<and>
    np \<le> np' \<and> np' \<le> np + (pl - i) \<and> length buf' = length buf"
  using assms
proof (induction po pl i np buf rule: strip_ts_loop.induct)
  case (1 po pl i np buf)
  let ?rest = "take (pl - i) (drop (po + i) buf)"
  show ?case
  proof (cases "i + 188 \<le> pl")
    case False
    then have "strip_spec ?rest = []" using "1.prems"
      by (simp add: strip_spec_def ts_packets.simps [of ?rest])
    with False show ?thesis by (simp add: strip_ts_loop.simps [of po pl i np buf])
  next
    case True
    let ?pkt = "take 188 (drop (po + i) buf)"
    have len: "length ?pkt = 188" using True "1.prems" by simp
    have rd: "rd buf (po + i + 1) = Some (?pkt ! 1)" "rd buf (po + i + 2) = Some (?pkt ! 2)"
      using True "1.prems" by (simp_all add: rd_def)
    have pk: "ts_packets ?rest = ?pkt # ts_packets (take (pl - (i + 188)) (drop (po + (i + 188)) buf))"
    proof -
      have "\<not> length ?rest < 188" using True "1.prems" by auto
      moreover have "take 188 ?rest = ?pkt" using True by (simp add: min_absorb1)
      moreover have "drop 188 ?rest = take (pl - (i + 188)) (drop (po + (i + 188)) buf)"
        by (simp add: drop_take ac_simps)
      ultimately
      show ?thesis by (subst ts_packets.simps) (simp only: if_False)
    qed
    show ?thesis
    proof (cases "ts_null ?pkt")
      case null: True
      have step: "strip_ts_loop po pl i np buf = strip_ts_loop po pl (i + 188) np buf"
        using True rd null by (simp add: strip_ts_loop.simps [of po pl i np buf] ts_null_def)
      have sp: "strip_spec ?rest = strip_spec (take (pl - (i + 188)) (drop (po + (i + 188)) buf))"
        using pk null by (simp add: strip_spec_def)
      have "\<exists>buf' np'. strip_ts_loop po pl (i + 188) np buf = Some (buf', np') \<and>
         take (po + np') buf' = take (po + np) buf @
           strip_spec (take (pl - (i + 188)) (drop (po + (i + 188)) buf)) \<and>
         np \<le> np' \<and> np' \<le> np + (pl - (i + 188)) \<and> length buf' = length buf"
        using "1.IH"(2) [OF True rd] null "1.prems" True by (simp add: ts_null_def)
      then show ?thesis unfolding step sp using True by fastforce
    next
      case False
      define buf1 where "buf1 = take (po + np) buf @ ?pkt @ drop (po + np + 188) buf"
      have mv: "(if np \<noteq> i then memmove buf (po + np) (po + i) 188 else Some buf) = Some buf1"
      proof (cases "np = i")
        case True
        have "take (po + i) buf @ take 188 (drop (po + i) buf) @ drop 188 (drop (po + i) buf) = buf"
          by (simp only: append_take_drop_id)
        with True show ?thesis by (simp add: buf1_def add.commute add.left_commute)
      next
        case False
        with "1.prems" True show ?thesis by (simp add: memmove_ok buf1_def)
      qed
      have len1: "length buf1 = length buf" using len True "1.prems" by (simp add: buf1_def)
      have pre: "take (po + (np + 188)) buf1 = take (po + np) buf @ ?pkt"
        using len True "1.prems" by (simp add: buf1_def min_absorb2)
      have post: "drop (po + (i + 188)) buf1 = drop (po + (i + 188)) buf"
        using len True "1.prems" by (simp add: buf1_def min_absorb2 add.commute add.left_commute)
      have step: "strip_ts_loop po pl i np buf = strip_ts_loop po pl (i + 188) (np + 188) buf1"
        using True rd False mv
        by (simp add: strip_ts_loop.simps [of po pl i np buf] ts_null_def)
      have sp: "strip_spec ?rest =
          ?pkt @ strip_spec (take (pl - (i + 188)) (drop (po + (i + 188)) buf))"
        using pk False by (simp add: strip_spec_def)
      have "\<exists>buf' np'. strip_ts_loop po pl (i + 188) (np + 188) buf1 = Some (buf', np') \<and>
         take (po + np') buf' = take (po + (np + 188)) buf1 @
           strip_spec (take (pl - (i + 188)) (drop (po + (i + 188)) buf1)) \<and>
         np + 188 \<le> np' \<and> np' \<le> np + 188 + (pl - (i + 188)) \<and> length buf' = length buf1"
        using "1.IH"(1) [OF True rd _ mv] False "1.prems" True len1 by (simp add: ts_null_def)
      then show ?thesis unfolding step sp pre post len1 using True by fastforce
    qed
  qed
qed

section \<open>The whole filter\<close>

text \<open>What stripping means for the bytes of a packet \<open>pkt\<close> whose payload starts at \<open>po\<close>: the padding
  goes when the padding bit is set and its count is plausible, the bit is cleared, and a
  transport stream payload loses its null packets and its incomplete rest; a packet of null
  packets only becomes empty.\<close>

definition unpad_spec :: "u8 list \<Rightarrow> nat \<Rightarrow> u8 list" where
  "unpad_spec pkt po =
     (if pkt ! 0 AND 0x20 \<noteq> 0 \<and> 0 < unat (last pkt) \<and> unat (last pkt) \<le> length pkt - po
      then take (length pkt - unat (last pkt)) pkt else pkt)"

definition strip_packet_spec :: "u8 list \<Rightarrow> nat \<Rightarrow> u8 list" where
  "strip_packet_spec pkt po =
     (let unp = unpad_spec pkt po; hdr = clear_padding_bit (take po unp); payload = drop po unp
      in if 188 \<le> length payload \<and> payload ! 0 = 0x47
         then (if strip_spec payload = [] then [] else hdr @ strip_spec payload)
         else hdr @ payload)"

lemma and_not_unset: "(b :: u8) AND m = 0 \<Longrightarrow> b AND NOT m = b"
proof -
  assume a: "b AND m = 0"
  have "b = (b AND m) OR (b AND NOT m)"
    by (simp flip: bit.conj_disj_distrib)
  with a show ?thesis by simp
qed

lemma length_clear_padding_bit [simp]: "length (clear_padding_bit buf) = length buf"
  by (simp add: clear_padding_bit_def)

lemma clear_padding_bit_unset: "buf ! 0 AND 0x20 = 0 \<Longrightarrow> clear_padding_bit buf = buf"
  using and_not_unset [of "buf ! 0" "0x20"] by (simp add: clear_padding_bit_def)

lemma clear_padding_bit_idem [simp]: "clear_padding_bit (clear_padding_bit buf) = clear_padding_bit buf"
  by (cases buf) (simp_all add: clear_padding_bit_def and.assoc)

lemma take_clear_padding_bit: "0 < n \<Longrightarrow> take n (clear_padding_bit buf) = clear_padding_bit (take n buf)"
  by (simp add: clear_padding_bit_def take_update_swap)

lemma drop_clear_padding_bit: "0 < n \<Longrightarrow> drop n (clear_padding_bit buf) = drop n buf"
  by (simp add: clear_padding_bit_def)

lemma clear_padding_bit_append:
  "xs \<noteq> [] \<Longrightarrow> clear_padding_bit (xs @ ys) = clear_padding_bit xs @ ys"
  by (cases xs) (simp_all add: clear_padding_bit_def)

lemma unpad_spec_bounds:
  "po \<le> length pkt \<Longrightarrow> po \<le> length (unpad_spec pkt po) \<and> length (unpad_spec pkt po) \<le> length pkt"
  by (auto simp: unpad_spec_def)

lemma unpad_spec_take: "unpad_spec (take len buf) po = take (length (unpad_spec (take len buf) po)) buf"
  by (auto simp: unpad_spec_def min_def)

lemma strip_padding_step:
  assumes len: "len \<le> length buf" "12 \<le> len"
  shows "(if buf ! 0 AND 0x20 \<noteq> 0 then do {
            pad \<leftarrow> rd buf (len - 1);
            Some (clear_padding_bit buf,
                  if 0 < unat pad \<and> unat pad \<le> len - po then len - unat pad else len)
          }
          else Some (buf, len)) =
    Some (clear_padding_bit buf, length (unpad_spec (take len buf) po))"
proof -
  have "take len buf \<noteq> []" using len by (cases buf) auto
  then have "last (take len buf) = buf ! (len - 1)" using len by (simp add: last_conv_nth min_absorb2)
  moreover have "rd buf (len - 1) = Some (buf ! (len - 1))" using len by (simp add: rd_def)
  moreover have "take len buf ! 0 = buf ! 0" using len by simp
  ultimately show ?thesis
    using len by (auto simp: unpad_spec_def min_def clear_padding_bit_unset)
qed

text \<open>Header and payload of the first \<open>n\<close> bytes after the padding bit is cleared.\<close>

lemma clear_padding_bit_parts:
  assumes "0 < po" "po \<le> n" "n \<le> length buf"
  shows "take po (clear_padding_bit buf) = clear_padding_bit (take po (take n buf))"
    and "take (n - po) (drop po (clear_padding_bit buf)) = drop po (take n buf)"
    and "take n (clear_padding_bit buf) = clear_padding_bit (take po (take n buf)) @ drop po (take n buf)"
    and "po < n \<Longrightarrow> clear_padding_bit buf ! po = drop po (take n buf) ! 0"
proof -
  show "take po (clear_padding_bit buf) = clear_padding_bit (take po (take n buf))"
    using assms by (simp add: take_clear_padding_bit min_absorb1)
  show "take (n - po) (drop po (clear_padding_bit buf)) = drop po (take n buf)"
    using assms by (simp add: drop_clear_padding_bit drop_take)
  have "take po (take n buf) \<noteq> []" using assms by (cases buf) auto
  then have "clear_padding_bit (take po (take n buf) @ drop po (take n buf)) =
      clear_padding_bit (take po (take n buf)) @ drop po (take n buf)"
    by (rule clear_padding_bit_append)
  then have "clear_padding_bit (take n buf) =
      clear_padding_bit (take po (take n buf)) @ drop po (take n buf)"
    by (simp only: append_take_drop_id)
  then show "take n (clear_padding_bit buf) =
      clear_padding_bit (take po (take n buf)) @ drop po (take n buf)"
    using assms by (simp add: take_clear_padding_bit)
  show "clear_padding_bit buf ! po = drop po (take n buf) ! 0" if "po < n"
    using assms that by (simp add: clear_padding_bit_def)
qed

lemma strip_equation:
  assumes len: "len \<le> length buf" and po: "get_payload_offset buf len = Some (Some po)"
    and n: "length (unpad_spec (take len buf) po) = n"
  shows "strip_rtp_padding_and_ts_null True buf len =
    (if 188 \<le> n - po then do {
       s \<leftarrow> rd (clear_padding_bit buf) po;
       if s = 0x47 then do {
         (buf', np) \<leftarrow> strip_ts_loop po (n - po) 0 0 (clear_padding_bit buf);
         Some (clear_padding_bit buf', if np = 0 then 0 else po + np)
       } else Some (clear_padding_bit buf, n)
     } else Some (clear_padding_bit buf, n))"
proof -
  have b: "12 \<le> len" using get_payload_offset_12 [OF po] by simp
  with len have "rd buf 0 = Some (buf ! 0)" by (auto simp: rd_def)
  then show ?thesis
    by (simp only: strip_rtp_padding_and_ts_null_def po bind.bind_lunit option.case
        not_True_eq_False if_False strip_padding_step [OF len b, of po] prod.case Let_def n)
qed

lemma strip_correct:
  assumes len: "len \<le> length buf" and po: "get_payload_offset buf len = Some (Some po)"
  shows "\<exists>buf' len'. strip_rtp_padding_and_ts_null True buf len = Some (buf', len') \<and>
    take len' buf' = strip_packet_spec (take len buf) po \<and>
    len' \<le> len \<and> length buf' = length buf"
proof -
  have b: "0 < po" "po \<le> len" using get_payload_offset_12 [OF po] by simp_all
  define n where "n = length (unpad_spec (take len buf) po)"
  have n: "po \<le> n" "n \<le> len" and u: "unpad_spec (take len buf) po = take n buf"
    using unpad_spec_bounds [of po "take len buf"] b len unpad_spec_take [of len buf po]
    by (simp_all add: n_def)
  have nb: "n \<le> length buf" using n len by simp
  note parts = clear_padding_bit_parts [OF b(1) n(1) nb]
  note eq = strip_equation [OF len po n_def [symmetric]]
  let ?buf = "clear_padding_bit buf" and ?pay = "drop po (take n buf)"
  show ?thesis
  proof (cases "188 \<le> n - po \<and> ?buf ! po = 0x47")
    case False
    then have "strip_rtp_padding_and_ts_null True buf len = Some (?buf, n)"
      using eq nb by (auto simp: rd_def)
    moreover have "\<not> (188 \<le> length ?pay \<and> ?pay ! 0 = 0x47)"
      using False parts(4) nb by auto
    ultimately show ?thesis
      using parts(3) n len u by (auto simp: strip_packet_spec_def Let_def)
  next
    case True
    obtain buf' np where lp: "strip_ts_loop po (n - po) 0 0 ?buf = Some (buf', np)"
      "take (po + np) buf' = take po ?buf @ strip_spec ?pay" "np \<le> n - po" "length buf' = length buf"
      using strip_ts_loop_correct [of 0 0 "n - po" po ?buf] n nb parts(2) by auto
    have "rd ?buf po = Some 0x47" using True n nb by (auto simp: rd_def)
    then have st: "strip_rtp_padding_and_ts_null True buf len =
        Some (clear_padding_bit buf', if np = 0 then 0 else po + np)"
      using eq True lp(1) by simp
    have "po + np = length (take (po + np) buf')" using lp(3,4) n nb by simp
    then have np: "np = length (strip_spec ?pay)" using lp(2) b len by simp
    have "length (clear_padding_bit (take po (take n buf))) = po" using b n nb by simp
    then have "clear_padding_bit (take po (take n buf)) \<noteq> []"
      using b(1) by (metis length_0_conv less_irrefl)
    moreover have "take (po + np) (clear_padding_bit buf') =
        clear_padding_bit (clear_padding_bit (take po (take n buf)) @ strip_spec ?pay)"
      using b lp(2) parts(1) by (simp add: take_clear_padding_bit)
    ultimately have "take (po + np) (clear_padding_bit buf') =
        clear_padding_bit (take po (take n buf)) @ strip_spec ?pay"
      by (metis clear_padding_bit_append clear_padding_bit_idem)
    moreover have "188 \<le> length ?pay \<and> ?pay ! 0 = 0x47" using True parts(4) nb by auto
    ultimately show ?thesis
      using st np lp(3,4) n u by (auto simp: strip_packet_spec_def Let_def)
  qed
qed

lemma strip_off: "len \<le> length buf \<Longrightarrow> strip_rtp_padding_and_ts_null False buf len = Some (buf, len)"
  by (rule get_payload_offset_safe [of len buf])
    (auto simp: strip_rtp_padding_and_ts_null_def split: option.splits)

lemma strip_safe:
  assumes "len \<le> length buf"
  shows "\<exists>buf' len'. strip_rtp_padding_and_ts_null st buf len = Some (buf', len') \<and> len' \<le> len \<and>
    length buf' = length buf"
proof (cases st)
  case False
  then show ?thesis using strip_off [OF assms] by simp
next
  case True
  obtain r where r: "get_payload_offset buf len = Some r" by (rule get_payload_offset_safe [OF assms])
  show ?thesis
  proof (cases r)
    case None
    with r show ?thesis by (simp add: strip_rtp_padding_and_ts_null_def)
  next
    case (Some po)
    with r True strip_correct [OF assms] show ?thesis by fastforce
  qed
qed

lemma process_forward_safe:
  "len \<le> length buf \<Longrightarrow> \<exists>r. process_forward cfg buf len = Some r \<and> out_len r \<le> len \<and>
     length (out_buf r) = length buf \<and> \<not> waiting r \<and> (forward r \<longleftrightarrow> 0 < out_len r)"
  using strip_safe [of len buf "strip_padding cfg"] by (auto simp: process_forward_def)

lemma process_safe:
  assumes "len \<le> length buf"
  shows "\<exists>r. process cfg w buf len = Some r \<and> out_len r \<le> len \<and> length (out_buf r) = length buf \<and>
    (forward r \<longrightarrow> 0 < out_len r \<and> \<not> waiting r) \<and> (waiting r \<longrightarrow> w)"
proof (cases "len < 12")
  case False
  with assms have "rd buf 0 = Some (buf ! 0)" by (auto simp: rd_def)
  with False show ?thesis
    using process_forward_safe [OF assms, of cfg] check_keyframe_safe [OF assms]
    by (auto simp: process_def)
qed (simp add: process_def)

text \<open>A stream of packets through one pipeline: the results in order, with \<open>wait_for_keyframe_\<close>
  carried from one packet to the next. A packet is a block and a length.\<close>

fun run_pipeline :: "pipeline_cfg \<Rightarrow> bool \<Rightarrow> (u8 list \<times> nat) list \<Rightarrow> process_result list option" where
  "run_pipeline cfg w [] = Some []"
| "run_pipeline cfg w ((buf, len) # ps) = do {
     r \<leftarrow> process cfg w buf len;
     rs \<leftarrow> run_pipeline cfg (waiting r) ps;
     Some (r # rs)
   }"

text \<open>The packets that end the wait: well-formed RTP with a key frame or a PAT.\<close>

definition sync_point :: "u8 list \<times> nat \<Rightarrow> bool" where
  "sync_point p \<longleftrightarrow> 12 \<le> snd p \<and> rtp_v2 (fst p ! 0) \<and> check_keyframe (fst p) (snd p) = Some True"

lemma process_waiting:
  assumes "len \<le> length buf" and "\<not> sync_point (buf, len)"
  shows "process cfg True buf len =
    Some \<lparr>forward = False, waiting = True, out_buf = buf, out_len = len\<rparr>"
proof (cases "len < 12")
  case False
  with assms have "rd buf 0 = Some (buf ! 0)" by (auto simp: rd_def)
  with False show ?thesis
    using assms check_keyframe_safe [OF assms(1)] by (auto simp: process_def sync_point_def)
qed (simp add: process_def)

lemma process_sync:
  assumes "len \<le> length buf" and "sync_point (buf, len)"
  shows "process cfg True buf len = process cfg False buf len"
proof -
  have "rd buf 0 = Some (buf ! 0)" using assms by (auto simp: rd_def sync_point_def)
  with assms(2) show ?thesis by (simp add: process_def sync_point_def)
qed

lemma run_pipeline_open:
  "\<forall>(buf, len) \<in> set ps. len \<le> length buf \<Longrightarrow> \<exists>rs. run_pipeline cfg False ps = Some rs"
proof (induction ps)
  case (Cons p ps)
  obtain buf len where p: "p = (buf, len)" by (cases p)
  obtain r where "process cfg False buf len = Some r" "\<not> waiting r"
    using process_safe [of len buf cfg False] Cons.prems p by auto
  with Cons p show ?case by auto
qed simp

lemma run_pipeline_gate:
  assumes "\<forall>(buf, len) \<in> set (pre @ ps). len \<le> length buf"
    and "\<forall>p \<in> set pre. \<not> sync_point p" and "ps = [] \<or> sync_point (hd ps)"
  shows "run_pipeline cfg True (pre @ ps) = map_option ((@)
    (map (\<lambda>(buf, len). \<lparr>forward = False, waiting = True, out_buf = buf, out_len = len\<rparr>) pre))
    (run_pipeline cfg False ps)"
  using assms
proof (induction pre)
  case Nil
  then show ?case
    by (cases ps) (auto simp: process_sync option.map_ident)
next
  case (Cons p pre)
  obtain buf len where p: "p = (buf, len)" by (cases p)
  with Cons have "process cfg True buf len =
      Some \<lparr>forward = False, waiting = True, out_buf = buf, out_len = len\<rparr>"
    by (intro process_waiting) auto
  with Cons p show ?case
    by (cases "run_pipeline cfg False ps") (auto simp: comp_def)
qed

section \<open>Properties\<close>

text \<open>C7: \<open>process\<close> never reads or writes outside the block it is given, for any block, any length up
  to the block's size and any configuration; the packet only gets shorter, and a packet is
  forwarded only when it is not empty.\<close>

theorem process_memory_safe:
  assumes "len \<le> length buf"
  shows "\<exists>r. process cfg w buf len = Some r \<and> out_len r \<le> len \<and>
    length (out_buf r) = length buf \<and> (forward r \<longrightarrow> 0 < out_len r \<and> \<not> waiting r)"
  using process_safe [OF assms, of cfg w] by blast

theorem process_memory_safe_witness:
  "\<exists>r. process \<lparr>strip_padding = True, wait_keyframe = False\<rparr> False
     [0xA0, 33, 0, 1, 0, 0, 0, 0, 0, 0, 0, 0, 9, 2] 14 = Some r \<and> out_len r \<le> 14 \<and>
     length (out_buf r) = 14"
  using process_memory_safe [of 14 "[0xA0, 33, 0, 1, 0, 0, 0, 0, 0, 0, 0, 0, 9, 2]"
      "\<lparr>strip_padding = True, wait_keyframe = False\<rparr>" False]
  by auto

text \<open>C8: the in-place compaction implements its specification. With stripping on, a well-formed
  packet leaves \<open>process\<close> as its header with the padding bit cleared followed by the payload
  without padding, and, for a transport stream, by exactly the non-null transport packets in
  their order; it is dropped exactly when nothing is left.\<close>

theorem process_strips:
  assumes "len \<le> length buf" and "get_payload_offset buf len = Some (Some po)"
    and "strip_padding cfg"
  shows "\<exists>r. process cfg False buf len = Some r \<and>
    take (out_len r) (out_buf r) = strip_packet_spec (take len buf) po \<and>
    (forward r \<longleftrightarrow> strip_packet_spec (take len buf) po \<noteq> [])"
proof -
  have "12 \<le> len" "rd buf 0 = Some (buf ! 0)" "rtp_v2 (buf ! 0)"
    using assms(2) by (auto simp: get_payload_offset_def rd_def bind_eq_Some_conv split: if_splits)
  moreover obtain buf' len' where "strip_rtp_padding_and_ts_null True buf len = Some (buf', len')"
    "take len' buf' = strip_packet_spec (take len buf) po" "len' \<le> length buf'"
    using strip_correct [OF assms(1,2)] assms(1) by fastforce
  ultimately show ?thesis using assms(3)
    by (cases len') (auto simp: process_def process_forward_def)
qed

theorem process_strips_witness:
  "\<exists>r. process \<lparr>strip_padding = True, wait_keyframe = False\<rparr> False
     [0xA0, 33, 0, 1, 0, 0, 0, 0, 0, 0, 0, 0, 9, 1] 14 = Some r \<and>
     take (out_len r) (out_buf r) = [0x80, 33, 0, 1, 0, 0, 0, 0, 0, 0, 0, 0, 9] \<and> forward r"
proof -
  have "get_payload_offset [0xA0, 33, 0, 1, 0, 0, 0, 0, 0, 0, 0, 0, 9, 1] 14 = Some (Some 12)"
    by (simp add: get_payload_offset_def rd_def rtp_v2_def)
  from process_strips [OF _ this, of "\<lparr>strip_padding = True, wait_keyframe = False\<rparr>"]
  show ?thesis
    by (simp add: strip_packet_spec_def unpad_spec_def clear_padding_bit_def Let_def)
qed



end
