(* ===== verification/Inet.thy ===== *)
theory Inet
  imports Prelude
begin

text \<open>
  The part of \<open>arpa/inet.h\<close> the proxy uses: \<open>inet_pton\<close> and \<open>inet_ntop\<close>/\<open>inet_ntoa\<close> for
  \<open>AF_INET\<close>. An address is its 32-bit value in host order. Also the splitting of a string at a delimiter,
  which the parsers of the proxy share.
\<close>

section \<open>Splitting\<close>

fun str_split :: "char \<Rightarrow> string \<Rightarrow> string list" where
  "str_split d [] = [[]]"
| "str_split d (c # cs) =
     (if c = d then [] # str_split d cs
      else (case str_split d cs of [] \<Rightarrow> [[c]] | t # ts \<Rightarrow> (c # t) # ts))"

fun str_join :: "string \<Rightarrow> string list \<Rightarrow> string" where
  "str_join sep [] = []"
| "str_join sep [t] = t"
| "str_join sep (t # ts) = t @ sep @ str_join sep ts"

lemma str_split_not_Nil [simp]: "str_split d s \<noteq> []"
  by (induction s) (auto split: list.splits)

lemma str_join_split [simp]: "str_join [d] (str_split d s) = s"
proof (induction s)
  case (Cons c s)
  obtain t ts where ts: "str_split d s = t # ts" by (cases "str_split d s") auto
  then have "(if ts = [] then t else t @ [d] @ str_join [d] ts) = s"
    using Cons by (cases ts) auto
  with ts show ?case by (cases ts) auto
qed simp

lemma str_split_no_delim: "t \<in> set (str_split d s) \<Longrightarrow> d \<notin> set t"
  by (induction s arbitrary: t) (force split: list.splits if_splits)+

lemma str_split_single: "d \<notin> set t \<Longrightarrow> str_split d t = [t]"
  by (induction t) auto

lemma str_split_append: "d \<notin> set t \<Longrightarrow> str_split d (t @ d # s) = t # str_split d s"
  by (induction t) auto

lemma str_split_join:
  "ts \<noteq> [] \<Longrightarrow> \<forall>t \<in> set ts. d \<notin> set t \<Longrightarrow> str_split d (str_join [d] ts) = ts"
  by (induction "[d]" ts rule: str_join.induct) (auto simp: str_split_single str_split_append)

section \<open>Addresses\<close>

text \<open>One octet of a dotted quad: one to three digits without a leading zero, at most 255.\<close>

definition octet :: "string \<Rightarrow> nat option" where
  "octet s = (if s \<noteq> [] \<and> list_all c_isdigit s \<and> (tl s = [] \<or> hd s \<noteq> CHR ''0'') \<and>
      nat_of_digits s \<le> 255 then Some (nat_of_digits s) else None)"

definition inet_pton :: "string \<Rightarrow> u32 option" where
  "inet_pton s = (case map octet (str_split (CHR ''.'') s) of
      [Some a, Some b, Some c, Some d] \<Rightarrow> Some (of_nat (16777216 * a + 65536 * b + 256 * c + d))
    | _ \<Rightarrow> None)"

definition inet_ntop :: "u32 \<Rightarrow> string" where
  "inet_ntop ip = str_join ''.'' (map (\<lambda>b. to_string (unat b)) (htonl ip))"

lemma to_string_Cons_zero: "hd (to_string n) = CHR ''0'' \<Longrightarrow> tl (to_string n) = []"
proof (induction n rule: to_string.induct)
  case (1 n)
  show ?case
  proof (cases "n < 10")
    case True
    then show ?thesis by (simp add: to_string.simps [of n])
  next
    case False
    have h: "hd (to_string n) = hd (to_string (n div 10))"
      using False by (simp add: to_string.simps [of n])
    with 1 False have "tl (to_string (n div 10)) = []" by simp
    then obtain c where c: "to_string (n div 10) = [c]" by (cases "to_string (n div 10)") auto
    with h "1.prems" have "c = CHR ''0''" by simp
    moreover have "nat_of_digits [c] = n div 10" using c nat_of_digits_to_string [of "n div 10"] by simp
    ultimately have "n div 10 = 0" by (simp add: nat_of_digits_def digit_val_def)
    with False show ?thesis by simp
  qed
qed

lemma octet_to_string: "n \<le> 255 \<Longrightarrow> octet (to_string n) = Some n"
  using to_string_Cons_zero [of n] to_string_digits [of n]
  by (auto simp: octet_def list_all_iff)

lemma to_string_no_dot: "CHR ''.'' \<notin> set (to_string n)"
  using to_string_digits [of n] by (auto simp: c_isdigit_def)

text \<open>Printing an address and parsing it gives it back; so printing is injective.\<close>

lemma htonl_value: "of_nat (16777216 * unat (htonl ip ! 0) + 65536 * unat (htonl ip ! 1) +
    256 * unat (htonl ip ! 2) + unat (htonl ip ! 3)) = ip"
proof -
  have "unat ip div 16777216 < 256" using unat_u32_lt [of ip] by linarith
  moreover have "16777216 * (n div 16777216) + 65536 * (n div 65536 mod 256) +
      256 * (n div 256 mod 256) + n mod 256 = n" for n :: nat
  proof -
    have "n div 65536 = n div 256 div 256" "n div 16777216 = n div 65536 div 256"
      by (simp_all flip: div_mult2_eq)
    then show ?thesis
      using div_mult_mod_eq [of n 256] div_mult_mod_eq [of "n div 256" 256]
        div_mult_mod_eq [of "n div 65536" 256] by linarith
  qed
  ultimately show ?thesis
    by (simp add: htonl_def unat_of_nat_u8 del: of_nat_add of_nat_mult)
qed

lemma ntohl_htonl: "ntohl (htonl ip ! 0) (htonl ip ! 1) (htonl ip ! 2) (htonl ip ! 3) = ip"
  unfolding ntohl_def by (rule htonl_value)

lemma inet_pton_ntop [simp]: "inet_pton (inet_ntop ip) = Some ip"
proof -
  have "str_split (CHR ''.'') (inet_ntop ip) = map (\<lambda>b. to_string (unat b)) (htonl ip)"
    unfolding inet_ntop_def
    by (rule str_split_join) (auto simp: htonl_def to_string_no_dot)
  moreover have "octet (to_string (unat b)) = Some (unat b)" for b :: u8
    using unat_u8_lt [of b] by (intro octet_to_string) linarith
  ultimately have "inet_pton (inet_ntop ip) = Some (of_nat (16777216 * unat (htonl ip ! 0) +
      65536 * unat (htonl ip ! 1) + 256 * unat (htonl ip ! 2) + unat (htonl ip ! 3)))"
    by (simp add: inet_pton_def htonl_def)
  then show ?thesis by (simp only: htonl_value)
qed

end
