(* ===== verification/Stun_Client.thy ===== *)
theory Stun_Client
  imports Inet "HOL-Library.Monad_Syntax"
begin

text \<open>
  \<open>StunClient\<close> (\<open>src/utils/stun_client.cpp\<close>): the binding request and the parser of the binding
  response. As in the pipeline, every access to the received block is checked, so \<^term>\<open>None\<close> is an
  access out of bounds; \<open>Some None\<close> is the return value \<open>-1\<close>, and \<open>Some (Some (ip, port))\<close> is the
  return value 0 with the two output arguments. \<open>uint16_t val_off\<close> keeps its width.
  \<open>getaddrinfo\<close>, the transaction id and \<open>sendto\<close> are arguments of \<open>send_stun_mapping_request\<close>.
\<close>

section \<open>The model\<close>

definition STUN_MAGIC_COOKIE :: u32 where
  "STUN_MAGIC_COOKIE = 0x2112A442"

text \<open>The 20 bytes \<open>put16\<close> and \<open>put32\<close> write into \<open>req\<close>.\<close>

definition stun_request :: "u8 list \<Rightarrow> u8 list" where
  "stun_request tid = htons 0x0001 @ htons 0 @ htonl STUN_MAGIC_COOKIE @ tid"

text \<open>\<open>send_stun_mapping_request\<close>: the resolver gives the server address or fails; \<open>send\<close> is the
  result of \<open>sendto\<close>. The second component is the datagram handed to \<open>sendto\<close>, if any.\<close>

definition send_stun_mapping_request ::
  "int \<Rightarrow> 'addr option \<Rightarrow> u8 list \<Rightarrow> (u8 list \<Rightarrow> int) \<Rightarrow> int \<times> ('addr \<times> u8 list) option" where
  "send_stun_mapping_request s resolved tid send =
     (if s < 0 then (-1, None)
      else case resolved of None \<Rightarrow> (-1, None)
      | Some a \<Rightarrow>
          (let req = stun_request tid
           in (if send req \<noteq> int (length req) then -1 else 0, Some (a, req))))"

definition rd16 :: "u8 list \<Rightarrow> nat \<Rightarrow> u16 option" where
  "rd16 buf i = do { a \<leftarrow> rd buf i; b \<leftarrow> rd buf (i + 1); Some (ntohs a b) }"

definition rd32 :: "u8 list \<Rightarrow> nat \<Rightarrow> u32 option" where
  "rd32 buf i = do {
     a \<leftarrow> rd buf i; b \<leftarrow> rd buf (i + 1); c \<leftarrow> rd buf (i + 2); d \<leftarrow> rd buf (i + 3);
     Some (ntohl a b c d) }"

text \<open>The advance to the next attribute.\<close>

definition attr_adv :: "nat \<Rightarrow> nat" where
  "attr_adv l = 4 + l + (if l mod 4 \<noteq> 0 then 4 - l mod 4 else 0)"

function stun_attrs :: "u8 list \<Rightarrow> nat \<Rightarrow> nat \<Rightarrow> nat \<Rightarrow> (string \<times> u16) option option" where
  "stun_attrs rsp n ml off =
     (if off + 4 \<le> 20 + ml \<and> off + 4 \<le> n then do {
        t \<leftarrow> rd16 rsp off;
        l \<leftarrow> rd16 rsp (off + 2);
        let vo = (off + 4) mod 65536;
        if vo + unat l > n then Some None
        else if t = 0x0020 \<and> 8 \<le> unat l then do {
          family \<leftarrow> rd rsp (vo + 1);
          if family = 0x01 then do {
            xport \<leftarrow> rd16 rsp (vo + 2);
            xaddr \<leftarrow> rd32 rsp (vo + 4);
            let port = xport XOR 0x2112;
            let ip = xaddr XOR STUN_MAGIC_COOKIE;
            Some (Some (inet_ntop ip, port))
          }
          else stun_attrs rsp n ml (off + attr_adv (unat l))
        }
        else if t = 0x0001 \<and> 8 \<le> unat l then do {
          family \<leftarrow> rd rsp (vo + 1);
          if family = 0x01 then do {
            port \<leftarrow> rd16 rsp (vo + 2);
            ip \<leftarrow> rd32 rsp (vo + 4);
            Some (Some (inet_ntop ip, port))
          }
          else stun_attrs rsp n ml (off + attr_adv (unat l))
        }
        else stun_attrs rsp n ml (off + attr_adv (unat l))
      }
      else Some None)"
  by pat_completeness auto
termination
  by (relation "measure (\<lambda>(rsp, n, ml, off). n - off)") (auto simp: attr_adv_def)

declare stun_attrs.simps [simp del]

definition extract_stun_mapping_from_response ::
    "u8 list \<Rightarrow> nat \<Rightarrow> (string \<times> u16) option option" where
  "extract_stun_mapping_from_response rsp n =
     (if n < 20 then Some None
      else do {
        ml \<leftarrow> rd16 rsp 2;
        cookie \<leftarrow> rd32 rsp 4;
        if cookie \<noteq> STUN_MAGIC_COOKIE then Some None
        else stun_attrs rsp n (unat ml) 20
      })"

section \<open>No access outside the response\<close>

lemma rd16_no_fail [no_fail]: "i + 1 < length buf \<Longrightarrow> rd16 buf i \<noteq> None"
  unfolding rd16_def by (intro no_fail) simp_all

lemma rd32_no_fail [no_fail]: "i + 3 < length buf \<Longrightarrow> rd32 buf i \<noteq> None"
  unfolding rd32_def by (intro no_fail) simp_all

lemma attr_adv_progress: "off + 4 \<le> n \<Longrightarrow> n - (off + attr_adv l) < n - off"
  by (simp add: attr_adv_def)

lemma stun_attrs_safe:
  assumes "n \<le> length rsp" shows "stun_attrs rsp n ml off \<noteq> None"
proof (induction "n - off" arbitrary: off rule: less_induct)
  case less
  have IH: "off + 4 \<le> n \<Longrightarrow> stun_attrs rsp n ml (off + attr_adv l) \<noteq> None" for l
    using less [OF attr_adv_progress] .
  show ?case
    by (subst stun_attrs.simps, unfold Let_def, intro no_fail IH) (use assms in simp_all)
qed

lemma extract_safe: "n \<le> length rsp \<Longrightarrow> extract_stun_mapping_from_response rsp n \<noteq> None"
  unfolding extract_stun_mapping_from_response_def by (intro no_fail stun_attrs_safe) simp_all

section \<open>Decoding what a server encodes\<close>

text \<open>The encoding of RFC 5389: attributes padded to four bytes, a 20-byte header.\<close>

definition enc_attr :: "u16 \<times> u8 list \<Rightarrow> u8 list" where
  "enc_attr a = htons (fst a) @ htons (of_nat (length (snd a))) @ snd a @
     replicate (attr_adv (length (snd a)) - 4 - length (snd a)) 0"

definition stun_msg :: "u16 \<Rightarrow> u8 list \<Rightarrow> (u16 \<times> u8 list) list \<Rightarrow> u8 list" where
  "stun_msg ty tid attrs =
     (let body = concat (map enc_attr attrs)
      in htons ty @ htons (of_nat (length body)) @ htonl STUN_MAGIC_COOKIE @ tid @ body)"

definition xor_mapped_addr :: "u32 \<Rightarrow> u16 \<Rightarrow> u16 \<times> u8 list" where
  "xor_mapped_addr ip port =
     (0x0020, [0, 1] @ htons (port XOR 0x2112) @ htonl (ip XOR STUN_MAGIC_COOKIE))"

lemma length_enc_attr: "length (enc_attr a) = attr_adv (length (snd a))"
  by (simp add: enc_attr_def) (simp add: attr_adv_def)

lemma rd16_at: "length pre = i \<Longrightarrow> rd16 (pre @ htons v @ post) i = Some v"
  using ntohs_htons [of v]
  by (auto simp: rd16_def rd_def nth_append htons_def)

lemma rd32_at: "length pre = i \<Longrightarrow> rd32 (pre @ htonl v @ post) i = Some v"
  using ntohl_htonl [of v]
  by (auto simp: rd32_def rd_def nth_append htonl_def)

lemma htons_htonl_value [simp]: "unat (of_nat k :: u16) = k mod 65536"
  by (rule unat_of_nat_u16)

text \<open>One attribute of another type is skipped.\<close>

lemma stun_attrs_skip:
  assumes off: "length pre = off" and t: "fst a \<noteq> 0x0020" "fst a \<noteq> 0x0001"
    and len: "length (pre @ enc_attr a @ rest) = n" "n < 65532" "n \<le> 20 + ml"
  shows "stun_attrs (pre @ enc_attr a @ rest) n ml off =
    stun_attrs (pre @ enc_attr a @ rest) n ml (off + length (enc_attr a))"
proof -
  let ?v = "snd a" and ?rsp = "pre @ enc_attr a @ rest"
  have l: "4 + length ?v \<le> length (enc_attr a)" by (simp add: length_enc_attr attr_adv_def)
  have lv: "length ?v < 65536" and off4: "off + 4 + length ?v \<le> n" using l len off by auto
  have e: "?rsp = pre @ htons (fst a) @ (htons (of_nat (length ?v)) @ ?v @
      replicate (attr_adv (length ?v) - 4 - length ?v) 0 @ rest)"
    by (simp add: enc_attr_def)
  have r1: "rd16 ?rsp off = Some (fst a)" unfolding e by (rule rd16_at [OF off])
  have "?rsp = (pre @ htons (fst a)) @ htons (of_nat (length ?v)) @ (?v @
      replicate (attr_adv (length ?v) - 4 - length ?v) 0 @ rest)"
    by (simp add: enc_attr_def)
  then have r2: "rd16 ?rsp (off + 2) = Some (of_nat (length ?v))"
    by (simp only:, intro rd16_at) (simp add: off)
  show ?thesis
    using r1 r2 t lv off4 len
    by (subst stun_attrs.simps) (simp add: Let_def length_enc_attr)
qed

lemma stun_attrs_skip_all:
  assumes "length pre = off" and "\<forall>a \<in> set attrs. fst a \<noteq> 0x0020 \<and> fst a \<noteq> 0x0001"
    and "length (pre @ concat (map enc_attr attrs) @ rest) = n" "n < 65532" "n \<le> 20 + ml"
  shows "stun_attrs (pre @ concat (map enc_attr attrs) @ rest) n ml off =
    stun_attrs (pre @ concat (map enc_attr attrs) @ rest) n ml
      (off + length (concat (map enc_attr attrs)))"
  using assms
proof (induction attrs arbitrary: pre off)
  case (Cons a attrs)
  have "stun_attrs (pre @ enc_attr a @ (concat (map enc_attr attrs) @ rest)) n ml off =
      stun_attrs (pre @ enc_attr a @ (concat (map enc_attr attrs) @ rest)) n ml
        (off + length (enc_attr a))"
    by (rule stun_attrs_skip) (use Cons.prems in auto)
  also have "\<dots> = stun_attrs ((pre @ enc_attr a) @ concat (map enc_attr attrs) @ rest) n ml
      (off + length (enc_attr a) + length (concat (map enc_attr attrs)))"
    using Cons.IH [of "pre @ enc_attr a" "off + length (enc_attr a)"] Cons.prems by simp
  finally show ?case by (simp add: add.assoc)
qed simp

lemma stun_attrs_found:
  assumes off: "length pre = off" and len: "length (pre @ enc_attr (xor_mapped_addr ip port) @ rest) = n"
    "n < 65532" "n \<le> 20 + ml"
  shows "stun_attrs (pre @ enc_attr (xor_mapped_addr ip port) @ rest) n ml off =
    Some (Some (inet_ntop ip, port))"
proof -
  let ?p = "port XOR 0x2112" and ?a = "ip XOR STUN_MAGIC_COOKIE"
  let ?rsp = "pre @ enc_attr (xor_mapped_addr ip port) @ rest"
  have e: "?rsp = pre @ htons 0x0020 @ htons 8 @ [0, 1] @ htons ?p @ htonl ?a @ rest"
    by (simp add: enc_attr_def xor_mapped_addr_def attr_adv_def)
  have n: "off + 12 \<le> n" using len off unfolding e by auto
  have r1: "rd16 ?rsp off = Some 0x0020" unfolding e by (rule rd16_at [OF off])
  have "?rsp = (pre @ htons 0x0020) @ htons 8 @ ([0, 1] @ htons ?p @ htonl ?a @ rest)" by (simp add: e)
  then have r2: "rd16 ?rsp (off + 2) = Some 8" by (simp only:, intro rd16_at) (simp add: off)
  have "?rsp = (pre @ htons 0x0020 @ htons 8 @ [0, 1]) @ htons ?p @ (htonl ?a @ rest)" by (simp add: e)
  then have r3: "rd16 ?rsp (off + 4 + 2) = Some ?p" by (simp only:, intro rd16_at) (simp add: off)
  have "?rsp = (pre @ htons 0x0020 @ htons 8 @ [0, 1] @ htons ?p) @ htonl ?a @ rest" by (simp add: e)
  then have r4: "rd32 ?rsp (off + 4 + 4) = Some ?a" by (simp only:, intro rd32_at) (simp add: off)
  have r5: "rd ?rsp (off + 4 + 1) = Some 1"
    unfolding e by (auto simp: rd_def nth_append htons_def off)
  show ?thesis
    using r1 r2 r3 r4 r5 n len
    by (subst stun_attrs.simps) (simp add: Let_def xor.assoc)
qed

lemma extract_stun_msg:
  assumes tid: "length tid = 12" and n: "length (stun_msg ty tid attrs) = n" "n < 65532"
  shows "extract_stun_mapping_from_response (stun_msg ty tid attrs) n =
    stun_attrs (stun_msg ty tid attrs) n (n - 20) 20"
proof -
  let ?body = "concat (map enc_attr attrs)"
  have l: "n = 20 + length ?body" using n tid by (simp add: stun_msg_def Let_def)
  have "rd16 (stun_msg ty tid attrs) 2 = Some (of_nat (length ?body))"
    unfolding stun_msg_def Let_def by (rule rd16_at) simp
  moreover have "rd32 (stun_msg ty tid attrs) 4 = Some STUN_MAGIC_COOKIE"
  proof -
    have "stun_msg ty tid attrs = (htons ty @ htons (of_nat (length ?body))) @
        htonl STUN_MAGIC_COOKIE @ (tid @ ?body)"
      by (simp add: stun_msg_def Let_def)
    then show ?thesis by (simp only:, intro rd32_at) simp
  qed
  ultimately show ?thesis
    using l n by (simp add: extract_stun_mapping_from_response_def)
qed

section \<open>Properties\<close>

text \<open>C21: parsing a STUN response never reads outside the received bytes and always terminates,
  whatever the peer sent: for every block and every length up to its size there is a result.\<close>

theorem stun_response_memory_safe:
  assumes "rsp_len \<le> length rsp"
  shows "\<exists>r. extract_stun_mapping_from_response rsp rsp_len = Some r"
  using extract_safe [OF assms] by simp

theorem stun_response_memory_safe_witness:
  "\<exists>r. extract_stun_mapping_from_response (replicate 24 0xFF) 24 = Some r"
  using stun_response_memory_safe [of 24 "replicate 24 0xFF"] by simp

text \<open>C22: the parser inverts the encoding. From a response of fewer than 65532 bytes whose
  XOR-MAPPED-ADDRESS attribute comes after any attributes of other types and before anything
  else, it returns exactly the address and the port the server encoded.\<close>

theorem stun_response_roundtrip:
  assumes "length tid = 12"
    and "\<forall>a \<in> set pre. fst a \<noteq> 0x0020 \<and> fst a \<noteq> 0x0001"
    and "length (stun_msg ty tid (pre @ xor_mapped_addr ip port # post)) < 65532"
  shows "extract_stun_mapping_from_response
      (stun_msg ty tid (pre @ xor_mapped_addr ip port # post))
      (length (stun_msg ty tid (pre @ xor_mapped_addr ip port # post))) =
    Some (Some (inet_ntop ip, port))"
proof -
  let ?attrs = "pre @ xor_mapped_addr ip port # post"
  let ?msg = "stun_msg ty tid ?attrs"
  let ?hdr = "htons ty @ htons (of_nat (length (concat (map enc_attr ?attrs)))) @
    htonl STUN_MAGIC_COOKIE @ tid"
  let ?rest = "concat (map enc_attr post)" and ?x = "enc_attr (xor_mapped_addr ip port)"
  have msg: "?msg = ?hdr @ concat (map enc_attr pre) @ (?x @ ?rest)"
    by (simp add: stun_msg_def Let_def)
  have hdr: "length ?hdr = 20" using assms(1) by simp
  have "stun_attrs ?msg (length ?msg) (length ?msg - 20) 20 =
      stun_attrs ?msg (length ?msg) (length ?msg - 20) (20 + length (concat (map enc_attr pre)))"
    unfolding msg by (rule stun_attrs_skip_all [OF hdr assms(2) refl]) (use assms(3) msg in simp_all)
  also have "\<dots> = Some (Some (inet_ntop ip, port))"
  proof -
    have m2: "?msg = (?hdr @ concat (map enc_attr pre)) @ ?x @ ?rest" by (simp add: msg)
    show ?thesis
      unfolding m2 by (rule stun_attrs_found) (use assms(1,3) m2 in simp_all)
  qed
  finally show ?thesis using extract_stun_msg [OF assms(1) refl assms(3)] by simp
qed

theorem stun_response_roundtrip_witness:
  "extract_stun_mapping_from_response
     (stun_msg 0x0101 (replicate 12 7) [(0x8022, [65, 66, 67]), xor_mapped_addr 0xC0A80001 40000])
     (length (stun_msg 0x0101 (replicate 12 7)
        [(0x8022, [65, 66, 67]), xor_mapped_addr 0xC0A80001 40000])) =
   Some (Some (inet_ntop 0xC0A80001, 40000))"
proof -
  have "length (stun_msg 0x0101 (replicate 12 7)
      ([(0x8022, [65, 66, 67])] @ xor_mapped_addr 0xC0A80001 40000 # [])) < 65532"
    by (simp add: stun_msg_def enc_attr_def xor_mapped_addr_def attr_adv_def)
  from stun_response_roundtrip [OF _ _ this] show ?thesis by simp
qed

end
