(* ===== verification/Rtsp_Parser.thy ===== *)
theory Rtsp_Parser
  imports Inet
begin

text \<open>
  \<open>rtspCtx\<close> and its parts (\<open>include/common/rtsp_ctx.h\<close>) and \<open>rtspParser\<close>
  (\<open>src/protocol/rtsp_parser.cpp\<close>): URL, header, status line, transport and SDP parsing.
  A parser that fills a context takes it and returns the updated one together with the return
  value, so the fields a failing parse has already written are visible. A \<open>std::map\<close> is a map,
  an \<open>int\<close> a \<^typ>\<open>int\<close>; the assignment of an \<open>int\<close> to a \<open>uint16_t\<close> field is the conversion
  \<open>of_int\<close> to \<^typ>\<open>u16\<close>, which truncates.
\<close>

section \<open>Data\<close>

record Media =
  media_type :: string
  media_port :: int
  protocol :: string
  trackID :: string
  formats :: "string list"
  attributes :: "string \<rightharpoonup> string"
  media_bandwidth :: "string \<rightharpoonup> int"

record sdpCtx =
  session_name :: string
  version :: string
  origin :: string
  sdp_time :: string
  session_bandwidth :: "string \<rightharpoonup> int"
  media_streams :: "Media list"

record rtspCtx =
  server_rtsp_port :: u16
  server_rtp_port :: u16
  server_rtcp_port :: u16
  session_id :: string
  server_ip :: string
  path :: string
  rtsp_url :: string
  content_base :: string
  sdp :: sdpCtx

definition empty_sdp :: sdpCtx where
  "empty_sdp = \<lparr>session_name = [], version = [], origin = [], sdp_time = [],
     session_bandwidth = Map.empty, media_streams = []\<rparr>"

text \<open>\<open>rtspCtx ctx;\<close> leaves the three ports indeterminate: they are the argument.\<close>

definition new_ctx :: "u16 \<times> u16 \<times> u16 \<Rightarrow> rtspCtx" where
  "new_ctx junk = \<lparr>server_rtsp_port = fst junk, server_rtp_port = fst (snd junk),
     server_rtcp_port = snd (snd junk), session_id = [], server_ip = [], path = [],
     rtsp_url = [], content_base = [], sdp = empty_sdp\<rparr>"

section \<open>SDP\<close>

definition sdp_ws :: "char \<Rightarrow> bool" where
  "sdp_ws c \<longleftrightarrow> c = CHR '' '' \<or> c = TAB \<or> c = LF \<or> c = CR"

definition trim :: "string \<Rightarrow> string" where
  "trim s = rev (dropWhile sdp_ws (rev (dropWhile sdp_ws s)))"

text \<open>A \<open>getline\<close> that fails leaves its string empty and the stream at its end.\<close>

definition getline_or_empty :: "char \<Rightarrow> string \<Rightarrow> string \<times> string" where
  "getline_or_empty d s = (case getline d s of None \<Rightarrow> ([], []) | Some r \<Rightarrow> r)"

definition parseMedia :: "string \<Rightarrow> sdpCtx \<Rightarrow> sdpCtx" where
  "parseMedia line s =
     (let (ty, r1) = getline_or_empty (CHR '' '') (drop 2 line);
          (port_str, r2) = getline_or_empty (CHR '' '') r1;
          (prot, r3) = getline_or_empty (CHR '' '') r2
      in case stoi port_str of
           Inl _ \<Rightarrow> s
         | Inr port \<Rightarrow>
             s\<lparr>media_streams := media_streams s @
               [\<lparr>media_type = ty, media_port = port, protocol = prot, trackID = [],
                 formats = getlines (CHR '' '') r3, attributes = Map.empty,
                 media_bandwidth = Map.empty\<rparr>]\<rparr>)"

definition parseAttribute :: "string \<Rightarrow> Media \<Rightarrow> Media" where
  "parseAttribute line m =
     (case getline (CHR '':'') (drop 2 line) of None \<Rightarrow> m
      | Some (key, r) \<Rightarrow>
          (case getline LF r of None \<Rightarrow> m
           | Some (val, _) \<Rightarrow>
               (let m' = m\<lparr>attributes := (attributes m)(key \<mapsto> val)\<rparr>
                in if key = ''control'' then m'\<lparr>trackID := val\<rparr> else m')))"

definition parseBandwidth :: "string \<Rightarrow> sdpCtx \<Rightarrow> sdpCtx" where
  "parseBandwidth line s =
     (case getline (CHR '':'') (drop 2 line) of None \<Rightarrow> s
      | Some (ty, r) \<Rightarrow>
          (case stoi r of Inl _ \<Rightarrow> s
           | Inr v \<Rightarrow> s\<lparr>session_bandwidth := (session_bandwidth s)(ty \<mapsto> v)\<rparr>))"

text \<open>The body of the line loop of \<open>parseSDP\<close>; \<open>media_streams.back()\<close> is updated in place.\<close>

definition parse_sdp_line :: "string \<Rightarrow> sdpCtx \<Rightarrow> sdpCtx" where
  "parse_sdp_line raw s =
     (let line = trim raw
      in if line = [] then s
         else if take 2 line = ''v='' then s\<lparr>version := drop 2 line\<rparr>
         else if take 2 line = ''o='' then s\<lparr>origin := drop 2 line\<rparr>
         else if take 2 line = ''s='' then s\<lparr>session_name := drop 2 line\<rparr>
         else if take 2 line = ''t='' then s\<lparr>sdp_time := drop 2 line\<rparr>
         else if take 2 line = ''m='' then parseMedia line s
         else if take 2 line = ''b='' then parseBandwidth line s
         else if take 2 line = ''a='' then
           (if media_streams s \<noteq> []
            then s\<lparr>media_streams := butlast (media_streams s) @
                     [parseAttribute line (last (media_streams s))]\<rparr>
            else s)
         else s)"

definition parseSDP :: "string \<Rightarrow> rtspCtx \<Rightarrow> rtspCtx" where
  "parseSDP sdp_data ctx = ctx\<lparr>sdp := fold parse_sdp_line (getlines LF sdp_data) (sdp ctx)\<rparr>"

section \<open>Headers\<close>

text \<open>The two blocks of \<open>parse_server_ports\<close>: the ports after \<open>key\<close>. \<^term>\<open>None\<close> when the block is
  left without a \<open>return\<close>.\<close>

definition parse_port_block :: "string \<Rightarrow> string \<Rightarrow> rtspCtx \<Rightarrow> (int \<times> rtspCtx) option" where
  "parse_port_block key transport ctx =
     (case str_find key transport of None \<Rightarrow> None
      | Some p \<Rightarrow>
          (let sp = p + length key
           in case str_find_from ''-'' transport sp of None \<Rightarrow> None
              | Some dash \<Rightarrow>
                  Some (case stoi (take (dash - sp) (drop sp transport)) of
                    Inl _ \<Rightarrow> (-1, ctx)
                  | Inr rtp \<Rightarrow>
                      (let ctx1 = ctx\<lparr>server_rtp_port := of_int rtp\<rparr>
                       in case stoi (drop (dash + 1) transport) of
                            Inl _ \<Rightarrow> (-1, ctx1)
                          | Inr rtcp \<Rightarrow> (0, ctx1\<lparr>server_rtcp_port := of_int rtcp\<rparr>)))))"

definition parse_server_ports :: "string \<Rightarrow> rtspCtx \<Rightarrow> int \<times> rtspCtx" where
  "parse_server_ports resp ctx =
     (case str_find ''Transport:'' resp of None \<Rightarrow> (-1, ctx)
      | Some pos \<Rightarrow>
          (let transport = substr_to resp pos (str_find_from CRLF resp pos)
           in case parse_port_block ''server_port='' transport ctx of
                Some r \<Rightarrow> r
              | None \<Rightarrow>
                  (case parse_port_block ''interleaved='' transport ctx of
                     Some r \<Rightarrow> r
                   | None \<Rightarrow> (-1, ctx))))"

definition is_blank :: "char \<Rightarrow> bool" where
  "is_blank c \<longleftrightarrow> c = CHR '' '' \<or> c = TAB"

text \<open>\<open>while (pos < s.size() && (s[pos] == ' ' || s[pos] == '\\t')) ++pos\<close>.\<close>

definition skip_blanks :: "string \<Rightarrow> nat \<Rightarrow> nat" where
  "skip_blanks s pos = pos + length (takeWhile is_blank (drop pos s))"

definition get_content_length :: "string \<Rightarrow> int" where
  "get_content_length resp =
     (case (case str_find ''Content-Length:'' resp of
              None \<Rightarrow> str_find ''Content-length:'' resp | Some p \<Rightarrow> Some p) of
        None \<Rightarrow> 0
      | Some p \<Rightarrow>
          (let pos = skip_blanks resp (p + 15)
           in case find_first_of_from CRLF resp pos of None \<Rightarrow> 0
              | Some e \<Rightarrow>
                  (case stoi (take (e - pos) (drop pos resp)) of Inl _ \<Rightarrow> 0 | Inr v \<Rightarrow> v)))"

text \<open>\<open>sscanf(resp.c_str(), "RTSP/%*s %d", &code)\<close>. The conversion goes through \<open>long\<close>, saturating, and
  stores the low 32 bits.\<close>

definition long_to_int :: "int \<Rightarrow> int" where
  "long_to_int v = sint (of_int (max (- (2 ^ 63)) (min (2 ^ 63 - 1) v)) :: u32)"

definition parse_status_code :: "string \<Rightarrow> int" where
  "parse_status_code resp =
     (let s = takeWhile (\<lambda>c. c \<noteq> CHR 0x00) resp
      in if take 5 s \<noteq> ''RTSP/'' then -1
         else
           (let t = dropWhile c_isspace (drop 5 s)
            in if t = [] then -1
               else case scan_int (dropWhile (\<lambda>c. \<not> c_isspace c) t) of
                      None \<Rightarrow> -1
                    | Some (neg, n) \<Rightarrow> long_to_int (if neg then - int n else int n)))"

definition parse_session_id :: "string \<Rightarrow> rtspCtx \<Rightarrow> int \<times> rtspCtx" where
  "parse_session_id resp ctx =
     (case str_find ''Session:'' resp of None \<Rightarrow> (-1, ctx)
      | Some p \<Rightarrow>
          (let pos = skip_blanks resp (p + 8);
               e = find_first_of_from [CHR '';'', CR, LF] resp pos
           in (0, ctx\<lparr>session_id := substr_to resp pos e\<rparr>)))"

definition parse_url :: "string \<Rightarrow> rtspCtx \<Rightarrow> int \<times> rtspCtx" where
  "parse_url url ctx0 =
     (let ctx = ctx0\<lparr>rtsp_url := url\<rparr>
      in if \<not> prefix ''rtsp://'' url then (-1, ctx)
         else
           (let slash = str_find_from ''/'' url 7;
                hostport = substr_to url 7 slash
            in if hostport = [] then (-1, ctx)
               else
                 (let pth = (case slash of None \<Rightarrow> ''/'' | Some s \<Rightarrow> drop s url)
                  in case str_find '':'' hostport of
                       Some colon \<Rightarrow>
                         (let ctx1 = ctx\<lparr>server_ip := take colon hostport\<rparr>
                          in case stoi (drop (colon + 1) hostport) of
                               Inl _ \<Rightarrow> (-1, ctx1)
                             | Inr p \<Rightarrow> (0, ctx1\<lparr>server_rtsp_port := of_int p, path := pth\<rparr>))
                     | None \<Rightarrow>
                         (0, ctx\<lparr>server_ip := hostport, server_rtsp_port := 554, path := pth\<rparr>))))"

definition to_lower :: "string \<Rightarrow> string" where
  "to_lower s = map c_tolower s"

definition extract_header_value :: "string \<Rightarrow> string \<Rightarrow> string" where
  "extract_header_value msg header_name =
     (case str_find (to_lower header_name @ '':'') (to_lower msg) of None \<Rightarrow> []
      | Some p \<Rightarrow>
          (let pos = skip_blanks msg (p + length header_name + 1)
           in substr_to msg pos (str_find_from CRLF msg pos)))"

section \<open>Searching in messages\<close>

lemma str_find_extend:
  assumes "str_find pat s = Some i" shows "str_find pat (s @ t) = Some i"
proof -
  have i: "i \<le> length s" "prefix pat (drop i s)" "\<forall>j<i. \<not> prefix pat (drop j s)"
    and b: "i + length pat \<le> length s"
    using assms str_find_bound [OF assms] by (simp_all add: str_find_Some_iff)
  have "\<not> prefix pat (drop j (s @ t))" if "j < i" for j
  proof
    assume "prefix pat (drop j (s @ t))"
    then have "prefix pat (drop j s @ t)" using that i by simp
    moreover have "length pat \<le> length (drop j s)" using b that by simp
    ultimately have "prefix pat (drop j s)" by (metis prefix_append prefix_length_prefix prefixI)
    with i that show False by blast
  qed
  with i show ?thesis by (auto simp: str_find_Some_iff)
qed

lemma to_lower_append [simp]: "to_lower (a @ b) = to_lower a @ to_lower b"
  by (simp add: to_lower_def)

lemma length_to_lower [simp]: "length (to_lower a) = length a"
  by (simp add: to_lower_def)

lemma to_lower_Cons: "to_lower (c # s) = c_tolower c # to_lower s"
  by (simp add: to_lower_def)

lemma skip_blanks_at:
  assumes "length pre = i" "\<forall>c \<in> set ws. is_blank c" "s = [] \<or> \<not> is_blank (hd s)"
  shows "skip_blanks (pre @ ws @ s) i = i + length ws"
proof -
  have "takeWhile is_blank (ws @ s) = ws"
    using assms(2,3) by (cases s) (auto simp: takeWhile_append)
  with assms(1) show ?thesis by (simp add: skip_blanks_def)
qed

lemma substr_to_find:
  assumes "length pre = i" "str_find pat (v @ rest) = Some (length v)"
  shows "substr_to (pre @ v @ rest) i (str_find_from pat (pre @ v @ rest) i) = v"
  using assms by (simp add: substr_to_def str_find_from_def)

lemma find_first_of_from_at:
  "length pre = i \<Longrightarrow> find_first_of_from cs (pre @ s) i = map_option ((+) i) (find_first_of cs s)"
  by (simp add: find_first_of_from_def)

lemma drop_at: "length pre = i \<Longrightarrow> drop i (pre @ s) = s"
  by simp

lemma extract_header_value_at:
  assumes first: "str_find (to_lower name @ '':'') (to_lower (pre @ name' @ '':'')) = Some (length pre)"
    and name: "length name' = length name"
    and ws: "\<forall>c \<in> set ws. is_blank c" and v: "v = [] \<or> \<not> is_blank (hd v)"
    and crlf: "str_find CRLF (v @ CRLF) = Some (length v)"
  shows "extract_header_value (pre @ name' @ '':'' @ ws @ v @ CRLF @ rest) name = v"
proof -
  let ?msg = "pre @ name' @ '':'' @ ws @ v @ CRLF @ rest"
  let ?h = "pre @ name' @ '':''"
  have "?msg = ?h @ (ws @ v @ CRLF @ rest)" by simp
  then have "to_lower ?msg = to_lower ?h @ to_lower (ws @ v @ CRLF @ rest)"
    by (metis to_lower_append)
  then have f: "str_find (to_lower name @ '':'') (to_lower ?msg) = Some (length pre)"
    using str_find_extend [OF first] by (simp only:)
  have h: "length ?h = length pre + length name + 1" using name by simp
  have m: "?msg = ?h @ ws @ (v @ CRLF @ rest)" "?msg = (?h @ ws) @ v @ (CRLF @ rest)" by simp_all
  have "skip_blanks ?msg (length pre + length name + 1) = length pre + length name + 1 + length ws"
    unfolding m(1) by (rule skip_blanks_at [OF h ws]) (use v in \<open>cases v; auto simp: is_blank_def\<close>)
  moreover have "str_find CRLF (v @ (CRLF @ rest)) = Some (length v)"
    using str_find_extend [OF crlf, of rest] by simp
  then have "substr_to ?msg (length pre + length name + 1 + length ws)
      (str_find_from CRLF ?msg (length pre + length name + 1 + length ws)) = v"
    unfolding m(2) by (intro substr_to_find) (use h in simp_all)
  ultimately show ?thesis unfolding extract_header_value_def f by (simp add: Let_def)
qed

lemma get_content_length_at:
  assumes first: "str_find ''Content-Length:'' (pre @ ''Content-Length:'') = Some (length pre)"
    and ws: "\<forall>c \<in> set ws. is_blank c" and n: "n < 2 ^ 31"
  shows "get_content_length (pre @ ''Content-Length:'' @ ws @ to_string n @ CRLF @ rest) = int n"
proof -
  let ?msg = "pre @ ''Content-Length:'' @ ws @ to_string n @ CRLF @ rest"
  let ?h = "pre @ ''Content-Length:''"
  have f: "str_find ''Content-Length:'' ?msg = Some (length pre)"
    using str_find_extend [OF first, of "ws @ to_string n @ CRLF @ rest"] by simp
  have h: "length ?h = length pre + 15" by simp
  have d: "\<forall>c \<in> set (to_string n). c \<noteq> CR \<and> c \<noteq> LF \<and> \<not> is_blank c"
    using to_string_digits [of n] by (auto simp: c_isdigit_def is_blank_def)
  have m: "?msg = ?h @ ws @ (to_string n @ CRLF @ rest)"
    "?msg = (?h @ ws) @ (to_string n @ CRLF @ rest)" by simp_all
  have sk: "skip_blanks ?msg (length pre + 15) = length pre + 15 + length ws"
    unfolding m(1)
    by (rule skip_blanks_at [OF h ws]) (use d in \<open>cases "to_string n"; auto\<close>)
  have "find_first_of CRLF (to_string n @ CR # LF # rest) = Some (length (to_string n))"
    by (rule find_first_of_first) (use d in auto)
  moreover have h2: "length (?h @ ws) = length pre + 15 + length ws" by simp
  ultimately have "find_first_of_from CRLF ?msg (length pre + 15 + length ws) =
      Some (length pre + 15 + length ws + length (to_string n))"
    unfolding m(2) find_first_of_from_at [OF h2] by simp
  moreover have "take (length (to_string n)) (drop (length pre + 15 + length ws) ?msg) = to_string n"
    unfolding m(2) drop_at [OF h2] by simp
  ultimately show ?thesis
    unfolding get_content_length_def f option.case sk Let_def using n by simp
qed

section \<open>SDP media sections\<close>

text \<open>A media section as a server prints it: type, port, protocol, formats and the control attribute
  the proxy uses as the track.\<close>

type_synonym sdp_media = "string \<times> nat \<times> string \<times> string list \<times> string"

definition token_ok :: "string \<Rightarrow> bool" where
  "token_ok t \<longleftrightarrow> t \<noteq> [] \<and> (\<forall>c \<in> set t. \<not> sdp_ws c)"

definition sdp_media_ok :: "sdp_media \<Rightarrow> bool" where
  "sdp_media_ok = (\<lambda>(ty, port, prot, fmts, ctl). token_ok ty \<and> port < 2 ^ 31 \<and> token_ok prot \<and>
     fmts \<noteq> [] \<and> (\<forall>f \<in> set fmts. token_ok f) \<and> token_ok ctl)"

definition media_line :: "sdp_media \<Rightarrow> string" where
  "media_line = (\<lambda>(ty, port, prot, fmts, ctl).
     ''m='' @ str_join '' '' (ty # to_string port # prot # fmts))"

definition control_line :: "sdp_media \<Rightarrow> string" where
  "control_line = (\<lambda>(ty, port, prot, fmts, ctl). ''a=control:'' @ ctl)"

definition print_media :: "sdp_media \<Rightarrow> string" where
  "print_media m = media_line m @ CRLF @ control_line m @ CRLF"

definition media_of :: "sdp_media \<Rightarrow> Media" where
  "media_of = (\<lambda>(ty, port, prot, fmts, ctl). \<lparr>media_type = ty, media_port = int port,
     protocol = prot, trackID = ctl, formats = fmts, attributes = [''control'' \<mapsto> ctl],
     media_bandwidth = Map.empty\<rparr>)"

lemma getline_at: "d \<notin> set t \<Longrightarrow> getline d (t @ d # r) = Some (t, r)"
  by (auto simp: getline_def takeWhile_append dropWhile_append)

lemma getlines_at: "d \<notin> set t \<Longrightarrow> getlines d (t @ d # r) = t # getlines d r"
  by (subst getlines.simps) (simp add: getline_at)

lemma getline_last: "t \<noteq> [] \<Longrightarrow> d \<notin> set t \<Longrightarrow> getline d t = Some (t, [])"
proof -
  assume t: "t \<noteq> []" "d \<notin> set t"
  then have "takeWhile (\<lambda>c. c \<noteq> d) t = t" by (auto simp: takeWhile_eq_all_conv)
  moreover have "dropWhile (\<lambda>c. c \<noteq> d) t = []" using t by (auto simp: dropWhile_eq_Nil_conv)
  ultimately show ?thesis using t(1) by (simp only: getline_def if_False drop_Nil)
qed

lemma getlines_last: "t \<noteq> [] \<Longrightarrow> d \<notin> set t \<Longrightarrow> getlines d t = [t]"
  by (subst getlines.simps) (simp add: getline_last)

lemma getlines_join:
  "ts \<noteq> [] \<Longrightarrow> \<forall>t \<in> set ts. t \<noteq> [] \<and> d \<notin> set t \<Longrightarrow> getlines d (str_join [d] ts) = ts"
  by (induction "[d]" ts rule: str_join.induct) (auto simp: getlines_at getlines_last)

lemma token_okD: "token_ok t \<Longrightarrow> t \<noteq> [] \<and> CHR '' '' \<notin> set t \<and> LF \<notin> set t \<and> CR \<notin> set t"
  by (auto simp: token_ok_def sdp_ws_def)

lemma token_ok_to_string: "token_ok (to_string n)"
  using to_string_digits [of n] by (auto simp: token_ok_def sdp_ws_def c_isdigit_def)

text \<open>A line that starts and ends with visible characters survives trimming.\<close>

lemma trim_line:
  assumes "l \<noteq> []" "\<not> sdp_ws (hd l)" "\<not> sdp_ws (last l)"
  shows "trim (l @ [CR]) = l"
proof -
  obtain c cs where "l = c # cs" using assms(1) by (cases l) auto
  then have d: "dropWhile sdp_ws (l @ [CR]) = l @ [CR]" using assms(2) by simp
  obtain xs x where "l = xs @ [x]" using assms(1) by (cases l rule: rev_cases) auto
  with d assms(3) show ?thesis by (simp add: trim_def sdp_ws_def)
qed

lemma last_str_join: "ts \<noteq> [] \<Longrightarrow> last ts \<noteq> [] \<Longrightarrow> last (str_join sep ts) = last (last ts) \<and> str_join sep ts \<noteq> []"
  by (induction sep ts rule: str_join.induct) auto

lemma set_str_join: "set (str_join sep ts) \<subseteq> set sep \<union> (\<Union>t \<in> set ts. set t)"
  by (induction sep ts rule: str_join.induct) auto

lemma media_line_props:
  assumes "sdp_media_ok m"
  shows "LF \<notin> set (media_line m @ [CR])" and "trim (media_line m @ [CR]) = media_line m"
proof -
  obtain ty port prot fmts ctl where m: "m = (ty, port, prot, fmts, ctl)" by (cases m)
  let ?ts = "ty # to_string port # prot # fmts"
  have ok: "\<forall>t \<in> set ?ts. token_ok t" and f: "fmts \<noteq> []"
    using assms token_ok_to_string by (auto simp: m sdp_media_ok_def)
  then show "LF \<notin> set (media_line m @ [CR])"
    using set_str_join [of "'' ''" ?ts] by (auto simp: m media_line_def dest!: token_okD)
  have l: "last ?ts \<in> set ?ts" by (rule last_in_set) simp
  then have "token_ok (last ?ts)" using ok by blast
  then have "\<not> sdp_ws (last (media_line m))"
    using last_str_join [of ?ts "'' ''"] by (auto simp: m media_line_def token_ok_def)
  then show "trim (media_line m @ [CR]) = media_line m"
    by (intro trim_line) (auto simp: m media_line_def sdp_ws_def)
qed

lemma control_line_props:
  assumes "sdp_media_ok m"
  shows "LF \<notin> set (control_line m @ [CR])" and "trim (control_line m @ [CR]) = control_line m"
proof -
  obtain ty port prot fmts ctl where m: "m = (ty, port, prot, fmts, ctl)" by (cases m)
  have c: "token_ok ctl" using assms by (simp add: m sdp_media_ok_def)
  then show "LF \<notin> set (control_line m @ [CR])" by (auto simp: m control_line_def dest: token_okD)
  from c have "\<not> sdp_ws (last (control_line m))" by (auto simp: m control_line_def token_ok_def)
  then show "trim (control_line m @ [CR]) = control_line m"
    by (intro trim_line) (auto simp: m control_line_def sdp_ws_def)
qed

lemma parse_media_line:
  assumes "sdp_media_ok m"
  shows "parse_sdp_line (media_line m @ [CR]) s = s\<lparr>media_streams := media_streams s @
    [(media_of m)\<lparr>trackID := [], attributes := Map.empty\<rparr>]\<rparr>"
proof -
  obtain ty port prot fmts ctl where m: "m = (ty, port, prot, fmts, ctl)" by (cases m)
  obtain f fs where f: "fmts = f # fs" using assms by (cases fmts) (auto simp: m sdp_media_ok_def)
  have ok: "token_ok ty" "port < 2 ^ 31" "token_ok prot" "\<forall>f \<in> set fmts. token_ok f"
    using assms by (auto simp: m sdp_media_ok_def)
  have "getlines (CHR '' '') (str_join '' '' fmts) = fmts"
    by (rule getlines_join) (use ok f in \<open>auto dest: token_okD\<close>)
  then have "parseMedia (media_line m) s = s\<lparr>media_streams := media_streams s @
      [(media_of m)\<lparr>trackID := [], attributes := Map.empty\<rparr>]\<rparr>"
    using ok token_okD [OF token_ok_to_string, of port] token_okD [OF ok(1)] token_okD [OF ok(3)]
    by (simp add: m f parseMedia_def media_line_def getline_or_empty_def getline_at media_of_def)
  moreover have "take 2 (media_line m) = ''m=''" by (simp add: m media_line_def)
  moreover from this have "media_line m \<noteq> []" by auto
  ultimately show ?thesis
    by (simp add: parse_sdp_line_def media_line_props(2) [OF assms])
qed

lemma parse_control_line:
  assumes "sdp_media_ok m"
  shows "parse_sdp_line (control_line m @ [CR]) (s\<lparr>media_streams := ms @
      [(media_of m)\<lparr>trackID := [], attributes := Map.empty\<rparr>]\<rparr>) =
    s\<lparr>media_streams := ms @ [media_of m]\<rparr>"
proof -
  obtain ty port prot fmts ctl where m: "m = (ty, port, prot, fmts, ctl)" by (cases m)
  have c: "ctl \<noteq> []" "LF \<notin> set ctl"
    using assms by (auto simp: m sdp_media_ok_def dest: token_okD)
  have "getline (CHR '':'') (''control'' @ CHR '':'' # ctl) = Some (''control'', ctl)"
    by (rule getline_at) simp
  moreover have "getline LF ctl = Some (ctl, [])"
    using c by (rule getline_last)
  ultimately have "parseAttribute (control_line m)
      ((media_of m)\<lparr>trackID := [], attributes := Map.empty\<rparr>) = media_of m"
    by (simp add: m control_line_def parseAttribute_def media_of_def)
  moreover have "take 2 (control_line m) = ''a=''" by (simp add: m control_line_def)
  moreover from this have "control_line m \<noteq> []" by auto
  ultimately show ?thesis
    by (simp add: parse_sdp_line_def control_line_props(2) [OF assms])
qed

lemma fold_print_media:
  "\<forall>m \<in> set ms. sdp_media_ok m \<Longrightarrow>
   fold parse_sdp_line (getlines LF (concat (map print_media ms))) s =
     s\<lparr>media_streams := media_streams s @ map media_of ms\<rparr>"
proof (induction ms arbitrary: s)
  case (Cons m ms)
  then have ok: "sdp_media_ok m" by simp
  have "concat (map print_media (m # ms)) = (media_line m @ [CR]) @ LF #
      ((control_line m @ [CR]) @ LF # concat (map print_media ms))"
    by (simp add: print_media_def)
  then have "getlines LF (concat (map print_media (m # ms))) =
      (media_line m @ [CR]) # (control_line m @ [CR]) # getlines LF (concat (map print_media ms))"
    using getlines_at [OF media_line_props(1) [OF ok]] getlines_at [OF control_line_props(1) [OF ok]]
    by (simp only:)
  with Cons show ?case
    by (simp add: parse_media_line [OF ok] parse_control_line [OF ok])
qed simp

text \<open>The URL of a host, a port and a path.\<close>

lemma parse_url_printed:
  assumes "host \<noteq> []" "CHR ''/'' \<notin> set host" "CHR '':'' \<notin> set host"
    and "port < 65536" "pth = [] \<or> hd pth = CHR ''/''"
  shows "parse_url (''rtsp://'' @ host @ '':'' @ to_string port @ pth) ctx =
    (0, ctx\<lparr>rtsp_url := ''rtsp://'' @ host @ '':'' @ to_string port @ pth, server_ip := host,
        server_rtsp_port := of_nat port, path := (if pth = [] then ''/'' else pth)\<rparr>)"
proof -
  let ?hp = "host @ CHR '':'' # to_string port"
  let ?url = "''rtsp://'' @ host @ '':'' @ to_string port @ pth"
  have nos: "CHR ''/'' \<notin> set ?hp" using assms(2) to_string_digits [of port] by (auto simp: c_isdigit_def)
  have d: "drop 7 ?url = ?hp @ pth" by simp
  have "str_find_from ''/'' ?url 7 = map_option ((+) 7) (str_find ''/'' (?hp @ pth))"
    unfolding str_find_from_def d by simp
  also have "\<dots> = (if pth = [] then None else Some (7 + length ?hp))"
    using nos assms(5) by (cases pth) (auto simp: str_find_char_skip)
  finally have sl: "str_find_from ''/'' ?url 7 = (if pth = [] then None else Some (7 + length ?hp))" .
  have hp: "substr_to ?url 7 (str_find_from ''/'' ?url 7) = ?hp"
    unfolding sl substr_to_def d by simp
  have colon: "str_find '':'' ?hp = Some (length host)" using assms(3) by (rule str_find_char_first)
  have pd: "drop (7 + length ?hp) ?url = pth"
    unfolding drop_drop [symmetric] add.commute [of 7] d by (simp add: drop_drop flip: drop_drop)
  have "stoi (to_string port) = Inr (int port)" using assms(4) by simp
  then show ?thesis
    unfolding parse_url_def Let_def hp colon using pd sl by (auto simp: colon)
qed

section \<open>Properties\<close>

text \<open>URL round trip. Parsing the URL made of a host, a port and a path (empty or starting with a
  slash) succeeds and gives these three back; an empty path becomes the root path.\<close>

theorem parse_url_roundtrip:
  assumes "host \<noteq> []" "CHR ''/'' \<notin> set host" "CHR '':'' \<notin> set host"
    and "port < 65536" "pth = [] \<or> hd pth = CHR ''/''"
  shows "parse_url (''rtsp://'' @ host @ '':'' @ to_string port @ pth) ctx =
    (0, ctx\<lparr>rtsp_url := ''rtsp://'' @ host @ '':'' @ to_string port @ pth, server_ip := host,
        server_rtsp_port := of_nat port, path := (if pth = [] then ''/'' else pth)\<rparr>)"
  by (rule parse_url_printed [OF assms])

theorem parse_url_roundtrip_witness:
  "parse_url ''rtsp://10.0.0.1:1554/ch?x=1'' (new_ctx (0, 0, 0)) = (0, (new_ctx (0, 0, 0))
     \<lparr>rtsp_url := ''rtsp://10.0.0.1:1554/ch?x=1'', server_ip := ''10.0.0.1'',
      server_rtsp_port := 1554, path := ''/ch?x=1''\<rparr>)"
proof -
  have t: "to_string 1554 = ''1554''" by code_simp
  show ?thesis
    using parse_url_roundtrip [of "''10.0.0.1''" 1554 "''/ch?x=1''" "new_ctx (0, 0, 0)"]
    unfolding t by simp
qed

text \<open>Header lookup. The value of the first header line whose name matches without regard to
  case is returned, without the blanks after the colon and up to the end of the line.\<close>

theorem extract_header_value_correct:
  assumes "str_find (to_lower name @ '':'') (to_lower (pre @ name' @ '':'')) = Some (length pre)"
    and "length name' = length name"
    and "\<forall>c \<in> set ws. is_blank c" and "v = [] \<or> \<not> is_blank (hd v)"
    and "str_find CRLF (v @ CRLF) = Some (length v)"
  shows "extract_header_value (pre @ name' @ '':'' @ ws @ v @ CRLF @ rest) name = v"
  by (rule extract_header_value_at [OF assms])

theorem extract_header_value_correct_witness:
  "extract_header_value (''RTSP/1.0 200 OK'' @ CRLF @ ''cseq:  7'' @ CRLF @ CRLF) ''CSeq'' = ''7''"
proof -
  have f: "str_find (to_lower ''CSeq'' @ '':'') (to_lower ((''RTSP/1.0 200 OK'' @ CRLF) @ ''cseq'' @ '':'')) =
      Some (length (''RTSP/1.0 200 OK'' @ CRLF))"
    by code_simp
  show ?thesis
    using extract_header_value_correct [OF f, of "''  ''" "''7''" CRLF] by (simp add: is_blank_def)
qed

text \<open>Body length. From a message whose first Content-Length header holds a decimal number below
  \<open>2\<^sup>3\<^sup>1\<close>, exactly that number is read.\<close>

theorem get_content_length_correct:
  assumes "str_find ''Content-Length:'' (pre @ ''Content-Length:'') = Some (length pre)"
    and "\<forall>c \<in> set ws. is_blank c" and "n < 2 ^ 31"
  shows "get_content_length (pre @ ''Content-Length:'' @ ws @ to_string n @ CRLF @ rest) = int n"
  by (rule get_content_length_at [OF assms])

theorem get_content_length_correct_witness:
  "get_content_length (''RTSP/1.0 200 OK'' @ CRLF @ ''Content-Length: 460'' @ CRLF @ CRLF) = 460"
proof -
  have t: "to_string 460 = ''460''" by code_simp
  show ?thesis
    using get_content_length_correct [of "''RTSP/1.0 200 OK'' @ CRLF" "'' ''" 460 CRLF]
    unfolding t by (simp add: is_blank_def)
qed

text \<open>C28: SDP round trip. From the printed media sections, parsing appends to the context, in order,
  one media stream per section with its type, port, protocol, formats and control track, and
  changes nothing else.\<close>

theorem parseSDP_roundtrip:
  assumes "\<forall>m \<in> set ms. sdp_media_ok m"
  shows "parseSDP (concat (map print_media ms)) ctx =
    ctx\<lparr>sdp := (sdp ctx)\<lparr>media_streams := media_streams (sdp ctx) @ map media_of ms\<rparr>\<rparr>"
  by (simp add: parseSDP_def fold_print_media [OF assms])

theorem parseSDP_roundtrip_witness:
  "media_streams (sdp (parseSDP
     (concat (map print_media [(''video'', 0, ''RTP/AVP'', [''33''], ''trackID=1'')]))
     (new_ctx (0, 0, 0)))) = [media_of (''video'', 0, ''RTP/AVP'', [''33''], ''trackID=1'')]"
  using parseSDP_roundtrip [of "[(''video'', 0, ''RTP/AVP'', [''33''], ''trackID=1'')]" "new_ctx (0, 0, 0)"]
  by (simp add: sdp_media_ok_def token_ok_def sdp_ws_def new_ctx_def empty_sdp_def)

end
