(* ===== verification/Json.thy ===== *)
theory Json
  imports Prelude
begin

text \<open>
  Values of the JSON library as the proxy reads them (configuration file) and builds them (client
  information, API answers), with the conversions \<open>get<T>()\<close> and the member access it uses. A float
  carries the integer it truncates to, which is all the proxy reads of it. Text is written in \<open>Json_Dump\<close> and read in \<open>Json_Parse\<close>.
\<close>

datatype json =
    JNull
  | JBool bool
  | JInt int
  | JFloat int
  | JStr string
  | JArr "json list"
  | JObj "(string \<times> json) list"

definition is_array :: "json \<Rightarrow> bool" where
  "is_array j = (case j of JArr _ \<Rightarrow> True | _ \<Rightarrow> False)"

definition is_object :: "json \<Rightarrow> bool" where
  "is_object j = (case j of JObj _ \<Rightarrow> True | _ \<Rightarrow> False)"

text \<open>\<open>j.contains(key)\<close> and the value of a member. On a constant value \<open>operator[]\<close> with a missing
  key is undefined.\<close>

definition member :: "json \<Rightarrow> string \<Rightarrow> json option" where
  "member j key = (case j of JObj ms \<Rightarrow> map_of ms key | _ \<Rightarrow> None)"

definition contains :: "json \<Rightarrow> string \<Rightarrow> bool" where
  "contains j key \<longleftrightarrow> member j key \<noteq> None"

definition at_const :: "json \<Rightarrow> string \<Rightarrow> cxx_error + json" where
  "at_const j key = (case j of
      JObj ms \<Rightarrow> (case map_of ms key of None \<Rightarrow> Inl UndefinedBehaviour | Some v \<Rightarrow> Inr v)
    | _ \<Rightarrow> Inl JsonError)"

text \<open>The elements a range-based \<open>for\<close> visits.\<close>

definition elements :: "json \<Rightarrow> json list" where
  "elements j = (case j of JNull \<Rightarrow> [] | JArr xs \<Rightarrow> xs | JObj ms \<Rightarrow> map snd ms | v \<Rightarrow> [v])"

text \<open>Conversions. An integer conversion is a \<open>static_cast\<close>, so it wraps at the width; that of a float out of range is
  undefined. A boolean converts to \<open>int\<close>, but not to \<open>size_t\<close>, which is the library's own unsigned type, nor the other way round.\<close>

definition wrap_int :: "int \<Rightarrow> int" where
  "wrap_int i = (i + 2 ^ 31) mod 2 ^ 32 - 2 ^ 31"

definition get_int :: "json \<Rightarrow> cxx_error + int" where
  "get_int j = (case j of JInt i \<Rightarrow> Inr (wrap_int i)
     | JFloat i \<Rightarrow> (if - (2 ^ 31) \<le> i \<and> i < 2 ^ 31 then Inr i else Inl UndefinedBehaviour)
     | JBool b \<Rightarrow> Inr (if b then 1 else 0) | _ \<Rightarrow> Inl JsonError)"

definition get_size :: "json \<Rightarrow> cxx_error + nat" where
  "get_size j = (case j of JInt i \<Rightarrow> Inr (nat (i mod 2 ^ 64))
     | JFloat i \<Rightarrow> (if 0 \<le> i \<and> i < 2 ^ 64 then Inr (nat i) else Inl UndefinedBehaviour) | _ \<Rightarrow> Inl JsonError)"

definition get_bool :: "json \<Rightarrow> cxx_error + bool" where
  "get_bool j = (case j of JBool b \<Rightarrow> Inr b | _ \<Rightarrow> Inl JsonError)"

definition get_string :: "json \<Rightarrow> cxx_error + string" where
  "get_string j = (case j of JStr s \<Rightarrow> Inr s | _ \<Rightarrow> Inl JsonError)"

lemma wrap_int_id [simp]: "- (2 ^ 31) \<le> i \<Longrightarrow> i < 2 ^ 31 \<Longrightarrow> wrap_int i = i"
  by (simp add: wrap_int_def)

lemma wrap_int_range [bounds]: "- (2 ^ 31) \<le> wrap_int i \<and> wrap_int i < 2 ^ 31"
  by (simp add: wrap_int_def)

lemma get_int_range [bounds]: "get_int j = Inr v \<Longrightarrow> - (2 ^ 31) \<le> v \<and> v < 2 ^ 31"
  using wrap_int_range by (auto simp: get_int_def split: json.splits if_splits)

section \<open>Errors as values\<close>

text \<open>Sequencing of computations that may throw.\<close>

definition throwing :: "cxx_error + 'a \<Rightarrow> ('a \<Rightarrow> cxx_error + 'b) \<Rightarrow> cxx_error + 'b" where
  "throwing m f = (case m of Inl e \<Rightarrow> Inl e | Inr x \<Rightarrow> f x)"

lemma throwing_simps [simp]:
  "throwing (Inl e) f = Inl e"
  "throwing (Inr x) f = f x"
  by (simp_all add: throwing_def)

lemma throwing_Inr: "throwing m f = Inr y \<longleftrightarrow> (\<exists>x. m = Inr x \<and> f x = Inr y)"
  by (cases m) auto

lemma throwing_assoc: "throwing (throwing m f) g = throwing m (\<lambda>x. throwing (f x) g)"
  by (cases m) auto

end
