(* ===== verification/Json_Dump.thy ===== *)
theory Json_Dump
  imports Json
begin

text \<open>
  \<open>3rd/json.hpp\<close>, the serializer as the proxy calls it: \<open>j.dump()\<close>, on one line, without escaping to ASCII and with the strict treatment
  of text that is not UTF-8. A string is written through a buffer of 512 bytes; the decoder of UTF-8 is the table of the
  library. The text of a floating-point number is an argument.
\<close>

section \<open>Decoding UTF-8\<close>

abbreviation (input) "UTF8_ACCEPT \<equiv> (0 :: nat)"
abbreviation (input) "UTF8_REJECT \<equiv> (1 :: nat)"

text \<open>The table: the class of each byte, then for each state the next state by class.\<close>

definition utf8d :: "nat list" where
  "utf8d =
     replicate 128 0 @ replicate 16 1 @ replicate 16 9 @ replicate 32 7 @ [8, 8] @ replicate 30 2 @
     [10, 3, 3, 3, 3, 3, 3, 3, 3, 3, 3, 3, 3, 4, 3, 3] @ [11, 6, 6, 6, 5, 8, 8, 8, 8, 8, 8, 8, 8, 8, 8, 8] @
     [0, 1, 2, 3, 5, 8, 7, 1, 1, 1, 4, 6, 1, 1, 1, 1] @
     [1, 1, 1, 1, 1, 1, 1, 1, 1, 1, 1, 1, 1, 1, 1, 1, 1, 0, 1, 1, 1, 1, 1, 0, 1, 0, 1, 1, 1, 1, 1, 1] @
     [1, 2, 1, 1, 1, 1, 1, 2, 1, 2, 1, 1, 1, 1, 1, 1, 1, 1, 1, 1, 1, 1, 1, 2, 1, 1, 1, 1, 1, 1, 1, 1] @
     [1, 2, 1, 1, 1, 1, 1, 1, 1, 2, 1, 1, 1, 1, 1, 1, 1, 1, 1, 1, 1, 1, 1, 3, 1, 3, 1, 1, 1, 1, 1, 1] @
     [1, 3, 1, 1, 1, 1, 1, 3, 1, 3, 1, 1, 1, 1, 1, 1, 1, 3, 1, 1, 1, 1, 1, 1, 1, 1, 1, 1, 1, 1, 1, 1]"

definition decode :: "nat \<Rightarrow> u32 \<Rightarrow> u8 \<Rightarrow> nat \<times> u32" where
  "decode state codep byte =
     (let type = utf8d ! unat byte;
          codep' = (if state \<noteq> UTF8_ACCEPT then (ucast byte AND 0x3F) OR push_bit 6 codep
                    else drop_bit type 0xFF AND ucast byte)
      in (utf8d ! (256 + state * 16 + type), codep'))"

section \<open>Strings\<close>

definition hex_digit :: "nat \<Rightarrow> char" where
  "hex_digit n = (if n < 10 then char_of (0x30 + n) else char_of (0x57 + n))"

text \<open>\<open>snprintf("\\u%04x", codepoint)\<close> for a code point of at most 16 bits.\<close>

definition u_escape :: "nat \<Rightarrow> string" where
  "u_escape n = [CHR 0x5C, CHR ''u'', hex_digit (n div 4096 mod 16), hex_digit (n div 256 mod 16), hex_digit (n div 16 mod 16),
     hex_digit (n mod 16)]"

definition escape_code :: "u32 \<Rightarrow> char \<Rightarrow> string" where
  "escape_code codepoint c =
     (if codepoint = 0x08 then [CHR 0x5C, CHR ''b'']
      else if codepoint = 0x09 then [CHR 0x5C, CHR ''t'']
      else if codepoint = 0x0A then [CHR 0x5C, CHR ''n'']
      else if codepoint = 0x0C then [CHR 0x5C, CHR ''f'']
      else if codepoint = 0x0D then [CHR 0x5C, CHR ''r'']
      else if codepoint = 0x22 then [CHR 0x5C, CHR 0x22]
      else if codepoint = 0x5C then [CHR 0x5C, CHR 0x5C]
      else if codepoint \<le> 0x1F then u_escape (unat codepoint)
      else [c])"

text \<open>What has been written, the bytes in \<open>string_buffer\<close>, and the state of the decoder.\<close>

record escaper =
  esc_written :: string
  esc_buffer :: string
  esc_state :: nat
  esc_codep :: u32

definition string_buffer_size :: nat where
  "string_buffer_size = 512"

definition flush_buffer :: "escaper \<Rightarrow> escaper" where
  "flush_buffer e =
     (if string_buffer_size - length (esc_buffer e) < 13
      then e\<lparr>esc_written := esc_written e @ esc_buffer e, esc_buffer := []\<rparr> else e)"

fun dump_bytes :: "string \<Rightarrow> escaper \<Rightarrow> cxx_error + escaper" where
  "dump_bytes [] e = Inr e"
| "dump_bytes (c # cs) e =
     (case decode (esc_state e) (esc_codep e) (of_char c) of
        (state, codepoint) \<Rightarrow>
          (let e1 = e\<lparr>esc_state := state, esc_codep := codepoint\<rparr> in
           if state = UTF8_ACCEPT then
             dump_bytes cs (flush_buffer (e1\<lparr>esc_buffer := esc_buffer e @ escape_code codepoint c\<rparr>))
           else if state = UTF8_REJECT then Inl JsonError
           else dump_bytes cs (e1\<lparr>esc_buffer := esc_buffer e @ [c]\<rparr>)))"

definition dump_escaped :: "string \<Rightarrow> cxx_error + string" where
  "dump_escaped s =
     throwing (dump_bytes s \<lparr>esc_written = [], esc_buffer = [], esc_state = UTF8_ACCEPT, esc_codep = 0\<rparr>) (\<lambda>e.
       if esc_state e = UTF8_ACCEPT then Inr (esc_written e @ esc_buffer e) else Inl JsonError)"

section \<open>Numbers\<close>

text \<open>The digits are written from the right, two at a time from a table.\<close>

definition digits_to_99 :: "nat \<Rightarrow> string" where
  "digits_to_99 n = [digit_char (n div 10), digit_char (n mod 10)]"

fun dump_digits :: "nat \<Rightarrow> string \<Rightarrow> string" where
  "dump_digits abs_value out =
     (if 100 \<le> abs_value then dump_digits (abs_value div 100) (digits_to_99 (abs_value mod 100) @ out)
      else if 10 \<le> abs_value then digits_to_99 abs_value @ out
      else digit_char abs_value # out)"

declare dump_digits.simps [simp del]

definition dump_integer :: "int \<Rightarrow> string" where
  "dump_integer x =
     (if x = 0 then ''0''
      else if x < 0 then CHR ''-'' # dump_digits (nat (- (x + 1)) + 1) []
      else dump_digits (nat x) [])"

section \<open>Values\<close>

fun dump :: "(int \<Rightarrow> string) \<Rightarrow> json \<Rightarrow> cxx_error + string"
  and dump_elements :: "(int \<Rightarrow> string) \<Rightarrow> json list \<Rightarrow> cxx_error + string"
  and dump_members :: "(int \<Rightarrow> string) \<Rightarrow> (string \<times> json) list \<Rightarrow> cxx_error + string"
where
  "dump ft (JObj ms) =
     (if ms = [] then Inr ''{}'' else throwing (dump_members ft ms) (\<lambda>t. Inr (''{'' @ t @ ''}'')))"
| "dump ft (JArr xs) =
     (if xs = [] then Inr ''[]'' else throwing (dump_elements ft xs) (\<lambda>t. Inr (''['' @ t @ '']'')))"
| "dump ft (JStr s) = throwing (dump_escaped s) (\<lambda>t. Inr (CHR 0x22 # t @ [CHR 0x22]))"
| "dump ft (JBool b) = Inr (if b then ''true'' else ''false'')"
| "dump ft (JInt i) = Inr (dump_integer i)"
| "dump ft (JFloat i) = Inr (ft i)"
| "dump ft JNull = Inr ''null''"
| "dump_elements ft [] = Inr []"
| "dump_elements ft (x # xs) =
     throwing (dump ft x) (\<lambda>t.
       if xs = [] then Inr t else throwing (dump_elements ft xs) (\<lambda>ts. Inr (t @ '','' @ ts)))"
| "dump_members ft [] = Inr []"
| "dump_members ft ((k, v) # ms) =
     throwing (dump_escaped k) (\<lambda>kt. throwing (dump ft v) (\<lambda>t.
       let m = CHR 0x22 # kt @ [CHR 0x22] @ '':'' @ t in
       if ms = [] then Inr m else throwing (dump_members ft ms) (\<lambda>ts. Inr (m @ '','' @ ts))))"

section \<open>The table of the decoder\<close>

text \<open>The bytes of one character, after RFC 3629.\<close>

definition utf8_tail :: "nat \<Rightarrow> bool" where
  "utf8_tail b \<longleftrightarrow> 0x80 \<le> b \<and> b \<le> 0xBF"

fun utf8_bytes :: "nat list \<Rightarrow> bool" where
  "utf8_bytes [a] = (a < 0x80)"
| "utf8_bytes [a, b] = (0xC2 \<le> a \<and> a \<le> 0xDF \<and> utf8_tail b)"
| "utf8_bytes [a, b, c] =
     (utf8_tail c \<and> (a = 0xE0 \<and> 0xA0 \<le> b \<and> b \<le> 0xBF \<or> a = 0xED \<and> 0x80 \<le> b \<and> b \<le> 0x9F \<or>
        0xE1 \<le> a \<and> a \<le> 0xEF \<and> a \<noteq> 0xED \<and> utf8_tail b))"
| "utf8_bytes [a, b, c, d] =
     (utf8_tail c \<and> utf8_tail d \<and> (a = 0xF0 \<and> 0x90 \<le> b \<and> b \<le> 0xBF \<or> a = 0xF4 \<and> 0x80 \<le> b \<and> b \<le> 0x8F \<or>
        0xF1 \<le> a \<and> a \<le> 0xF3 \<and> utf8_tail b))"
| "utf8_bytes bs = False"

definition utf8_char :: "string \<Rightarrow> bool" where
  "utf8_char w \<longleftrightarrow> utf8_bytes (map of_char w)"

inductive utf8 :: "string \<Rightarrow> bool" where
  utf8_Nil: "utf8 []"
| utf8_more: "utf8_char w \<Longrightarrow> utf8 s \<Longrightarrow> utf8 (w @ s)"

lemma ascii_utf8: "list_all (\<lambda>c. (of_char c :: nat) < 0x80) s \<Longrightarrow> utf8 s"
proof (induction s)
  case Nil
  show ?case by (rule utf8_Nil)
next
  case (Cons c s)
  then have "utf8_char [c]" "utf8 s" by (simp_all add: utf8_char_def)
  then show ?case using utf8_more [of "[c]" s] by simp
qed

definition byte_class :: "nat \<Rightarrow> nat" where
  "byte_class n =
     (if n < 0x80 then 0 else if n < 0x90 then 1 else if n < 0xA0 then 9 else if n < 0xC0 then 7 else if n < 0xC2 then 8
      else if n < 0xE0 then 2 else if n = 0xE0 then 10 else if n = 0xED then 4 else if n < 0xF0 then 3
      else if n = 0xF0 then 11 else if n < 0xF4 then 6 else if n = 0xF4 then 5 else 8)"

lemma utf8d_class:
  assumes "n < 256" shows "utf8d ! n = byte_class n"
proof -
  have "list_all (\<lambda>n. utf8d ! n = byte_class n) [0..<256]" by code_simp
  with assms show ?thesis by (auto simp: list_all_iff)
qed

text \<open>The transitions on the bytes of a character, and the rejections.\<close>

definition utf8_next :: "nat \<Rightarrow> nat \<Rightarrow> nat" where
  "utf8_next state type = utf8d ! (256 + state * 16 + type)"

lemma utf8_next_lead:
  "utf8_next 0 0 = 0" "utf8_next 0 2 = 2" "utf8_next 0 3 = 3" "utf8_next 0 4 = 5" "utf8_next 0 5 = 8" "utf8_next 0 6 = 7"
  "utf8_next 0 10 = 4" "utf8_next 0 11 = 6"
  by code_simp+

lemma utf8_next_tail:
  "utf8_next 2 1 = 0" "utf8_next 2 7 = 0" "utf8_next 2 9 = 0" "utf8_next 3 1 = 2" "utf8_next 3 7 = 2" "utf8_next 3 9 = 2"
  "utf8_next 4 7 = 2" "utf8_next 5 1 = 2" "utf8_next 5 9 = 2" "utf8_next 6 7 = 3" "utf8_next 6 9 = 3"
  "utf8_next 7 1 = 3" "utf8_next 7 7 = 3" "utf8_next 7 9 = 3" "utf8_next 8 1 = 3"
  by code_simp+

lemma utf8_states: "state \<le> 8 \<Longrightarrow> type \<le> 11 \<Longrightarrow> utf8_next state type \<le> 8 \<and> utf8_next state 8 = UTF8_REJECT"
proof -
  have "list_all (\<lambda>state. list_all (\<lambda>type. utf8_next state type \<le> 8) [0..<12] \<and> utf8_next state 8 = UTF8_REJECT) [0..<9]"
    by code_simp
  then show "state \<le> 8 \<Longrightarrow> type \<le> 11 \<Longrightarrow> ?thesis" by (auto simp: list_all_iff)
qed

lemma byte_class_le: "byte_class n \<le> 11"
  by (simp add: byte_class_def)

lemma char_byte [simp]: "unat (of_char c :: u8) = of_char c"
proof -
  have "(of_char c :: u8) = of_nat (of_char c)" by (simp only: of_nat_of_char)
  moreover have "(of_char c :: nat) < 256" by simp
  ultimately show ?thesis by (simp only: unat_of_nat_u8 mod_less)
qed

lemma decode_state: "fst (decode state codep (of_char c)) = utf8_next state (byte_class (of_char c))"
  by (simp add: decode_def utf8_next_def utf8d_class Let_def)

text \<open>The code point: a lead byte keeps its low bits, every other byte adds six.\<close>

lemma wide_byte: "unat (ucast (of_char c :: u8) :: u32) = of_char c"
proof -
  have "(of_char c :: nat) < 256" by simp
  then have "(of_char c :: nat) mod 4294967296 = of_char c" by (intro mod_less) (rule order_less_trans, assumption, simp)
  then show ?thesis by (simp add: unsigned_ucast_eq take_bit_eq_mod)
qed

lemma decode_lead:
  "unat (snd (decode UTF8_ACCEPT codep (of_char c))) = of_char c mod 2 ^ (8 - byte_class (of_char c))"
proof -
  have m: "drop_bit t (0xFF :: u32) = mask (8 - t)" if "t \<le> 11" for t
  proof -
    have "\<forall>t \<in> set [0..<12]. drop_bit t (0xFF :: u32) = mask (8 - t)" by code_simp
    with that show ?thesis by auto
  qed
  have "snd (decode UTF8_ACCEPT codep (of_char c)) = take_bit (8 - byte_class (of_char c)) (ucast (of_char c :: u8) :: u32)"
    by (simp add: decode_def utf8d_class Let_def m [OF byte_class_le] take_bit_eq_mask and.commute)
  then show ?thesis by (simp add: unsigned_take_bit_eq wide_byte) (simp add: take_bit_eq_mod)
qed

lemma decode_tail:
  assumes "state \<noteq> UTF8_ACCEPT" and "unat codep < 2 ^ 20"
  shows "unat (snd (decode state codep (of_char c))) = 64 * unat codep + of_char c mod 64"
proof -
  let ?b = "ucast (of_char c :: u8) :: u32"
  have b: "unat (take_bit 6 ?b) = of_char c mod 64"
    by (simp add: unsigned_take_bit_eq wide_byte) (simp add: take_bit_eq_mod)
  have p: "unat (push_bit 6 codep) = 64 * unat codep"
    unfolding unsigned_push_bit_eq using assms(2) by (simp add: push_bit_eq_mult take_bit_eq_mod)
  have "take_bit 6 ?b AND push_bit 6 codep = 0"
    by (rule bit_word_eqI) (simp add: bit_simps)
  then have "take_bit 6 ?b OR push_bit 6 codep = take_bit 6 ?b + push_bit 6 codep" by (rule disjunctive_add_eq_or [symmetric])
  moreover have "?b AND 0x3F = take_bit 6 ?b" by (simp add: take_bit_eq_mask mask_eq_exp_minus_1)
  ultimately have "snd (decode state codep (of_char c)) = take_bit 6 ?b + push_bit 6 codep"
    using assms(1) by (simp add: decode_def Let_def)
  moreover have "unat (take_bit 6 ?b + push_bit 6 codep) = unat (take_bit 6 ?b) + unat (push_bit 6 codep)"
    by (rule unat_add_lem [THEN iffD1]) (use b p assms(2) in simp)
  ultimately show ?thesis by (simp add: b p)
qed

section \<open>Writing characters\<close>

text \<open>What is written for one character.\<close>

definition escape_char :: "string \<Rightarrow> string" where
  "escape_char w = (case w of [c] \<Rightarrow> escape_code (of_nat (of_char c)) c | _ \<Rightarrow> w)"

lemma escape_plain: "0x80 \<le> unat cp \<Longrightarrow> escape_code cp c = [c]"
  by (auto simp: escape_code_def word_le_nat_alt)

lemma utf8_char_cases [consumes 1, case_names one two three four]:
  assumes "utf8_char w"
  obtains a where "w = [a]" "(of_char a :: nat) < 0x80"
  | a b where "w = [a, b]" "utf8_bytes [of_char a, of_char b]"
  | a b c where "w = [a, b, c]" "utf8_bytes [of_char a, of_char b, of_char c]"
  | a b c d where "w = [a, b, c, d]" "utf8_bytes [of_char a, of_char b, of_char c, of_char d]"
proof -
  have "utf8_bytes (map of_char w)" using assms by (simp add: utf8_char_def)
  then show thesis
    using that by (cases "map of_char w :: nat list" rule: utf8_bytes.cases) (auto simp: map_eq_Cons_conv)
qed

lemma dump_mid:
  assumes "utf8_next (esc_state e) (byte_class (of_char c)) = state" and "state \<noteq> UTF8_ACCEPT" and "state \<noteq> UTF8_REJECT"
  shows "dump_bytes (c # cs) e = dump_bytes cs (e\<lparr>esc_state := state,
    esc_codep := snd (decode (esc_state e) (esc_codep e) (of_char c)), esc_buffer := esc_buffer e @ [c]\<rparr>)"
  using assms decode_state [of "esc_state e" "esc_codep e" c]
  by (cases "decode (esc_state e) (esc_codep e) (of_char c)") (simp add: Let_def)

lemma dump_last:
  assumes "utf8_next (esc_state e) (byte_class (of_char c)) = UTF8_ACCEPT"
  shows "dump_bytes (c # cs) e = dump_bytes cs (flush_buffer (e\<lparr>esc_state := UTF8_ACCEPT,
    esc_codep := snd (decode (esc_state e) (esc_codep e) (of_char c)),
    esc_buffer := esc_buffer e @ escape_code (snd (decode (esc_state e) (esc_codep e) (of_char c))) c\<rparr>))"
  using assms decode_state [of "esc_state e" "esc_codep e" c]
  by (cases "decode (esc_state e) (esc_codep e) (of_char c)") (simp add: Let_def)

lemma tail_class: "utf8_tail b \<Longrightarrow> byte_class b = 1 \<or> byte_class b = 9 \<or> byte_class b = 7"
  by (auto simp: utf8_tail_def byte_class_def)

lemma tail_next:
  assumes "utf8_tail b"
  shows "utf8_next 2 (byte_class b) = 0" "utf8_next 3 (byte_class b) = 2" "utf8_next 7 (byte_class b) = 3"
  using tail_class [OF assms] by (auto simp: utf8_next_tail simp del: One_nat_def)

lemma upt_all: "list_all P [a..<b] \<Longrightarrow> a \<le> n \<Longrightarrow> n < b \<Longrightarrow> P n"
  by (simp add: list_all_iff)

lemma low_bits:
  "0x90 \<le> n \<Longrightarrow> n \<le> 0xBF \<Longrightarrow> 16 \<le> n mod (64 :: nat)" "0xC2 \<le> n \<Longrightarrow> n \<le> 0xDF \<Longrightarrow> 2 \<le> n mod (64 :: nat)"
  "0xE1 \<le> n \<Longrightarrow> n \<le> 0xEF \<Longrightarrow> 1 \<le> n mod (32 :: nat)" "0xF1 \<le> n \<Longrightarrow> n \<le> 0xF3 \<Longrightarrow> 1 \<le> n mod (4 :: nat)"
proof -
  have h: "list_all (\<lambda>n. 16 \<le> n mod (64 :: nat)) [0x90..<0xC0]" "list_all (\<lambda>n. 2 \<le> n mod (64 :: nat)) [0xC2..<0xE0]"
    "list_all (\<lambda>n. 1 \<le> n mod (32 :: nat)) [0xE1..<0xF0]" "list_all (\<lambda>n. 1 \<le> n mod (4 :: nat)) [0xF1..<0xF4]"
    by code_simp+
  show "0x90 \<le> n \<Longrightarrow> n \<le> 0xBF \<Longrightarrow> 16 \<le> n mod (64 :: nat)" "0xC2 \<le> n \<Longrightarrow> n \<le> 0xDF \<Longrightarrow> 2 \<le> n mod (64 :: nat)"
    "0xE1 \<le> n \<Longrightarrow> n \<le> 0xEF \<Longrightarrow> 1 \<le> n mod (32 :: nat)" "0xF1 \<le> n \<Longrightarrow> n \<le> 0xF3 \<Longrightarrow> 1 \<le> n mod (4 :: nat)"
    using upt_all [OF h(1), of n] upt_all [OF h(2), of n] upt_all [OF h(3), of n] upt_all [OF h(4), of n] by simp_all
qed

lemma lead_three:
  assumes "utf8_bytes [a, b, c]"
  obtains s1 where "utf8_next 0 (byte_class a) = s1" "s1 \<noteq> UTF8_ACCEPT" "s1 \<noteq> UTF8_REJECT"
    "utf8_next s1 (byte_class b) = 2" "utf8_tail c" "2 \<le> 64 * (a mod 2 ^ (8 - byte_class a)) + b mod 64"
proof -
  consider (E0) "a = 0xE0" "0xA0 \<le> b" "b \<le> 0xBF" | (ED) "a = 0xED" "0x80 \<le> b" "b \<le> 0x9F"
    | (more) "0xE1 \<le> a" "a \<le> 0xEF" "a \<noteq> 0xED" "utf8_tail b"
    using assms by auto
  then show thesis
  proof cases
    case E0
    then have "byte_class a = 10" "byte_class b = 7" by (auto simp: byte_class_def)
    moreover have "16 \<le> b mod 64" using low_bits(1) E0 by simp
    ultimately show thesis using assms by (intro that [of 4]) (simp_all add: utf8_next_lead utf8_next_tail)
  next
    case ED
    then have "byte_class a = 4" "byte_class b = 1 \<or> byte_class b = 9" by (auto simp: byte_class_def)
    then show thesis using assms ED by (intro that [of 5]) (auto simp: utf8_next_lead utf8_next_tail simp del: One_nat_def)
  next
    case more
    then have "byte_class a = 3" by (auto simp: byte_class_def)
    moreover have "1 \<le> a mod 32" using low_bits(3) more by simp
    ultimately show thesis using assms more tail_next by (intro that [of 3]) (simp_all add: utf8_next_lead)
  qed
qed

lemma lead_four:
  assumes "utf8_bytes [a, b, c, d]"
  obtains s1 where "utf8_next 0 (byte_class a) = s1" "s1 \<noteq> UTF8_ACCEPT" "s1 \<noteq> UTF8_REJECT"
    "utf8_next s1 (byte_class b) = 3" "utf8_tail c" "utf8_tail d" "2 \<le> 64 * (a mod 2 ^ (8 - byte_class a)) + b mod 64"
proof -
  consider (F0) "a = 0xF0" "0x90 \<le> b" "b \<le> 0xBF" | (F4) "a = 0xF4" "0x80 \<le> b" "b \<le> 0x8F"
    | (more) "0xF1 \<le> a" "a \<le> 0xF3" "utf8_tail b"
    using assms by auto
  then show thesis
  proof cases
    case F0
    then have "byte_class a = 11" "byte_class b = 7 \<or> byte_class b = 9" by (auto simp: byte_class_def)
    moreover have "16 \<le> b mod 64" using low_bits(1) F0 by simp
    ultimately show thesis using assms by (intro that [of 6]) (auto simp: utf8_next_lead utf8_next_tail)
  next
    case F4
    then have "byte_class a = 5" "byte_class b = 1" by (auto simp: byte_class_def)
    then show thesis using assms F4 by (intro that [of 8]) (simp_all add: utf8_next_lead utf8_next_tail del: One_nat_def)
  next
    case more
    then have "byte_class a = 6" by (auto simp: byte_class_def)
    moreover have "1 \<le> a mod 4" using low_bits(4) more by simp
    ultimately show thesis using assms more tail_next by (intro that [of 7]) (simp_all add: utf8_next_lead)
  qed
qed

lemma dump_char:
  assumes "utf8_char w" and "esc_state e = UTF8_ACCEPT"
  shows "\<exists>cp. dump_bytes (w @ s) e =
    dump_bytes s (flush_buffer (e\<lparr>esc_state := UTF8_ACCEPT, esc_codep := cp, esc_buffer := esc_buffer e @ escape_char w\<rparr>))"
  using assms(1)
proof (cases rule: utf8_char_cases)
  case (one a)
  let ?cp = "snd (decode UTF8_ACCEPT (esc_codep e) (of_char a))"
  have k: "byte_class (of_char a) = 0" using one(2) by (simp add: byte_class_def)
  then have "unat ?cp = of_char a" by (simp add: decode_lead)
  then have "?cp = of_nat (of_char a)" by (metis of_nat_unat ucast_id)
  then show ?thesis
    using dump_last [of e a s] one(1) k assms(2) by (auto simp: utf8_next_lead escape_char_def)
next
  case (two a b)
  have k: "byte_class (of_char a) = 2" "utf8_tail (of_char b)" using two(2) by (auto simp: byte_class_def)
  let ?c1 = "snd (decode UTF8_ACCEPT (esc_codep e) (of_char a))"
  let ?c2 = "snd (decode 2 ?c1 (of_char b))"
  have c1: "unat ?c1 = of_char a mod 64" using k by (simp add: decode_lead)
  then have "unat ?c2 = 64 * (of_char a mod 64) + of_char b mod 64" by (subst decode_tail) simp_all
  moreover have "2 \<le> (of_char a :: nat) mod 64" using two(2) low_bits(2) by simp
  ultimately have "0x80 \<le> unat ?c2" by simp
  then show ?thesis
    using dump_mid [of e a 2 "b # s"] dump_last [of "e\<lparr>esc_state := 2, esc_codep := ?c1, esc_buffer := esc_buffer e @ [a]\<rparr>" b s]
      two(1) k tail_next [OF k(2)] assms(2)
    by (auto simp: utf8_next_lead escape_char_def escape_plain)
next
  case (three a b c)
  obtain s1 where k: "utf8_next 0 (byte_class (of_char a)) = s1" "s1 \<noteq> UTF8_ACCEPT" "s1 \<noteq> UTF8_REJECT"
    "utf8_next s1 (byte_class (of_char b)) = 2" "utf8_tail (of_char c)"
    and v: "2 \<le> 64 * ((of_char a :: nat) mod 2 ^ (8 - byte_class (of_char a))) + of_char b mod 64"
    using three(2) lead_three by blast
  let ?c1 = "snd (decode UTF8_ACCEPT (esc_codep e) (of_char a))"
  let ?c2 = "snd (decode s1 ?c1 (of_char b))"
  let ?c3 = "snd (decode 2 ?c2 (of_char c))"
  have c1: "unat ?c1 = of_char a mod 2 ^ (8 - byte_class (of_char a))" "unat ?c1 < 2 ^ 8"
    using le_less_trans [OF mod_less_eq_dividend nat_of_char_less_256 [of a]] by (simp_all add: decode_lead)
  then have c2: "unat ?c2 = 64 * unat ?c1 + of_char b mod 64" using k by (subst decode_tail) simp_all
  then have "unat ?c3 = 64 * unat ?c2 + of_char c mod 64" using c1 by (subst decode_tail) simp_all
  then have "0x80 \<le> unat ?c3" using v c1 c2 by simp
  then show ?thesis
    using dump_mid [of e a s1 "b # c # s"]
      dump_mid [of "e\<lparr>esc_state := s1, esc_codep := ?c1, esc_buffer := esc_buffer e @ [a]\<rparr>" b 2 "c # s"]
      dump_last [of "e\<lparr>esc_state := 2, esc_codep := ?c2, esc_buffer := esc_buffer e @ [a, b]\<rparr>" c s]
      three(1) k tail_next [OF k(5)] assms(2)
    by (auto simp: escape_char_def escape_plain)
next
  case (four a b c d)
  obtain s1 where k: "utf8_next 0 (byte_class (of_char a)) = s1" "s1 \<noteq> UTF8_ACCEPT" "s1 \<noteq> UTF8_REJECT"
    "utf8_next s1 (byte_class (of_char b)) = 3" "utf8_tail (of_char c)" "utf8_tail (of_char d)"
    and v: "2 \<le> 64 * ((of_char a :: nat) mod 2 ^ (8 - byte_class (of_char a))) + of_char b mod 64"
    using four(2) lead_four by blast
  let ?c1 = "snd (decode UTF8_ACCEPT (esc_codep e) (of_char a))"
  let ?c2 = "snd (decode s1 ?c1 (of_char b))"
  let ?c3 = "snd (decode 3 ?c2 (of_char c))"
  let ?c4 = "snd (decode 2 ?c3 (of_char d))"
  have c1: "unat ?c1 = of_char a mod 2 ^ (8 - byte_class (of_char a))" "unat ?c1 < 8"
    using four(2) by (auto simp: decode_lead byte_class_def)
  then have c2: "unat ?c2 = 64 * unat ?c1 + of_char b mod 64" using k by (subst decode_tail) simp_all
  then have c3: "unat ?c3 = 64 * unat ?c2 + of_char c mod 64" using c1 by (subst decode_tail) simp_all
  moreover have "(of_char b :: nat) mod 64 < 64" "(of_char c :: nat) mod 64 < 64" by simp_all
  ultimately have "unat ?c3 < 1048576" using c1(2) c2 by linarith
  then have "unat ?c4 = 64 * unat ?c3 + of_char d mod 64" by (intro decode_tail) simp_all
  then have "0x80 \<le> unat ?c4" using v c1 c2 c3 by simp
  then show ?thesis
    using dump_mid [of e a s1 "b # c # d # s"]
      dump_mid [of "e\<lparr>esc_state := s1, esc_codep := ?c1, esc_buffer := esc_buffer e @ [a]\<rparr>" b 3 "c # d # s"]
      dump_mid [of "e\<lparr>esc_state := 3, esc_codep := ?c2, esc_buffer := esc_buffer e @ [a, b]\<rparr>" c 2 "d # s"]
      dump_last [of "e\<lparr>esc_state := 2, esc_codep := ?c3, esc_buffer := esc_buffer e @ [a, b, c]\<rparr>" d s]
      four(1) k tail_next [OF k(5)] tail_next [OF k(6)] assms(2)
    by (auto simp: escape_char_def escape_plain)
qed

lemma flush_sel [simp]:
  "esc_state (flush_buffer e) = esc_state e" "esc_written (flush_buffer e) @ esc_buffer (flush_buffer e) = esc_written e @ esc_buffer e"
  by (simp_all add: flush_buffer_def)

lemma dump_chars:
  assumes "list_all utf8_char ws" and "esc_state e = UTF8_ACCEPT"
  shows "\<exists>e'. dump_bytes (concat ws) e = Inr e' \<and> esc_state e' = UTF8_ACCEPT \<and>
    esc_written e' @ esc_buffer e' = esc_written e @ esc_buffer e @ concat (map escape_char ws)"
  using assms
proof (induction ws arbitrary: e)
  case Nil
  then show ?case by simp
next
  case (Cons w ws)
  then obtain cp where s: "dump_bytes (w @ concat ws) e =
      dump_bytes (concat ws) (flush_buffer (e\<lparr>esc_state := UTF8_ACCEPT, esc_codep := cp, esc_buffer := esc_buffer e @ escape_char w\<rparr>))"
    (is "_ = dump_bytes _ ?e1") using dump_char [of w e "concat ws"] by auto
  have "esc_written ?e1 @ esc_buffer ?e1 = esc_written e @ esc_buffer e @ escape_char w" by (subst flush_sel) simp
  with Cons.IH [of ?e1] Cons.prems show ?case by (auto simp: s)
qed

lemma utf8_chars: "utf8 s \<Longrightarrow> \<exists>ws. list_all utf8_char ws \<and> s = concat ws"
proof (induction rule: utf8.induct)
  case utf8_Nil
  show ?case by (rule exI [of _ "[]"]) simp
next
  case (utf8_more w s)
  then obtain ws where "list_all utf8_char ws" "s = concat ws" by blast
  with utf8_more.hyps(1) show ?case by (intro exI [of _ "w # ws"]) simp
qed

lemma dump_escaped_chars:
  assumes "list_all utf8_char ws"
  shows "dump_escaped (concat ws) = Inr (concat (map escape_char ws))"
  using dump_chars [OF assms, of "\<lparr>esc_written = [], esc_buffer = [], esc_state = UTF8_ACCEPT, esc_codep = 0\<rparr>"]
  by (auto simp: dump_escaped_def)

text \<open>A byte that occurs in no character stops the serializer wherever it stands.\<close>

lemma dump_bad_byte:
  assumes "byte_class (of_char c) = 8" and "c \<in> set s" and "esc_state e \<le> 8"
  shows "dump_bytes s e = Inl JsonError"
  using assms(2,3)
proof (induction s arbitrary: e)
  case Nil
  then show ?case by simp
next
  case (Cons x s)
  obtain state cp where d: "decode (esc_state e) (esc_codep e) (of_char x) = (state, cp)" by fastforce
  then have st: "state = utf8_next (esc_state e) (byte_class (of_char x))" using decode_state [of "esc_state e" "esc_codep e" x] by simp
  show ?case
  proof (cases "x = c")
    case True
    then have "state = UTF8_REJECT" using st assms(1) utf8_states [of "esc_state e" 8] Cons.prems by simp
    then show ?thesis by (simp add: d)
  next
    case False
    then have "c \<in> set s" using Cons.prems by simp
    moreover have "state \<le> 8" using st utf8_states [OF Cons.prems(2) byte_class_le] by simp
    ultimately show ?thesis using Cons.IH by (simp add: d Let_def)
  qed
qed

lemma dump_escaped_bad: "byte_class (of_char c) = 8 \<Longrightarrow> c \<in> set s \<Longrightarrow> dump_escaped s = Inl JsonError"
  by (simp add: dump_escaped_def dump_bad_byte)

section \<open>Writing numbers\<close>

lemma dump_digits_to_string: "dump_digits n out = to_string n @ out"
proof (induction n arbitrary: out rule: less_induct)
  case (less n)
  consider "n < 10" | "10 \<le> n" "n < 100" | "100 \<le> n" by linarith
  then show ?case
  proof cases
    case 1
    then show ?thesis by (simp add: dump_digits.simps [of n] to_string.simps [of n])
  next
    case 2
    then show ?thesis
      by (simp add: dump_digits.simps [of n] to_string.simps [of n] to_string.simps [of "n div 10"] digits_to_99_def)
  next
    case 3
    then have "to_string n = to_string (n div 100) @ digits_to_99 (n mod 100)"
    proof -
      have "\<not> n div 10 < 10" using 3 by linarith
      moreover have m: "n mod 100 = 10 * (n div 10 mod 10) + n mod 10" using mod_mult2_eq [of n 10 10] by simp
      have "n div 10 mod 10 = n mod 100 div 10" "n mod 100 mod 10 = n mod 10" unfolding m by simp_all
      ultimately show ?thesis
        using to_string.simps [of n] to_string.simps [of "n div 10"] by (simp add: digits_to_99_def div_mult2_eq [symmetric])
    qed
    then show ?thesis using less.IH [of "n div 100"] 3 by (simp add: dump_digits.simps [of n])
  qed
qed

lemma dump_integer_text:
  "dump_integer x = (if x < 0 then CHR ''-'' # to_string (nat (- x)) else to_string (nat x))"
proof -
  have "to_string 0 = ''0''" by (simp add: to_string.simps digit_char_def char_of_def bit_0)
  moreover have "x < 0 \<Longrightarrow> nat (- (x + 1)) + 1 = nat (- x)" by simp
  ultimately show ?thesis by (auto simp: dump_integer_def dump_digits_to_string)
qed

section \<open>What stops a value from being written\<close>

lemma dump_bytes_error: "dump_bytes s e = Inl er \<Longrightarrow> er = JsonError"
  by (induction s e rule: dump_bytes.induct) (auto simp: Let_def split: prod.splits if_splits)

lemma dump_escaped_error: "dump_escaped s = Inl er \<Longrightarrow> er = JsonError"
  by (auto simp: dump_escaped_def throwing_def split: sum.splits if_splits dest: dump_bytes_error)

text \<open>A string with such a byte anywhere in a list of strings.\<close>

lemma dump_strings_bad:
  assumes "byte_class (of_char c) = 8" and "c \<in> set s" and "s \<in> set xs"
  shows "dump_elements ft (map JStr xs) = Inl JsonError"
  using assms(3)
proof (induction xs)
  case Nil
  then show ?case by simp
next
  case (Cons x xs)
  show ?case
  proof (cases "x = s")
    case True
    then show ?thesis using dump_escaped_bad [OF assms(1,2)] by simp
  next
    case False
    then have "s \<in> set xs" "xs \<noteq> []" using Cons.prems by auto
    then have "dump_elements ft (map JStr xs) = Inl JsonError" using Cons.IH by blast
    then show ?thesis using \<open>xs \<noteq> []\<close> by (cases "dump_escaped x") (auto dest: dump_escaped_error)
  qed
qed

end
