(* ===== verification/Json_Parse.thy ===== *)
theory Json_Parse
  imports Json_Dump
begin

text \<open>
  \<open>3rd/json.hpp\<close>, the lexer and the parser as \<open>json::parse(ifs, nullptr, true, true)\<close> runs them: errors are thrown and comments are
  skipped. The input is the text that is left; \<open>unget\<close> leaves the character in it, and the end of the file is the empty text. An error of the
  lexer is \<^term>\<open>None\<close> or the token \<open>Bad\<close>; the parser throws at once when it sees one, so the messages are left out. \<open>strtod\<close> is an
  argument: \<^term>\<open>None\<close> for an infinite result, otherwise the integer part, which is what the proxy reads of a float.
\<close>

section \<open>Strings\<close>

definition hex_value :: "char \<Rightarrow> nat option" where
  "hex_value c =
     (let n = of_char c in
      if 0x30 \<le> n \<and> n \<le> 0x39 then Some (n - 0x30)
      else if 0x41 \<le> n \<and> n \<le> 0x46 then Some (n - 0x37)
      else if 0x61 \<le> n \<and> n \<le> 0x66 then Some (n - 0x57)
      else None)"

fun codepoint_loop :: "nat list \<Rightarrow> nat \<Rightarrow> string \<Rightarrow> (nat \<times> string) option" where
  "codepoint_loop [] codepoint s = Some (codepoint, s)"
| "codepoint_loop (factor # fs) codepoint [] = None"
| "codepoint_loop (factor # fs) codepoint (c # cs) =
     (case hex_value c of None \<Rightarrow> None | Some v \<Rightarrow> codepoint_loop fs (codepoint + push_bit factor v) cs)"

definition get_codepoint :: "string \<Rightarrow> (nat \<times> string) option" where
  "get_codepoint s = codepoint_loop [12, 8, 4, 0] 0 s"

text \<open>The code point after \<open>\\u\<close>, a surrogate pair included.\<close>

definition unicode_escape :: "string \<Rightarrow> (nat \<times> string) option" where
  "unicode_escape s =
     (case get_codepoint s of
        None \<Rightarrow> None
      | Some (codepoint1, s1) \<Rightarrow>
          (if 0xD800 \<le> codepoint1 \<and> codepoint1 \<le> 0xDBFF then
             (if take 2 s1 = [CHR 0x5C, CHR ''u''] then
                (case get_codepoint (drop 2 s1) of
                   None \<Rightarrow> None
                 | Some (codepoint2, s2) \<Rightarrow>
                     (if 0xDC00 \<le> codepoint2 \<and> codepoint2 \<le> 0xDFFF
                      then Some (push_bit 10 codepoint1 + codepoint2 - 0x35FDC00, s2) else None))
              else None)
           else if 0xDC00 \<le> codepoint1 \<and> codepoint1 \<le> 0xDFFF then None
           else Some (codepoint1, s1)))"

definition encode_codepoint :: "nat \<Rightarrow> string" where
  "encode_codepoint codepoint =
     (if codepoint < 0x80 then [char_of codepoint]
      else if codepoint \<le> 0x7FF then
        [char_of (0xC0 OR drop_bit 6 codepoint), char_of (0x80 OR (codepoint AND 0x3F))]
      else if codepoint \<le> 0xFFFF then
        [char_of (0xE0 OR drop_bit 12 codepoint), char_of (0x80 OR (drop_bit 6 codepoint AND 0x3F)), char_of (0x80 OR (codepoint AND 0x3F))]
      else
        [char_of (0xF0 OR drop_bit 18 codepoint), char_of (0x80 OR (drop_bit 12 codepoint AND 0x3F)),
         char_of (0x80 OR (drop_bit 6 codepoint AND 0x3F)), char_of (0x80 OR (codepoint AND 0x3F))])"

text \<open>After a backslash.\<close>

definition scan_escape :: "string \<Rightarrow> (string \<times> string) option" where
  "scan_escape s =
     (case s of
        [] \<Rightarrow> None
      | c # cs \<Rightarrow>
          (if c = CHR 0x22 then Some ([CHR 0x22], cs)
           else if c = CHR 0x5C then Some ([CHR 0x5C], cs)
           else if c = CHR ''/'' then Some (''/'', cs)
           else if c = CHR ''b'' then Some ([CHR 0x08], cs)
           else if c = CHR ''f'' then Some ([CHR 0x0C], cs)
           else if c = CHR ''n'' then Some ([CHR 0x0A], cs)
           else if c = CHR ''r'' then Some ([CHR 0x0D], cs)
           else if c = CHR ''t'' then Some ([CHR 0x09], cs)
           else if c = CHR ''u'' then map_option (\<lambda>(codepoint, rest). (encode_codepoint codepoint, rest)) (unicode_escape cs)
           else None))"

fun next_byte_in_range :: "(nat \<times> nat) list \<Rightarrow> string \<Rightarrow> (string \<times> string) option" where
  "next_byte_in_range [] s = Some ([], s)"
| "next_byte_in_range (r # rs) [] = None"
| "next_byte_in_range (r # rs) (c # cs) =
     (if fst r \<le> of_char c \<and> of_char c \<le> snd r
      then map_option (\<lambda>(w, s). (c # w, s)) (next_byte_in_range rs cs) else None)"

definition utf8_ranges :: "nat \<Rightarrow> (nat \<times> nat) list option" where
  "utf8_ranges n =
     (if 0xC2 \<le> n \<and> n \<le> 0xDF then Some [(0x80, 0xBF)]
      else if n = 0xE0 then Some [(0xA0, 0xBF), (0x80, 0xBF)]
      else if 0xE1 \<le> n \<and> n \<le> 0xEC \<or> n = 0xEE \<or> n = 0xEF then Some [(0x80, 0xBF), (0x80, 0xBF)]
      else if n = 0xED then Some [(0x80, 0x9F), (0x80, 0xBF)]
      else if n = 0xF0 then Some [(0x90, 0xBF), (0x80, 0xBF), (0x80, 0xBF)]
      else if 0xF1 \<le> n \<and> n \<le> 0xF3 then Some [(0x80, 0xBF), (0x80, 0xBF), (0x80, 0xBF)]
      else if n = 0xF4 then Some [(0x80, 0x8F), (0x80, 0xBF), (0x80, 0xBF)]
      else None)"

text \<open>No step of the scanner gives back more than it was given.\<close>

lemma codepoint_loop_shorter: "codepoint_loop fs n s = Some (m, r) \<Longrightarrow> length r \<le> length s"
  by (induction fs n s rule: codepoint_loop.induct) (auto split: option.splits)

lemma unicode_escape_shorter: "unicode_escape s = Some (m, r) \<Longrightarrow> length r \<le> length s"
  by (auto simp: unicode_escape_def get_codepoint_def split: option.splits if_splits dest!: codepoint_loop_shorter)

lemma scan_escape_shorter: "scan_escape s = Some (w, r) \<Longrightarrow> length r < length s"
  by (auto simp: scan_escape_def split: list.splits if_splits dest!: unicode_escape_shorter)

lemma next_byte_shorter: "next_byte_in_range rs s = Some (w, r) \<Longrightarrow> length r \<le> length s"
  by (induction rs s arbitrary: w rule: next_byte_in_range.induct) (auto split: if_splits)

function scan_string :: "string \<Rightarrow> string \<Rightarrow> (string \<times> string) option" where
  "scan_string token_buffer [] = None"
| "scan_string token_buffer (c # cs) =
     (if c = CHR 0x22 then Some (token_buffer, cs)
      else if c = CHR 0x5C then
        (case scan_escape cs of None \<Rightarrow> None | Some (w, s) \<Rightarrow> scan_string (token_buffer @ w) s)
      else if (of_char c :: nat) < 0x20 then None
      else if (of_char c :: nat) < 0x80 then scan_string (token_buffer @ [c]) cs
      else
        (case utf8_ranges (of_char c) of
           None \<Rightarrow> None
         | Some rs \<Rightarrow>
             (case next_byte_in_range rs cs of None \<Rightarrow> None | Some (w, s) \<Rightarrow> scan_string (token_buffer @ c # w) s)))"
  by pat_completeness auto
termination
  by (relation "measure (\<lambda>(b, s). length s)") (auto dest!: scan_escape_shorter next_byte_shorter)

lemma scan_string_shorter: "scan_string b s = Some (w, r) \<Longrightarrow> length r < length s"
proof (induction b s rule: scan_string.induct)
  case (1 b)
  then show ?case by simp
next
  case (2 b c cs)
  show ?case
  proof (cases "c = CHR 0x22 \<or> (of_char c :: nat) < 0x20")
    case True
    with "2.prems" show ?thesis by (auto split: if_splits)
  next
    case a: False
    show ?thesis
    proof (cases "c = CHR 0x5C")
      case True
      with "2.prems" obtain v s where e: "scan_escape cs = Some (v, s)" "scan_string (b @ v) s = Some (w, r)"
        by (auto split: option.splits)
      have "length r < length s" by (rule "2.IH"(1)) (use a True e in auto)
      with scan_escape_shorter [OF e(1)] show ?thesis by simp
    next
      case q: False
      show ?thesis
      proof (cases "(of_char c :: nat) < 0x80")
        case True
        have "length r < length cs" by (rule "2.IH"(2)) (use a q True "2.prems" in auto)
        then show ?thesis by simp
      next
        case False
        with a q "2.prems" obtain rs v s where e: "utf8_ranges (of_char c) = Some rs" "next_byte_in_range rs cs = Some (v, s)"
            "scan_string (b @ c # v) s = Some (w, r)"
          by (auto split: option.splits)
        have "length r < length s" by (rule "2.IH"(3)) (use a q False e in auto)
        with next_byte_shorter [OF e(2)] show ?thesis by simp
      qed
    qed
  qed
qed

section \<open>Numbers\<close>

text \<open>The states of the scanner: what has just been read. The type of the number is settled on the way.\<close>

datatype number_state = Minus | Zero | Any1 | Decimal1 | Decimal2 | Exponent | Sign | Any2

datatype number_type = Unsigned_Number | Integer_Number | Float_Number

datatype number_action = Go number_state | Done | Refuse

definition to_exponent :: "char \<Rightarrow> bool" where
  "to_exponent c \<longleftrightarrow> c = CHR ''e'' \<or> c = CHR ''E''"

fun number_move :: "number_state \<Rightarrow> char \<Rightarrow> number_action" where
  "number_move Minus c = (if c = CHR ''0'' then Go Zero else if c_isdigit c then Go Any1 else Refuse)"
| "number_move Zero c = (if c = CHR ''.'' then Go Decimal1 else if to_exponent c then Go Exponent else Done)"
| "number_move Any1 c =
     (if c_isdigit c then Go Any1 else if c = CHR ''.'' then Go Decimal1 else if to_exponent c then Go Exponent else Done)"
| "number_move Decimal1 c = (if c_isdigit c then Go Decimal2 else Refuse)"
| "number_move Decimal2 c = (if c_isdigit c then Go Decimal2 else if to_exponent c then Go Exponent else Done)"
| "number_move Exponent c = (if c = CHR ''+'' \<or> c = CHR ''-'' then Go Sign else if c_isdigit c then Go Any2 else Refuse)"
| "number_move Sign c = (if c_isdigit c then Go Any2 else Refuse)"
| "number_move Any2 c = (if c_isdigit c then Go Any2 else Done)"

text \<open>The end of the file is read like a character that none of the states mentions.\<close>

definition number_at :: "number_state \<Rightarrow> string \<Rightarrow> number_action" where
  "number_at st s = (case s of [] \<Rightarrow> number_move st (CHR 0x00) | c # cs \<Rightarrow> number_move st c)"

definition settle_type :: "number_state \<Rightarrow> number_type \<Rightarrow> number_type" where
  "settle_type st ty = (if st = Minus then Integer_Number else if st = Decimal1 \<or> st = Exponent then Float_Number else ty)"

fun number_loop :: "number_state \<Rightarrow> number_type \<Rightarrow> string \<Rightarrow> string \<Rightarrow> (number_type \<times> string \<times> string) option" where
  "number_loop st ty token_buffer [] =
     (if number_at st [] = Done then Some (settle_type st ty, token_buffer, []) else None)"
| "number_loop st ty token_buffer (c # cs) =
     (case number_move st c of
        Go st' \<Rightarrow> number_loop st' (settle_type st ty) (token_buffer @ [c]) cs
      | Done \<Rightarrow> Some (settle_type st ty, token_buffer, c # cs)
      | Refuse \<Rightarrow> None)"

lemma number_loop_shorter: "number_loop st ty b s = Some (ty', b', r) \<Longrightarrow> length r \<le> length s"
  by (induction st ty b s rule: number_loop.induct) (auto split: number_action.splits if_splits)

section \<open>Tokens\<close>

datatype token =
    LiteralTrue | LiteralFalse | LiteralNull
  | ValueString string
  | ValueUnsigned nat
  | ValueInteger int
  | ValueFloat "int option"
  | BeginArray | BeginObject | EndArray | EndObject | NameSeparator | ValueSeparator
  | Bad | EndOfInput

text \<open>\<open>strtoull\<close> and \<open>strtoll\<close> fail out of range; the number is then read again as a float.\<close>

definition number_token :: "(string \<Rightarrow> int option) \<Rightarrow> number_type \<Rightarrow> string \<Rightarrow> token" where
  "number_token strtod ty token_buffer =
     (if ty = Unsigned_Number \<and> nat_of_digits token_buffer < 2 ^ 64 then ValueUnsigned (nat_of_digits token_buffer)
      else if ty = Integer_Number \<and> nat_of_digits (tl token_buffer) \<le> 2 ^ 63 then ValueInteger (- int (nat_of_digits (tl token_buffer)))
      else ValueFloat (strtod token_buffer))"

definition scan_number :: "(string \<Rightarrow> int option) \<Rightarrow> char \<Rightarrow> string \<Rightarrow> token \<times> string" where
  "scan_number strtod current s =
     (let st = (if current = CHR ''-'' then Minus else if current = CHR ''0'' then Zero else Any1) in
      case number_loop st Unsigned_Number [current] s of
        None \<Rightarrow> (Bad, s)
      | Some (ty, token_buffer, r) \<Rightarrow> (number_token strtod ty token_buffer, r))"

definition scan_literal :: "string \<Rightarrow> token \<Rightarrow> string \<Rightarrow> token \<times> string" where
  "scan_literal literal_rest return_type s =
     (if prefix literal_rest s then (return_type, drop (length literal_rest) s) else (Bad, s))"

definition json_space :: "char \<Rightarrow> bool" where
  "json_space c \<longleftrightarrow> c = CHR '' '' \<or> c = TAB \<or> c = LF \<or> c = CR"

fun line_comment :: "string \<Rightarrow> string" where
  "line_comment [] = []"
| "line_comment (c # cs) = (if c = LF \<or> c = CR \<or> c = CHR 0x00 then cs else line_comment cs)"

fun block_comment :: "string \<Rightarrow> string option" where
  "block_comment [] = None"
| "block_comment (c # cs) =
     (if c = CHR 0x00 then None
      else if c = CHR ''*'' \<and> take 1 cs = ''/'' then Some (tl cs)
      else block_comment cs)"

text \<open>After a slash.\<close>

definition scan_comment :: "string \<Rightarrow> string option" where
  "scan_comment s =
     (case s of
        [] \<Rightarrow> None
      | c # cs \<Rightarrow> (if c = CHR ''/'' then Some (line_comment cs) else if c = CHR ''*'' then block_comment cs else None))"

lemma line_comment_shorter: "length (line_comment s) \<le> length s"
  by (induction s) auto

lemma block_comment_shorter: "block_comment s = Some r \<Longrightarrow> length r \<le> length s"
  by (induction s rule: block_comment.induct) (auto split: if_splits)

lemma scan_comment_shorter: "scan_comment s = Some r \<Longrightarrow> length r \<le> length s"
  using line_comment_shorter
  by (auto simp: scan_comment_def split: list.splits if_splits dest!: block_comment_shorter intro: le_SucI)

text \<open>The white space and the comments before a token.\<close>

function skip_blank :: "bool \<Rightarrow> string \<Rightarrow> string option" where
  "skip_blank ignore_comments s =
     (case dropWhile json_space s of
        [] \<Rightarrow> Some []
      | c # cs \<Rightarrow>
          (if ignore_comments \<and> c = CHR ''/'' then
             (case scan_comment cs of None \<Rightarrow> None | Some r \<Rightarrow> skip_blank ignore_comments r)
           else Some (c # cs)))"
  by pat_completeness auto
termination
proof (relation "measure (\<lambda>(ic, s). length s)", goal_cases)
  case (2 ic s c cs r)
  have "length (dropWhile json_space s) \<le> length s" by (rule length_dropWhile_le)
  then show ?case using 2 scan_comment_shorter [of cs r] by simp
qed simp

declare skip_blank.simps [simp del]

lemma skip_blank_shorter: "skip_blank ic s = Some r \<Longrightarrow> length r \<le> length s"
proof (induction ic s rule: skip_blank.induct)
  case (1 ic s)
  have d: "length (dropWhile json_space s) \<le> length s" by (rule length_dropWhile_le)
  show ?case
  proof (cases "dropWhile json_space s")
    case Nil
    with 1(2) show ?thesis by (simp add: skip_blank.simps [of _ s])
  next
    case (Cons c cs)
    show ?thesis
    proof (cases "ic \<and> c = CHR ''/''")
      case True
      with 1(2) Cons obtain m where m: "scan_comment cs = Some m" "skip_blank ic m = Some r"
        by (auto simp: skip_blank.simps [of _ s] split: option.splits)
      from 1(1) [OF Cons True m(1) m(2)] have "length r \<le> length m" .
      with scan_comment_shorter [OF m(1)] Cons d show ?thesis by simp
    next
      case False
      with 1(2) Cons d show ?thesis by (auto simp: skip_blank.simps [of _ s])
    qed
  qed
qed

text \<open>\<open>lexer::scan\<close> after the byte order mark.\<close>

definition scan :: "(string \<Rightarrow> int option) \<Rightarrow> bool \<Rightarrow> string \<Rightarrow> token \<times> string" where
  "scan strtod ignore_comments s0 =
     (case skip_blank ignore_comments s0 of
        None \<Rightarrow> (Bad, [])
      | Some [] \<Rightarrow> (EndOfInput, [])
      | Some (c # s) \<Rightarrow>
          (if c = CHR ''['' then (BeginArray, s)
           else if c = CHR '']'' then (EndArray, s)
           else if c = CHR ''{'' then (BeginObject, s)
           else if c = CHR ''}'' then (EndObject, s)
           else if c = CHR '':'' then (NameSeparator, s)
           else if c = CHR '','' then (ValueSeparator, s)
           else if c = CHR ''t'' then scan_literal ''rue'' LiteralTrue s
           else if c = CHR ''f'' then scan_literal ''alse'' LiteralFalse s
           else if c = CHR ''n'' then scan_literal ''ull'' LiteralNull s
           else if c = CHR 0x22 then
             (case scan_string [] s of None \<Rightarrow> (Bad, s) | Some (v, r) \<Rightarrow> (ValueString v, r))
           else if c = CHR ''-'' \<or> c_isdigit c then scan_number strtod c s
           else if c = CHR 0x00 then (EndOfInput, s)
           else (Bad, s)))"

text \<open>The byte order mark that may come first.\<close>

definition skip_bom :: "string \<Rightarrow> string option" where
  "skip_bom s =
     (if take 1 s = [CHR 0xEF] then (if take 3 s = [CHR 0xEF, CHR 0xBB, CHR 0xBF] then Some (drop 3 s) else None) else Some s)"

text \<open>A token that is not the end consumes something.\<close>

lemma scan_shorter:
  assumes "scan strtod ic s = (t, r)"
  shows "length r \<le> length s" "t \<noteq> EndOfInput \<Longrightarrow> t \<noteq> Bad \<Longrightarrow> length r < length s"
proof -
  have "length r \<le> length s \<and> (t \<noteq> EndOfInput \<longrightarrow> t \<noteq> Bad \<longrightarrow> length r < length s)"
  proof (cases "skip_blank ic s")
    case None
    with assms show ?thesis by (auto simp: scan_def)
  next
    case (Some q)
    note l = skip_blank_shorter [OF Some]
    show ?thesis
    proof (cases q)
      case Nil
      with assms Some show ?thesis by (auto simp: scan_def)
    next
      case (Cons c cs)
      have lit: "scan_literal lr u cs = (t, r) \<Longrightarrow> length r \<le> length cs" for lr u
        by (auto simp: scan_literal_def split: if_splits)
      have num: "scan_number strtod c cs = (t, r) \<Longrightarrow> length r \<le> length cs"
        using number_loop_shorter by (auto simp: scan_number_def Let_def split: option.splits)
      have str: "(case scan_string [] cs of None \<Rightarrow> (Bad, cs) | Some (v, r) \<Rightarrow> (ValueString v, r)) = (t, r) \<Longrightarrow> length r \<le> length cs"
        by (auto split: option.splits dest: scan_string_shorter)
      have "length r \<le> length cs"
        using assms Some lit num str unfolding Cons by (simp only: scan_def option.case list.case split: if_splits) auto
      with l Cons show ?thesis by simp
    qed
  qed
  then show "length r \<le> length s" "t \<noteq> EndOfInput \<Longrightarrow> t \<noteq> Bad \<Longrightarrow> length r < length s" by auto
qed

lemma scan_consumes:
  "(t, r) = scan strtod ic s \<Longrightarrow> length r \<le> length s \<and> (t \<noteq> EndOfInput \<longrightarrow> t \<noteq> Bad \<longrightarrow> length r < length s)"
  using scan_shorter [of strtod ic s t r] by auto

section \<open>The parser\<close>

text \<open>A JSON object of the library is a \<open>std::map\<close>: its members are sorted by key, as bytes.\<close>

fun key_less :: "string \<Rightarrow> string \<Rightarrow> bool" where
  "key_less [] [] = False"
| "key_less [] (c # cs) = True"
| "key_less (b # bs) [] = False"
| "key_less (b # bs) (c # cs) =
     ((of_char b :: nat) < of_char c \<or> b = c \<and> key_less bs cs)"

fun object_put :: "string \<Rightarrow> json \<Rightarrow> (string \<times> json) list \<Rightarrow> (string \<times> json) list" where
  "object_put k v [] = [(k, v)]"
| "object_put k v ((k', v') # ms) =
     (if k = k' then (k, v) # ms else if key_less k k' then (k, v) # (k', v') # ms else (k', v') # object_put k v ms)"

text \<open>The arrays and objects being read, innermost first: the stack \<open>states\<close> of the parser with what the references of the
  DOM builder point to; an object has the key of the member being read.\<close>

datatype frame = InArray "json list" | InObject "(string \<times> json) list" string

text \<open>The loop of \<open>sax_parse_internal\<close>: \<open>parse_value\<close> is the switch on the last token, \<open>after_value\<close> the evaluation of the state once a
  value is complete.\<close>

function (sequential) parse_value ::
    "(string \<Rightarrow> int option) \<Rightarrow> bool \<Rightarrow> token \<Rightarrow> string \<Rightarrow> frame list \<Rightarrow> cxx_error + json \<times> string"
  and after_value :: "(string \<Rightarrow> int option) \<Rightarrow> bool \<Rightarrow> json \<Rightarrow> string \<Rightarrow> frame list \<Rightarrow> cxx_error + json \<times> string"
where
  "parse_value sd ic BeginObject s st =
     (case scan sd ic s of
        (EndObject, s1) \<Rightarrow> after_value sd ic (JObj []) s1 st
      | (ValueString k, s1) \<Rightarrow>
          (case scan sd ic s1 of
             (NameSeparator, s2) \<Rightarrow> (case scan sd ic s2 of (t, s3) \<Rightarrow> parse_value sd ic t s3 (InObject [] k # st))
           | _ \<Rightarrow> Inl JsonError)
      | _ \<Rightarrow> Inl JsonError)"
| "parse_value sd ic BeginArray s st =
     (case scan sd ic s of
        (EndArray, s1) \<Rightarrow> after_value sd ic (JArr []) s1 st
      | (t, s1) \<Rightarrow> parse_value sd ic t s1 (InArray [] # st))"
| "parse_value sd ic (ValueFloat r) s st =
     (case r of None \<Rightarrow> Inl OutOfRange | Some i \<Rightarrow> after_value sd ic (JFloat i) s st)"
| "parse_value sd ic LiteralFalse s st = after_value sd ic (JBool False) s st"
| "parse_value sd ic LiteralNull s st = after_value sd ic JNull s st"
| "parse_value sd ic LiteralTrue s st = after_value sd ic (JBool True) s st"
| "parse_value sd ic (ValueInteger i) s st = after_value sd ic (JInt i) s st"
| "parse_value sd ic (ValueString v) s st = after_value sd ic (JStr v) s st"
| "parse_value sd ic (ValueUnsigned n) s st = after_value sd ic (JInt (int n)) s st"
| "parse_value sd ic _ s st = Inl JsonError"
| "after_value sd ic v s [] = Inr (v, s)"
| "after_value sd ic v s (InArray xs # st) =
     (case scan sd ic s of
        (ValueSeparator, s1) \<Rightarrow> (case scan sd ic s1 of (t, s2) \<Rightarrow> parse_value sd ic t s2 (InArray (xs @ [v]) # st))
      | (EndArray, s1) \<Rightarrow> after_value sd ic (JArr (xs @ [v])) s1 st
      | _ \<Rightarrow> Inl JsonError)"
| "after_value sd ic v s (InObject ms k # st) =
     (case scan sd ic s of
        (ValueSeparator, s1) \<Rightarrow>
          (case scan sd ic s1 of
             (ValueString k', s2) \<Rightarrow>
               (case scan sd ic s2 of
                  (NameSeparator, s3) \<Rightarrow> (case scan sd ic s3 of (t, s4) \<Rightarrow> parse_value sd ic t s4 (InObject (object_put k v ms) k' # st))
                | _ \<Rightarrow> Inl JsonError)
           | _ \<Rightarrow> Inl JsonError)
      | (EndObject, s1) \<Rightarrow> after_value sd ic (JObj (object_put k v ms)) s1 st
      | _ \<Rightarrow> Inl JsonError)"
  by pat_completeness auto
termination
proof (relation "measures [\<lambda>x. case x of Inl (sd, ic, t, s, st) \<Rightarrow> length s | Inr (sd, ic, v, s, st) \<Rightarrow> length s,
    \<lambda>x. case x of Inl (sd, ic, t, s, st) \<Rightarrow> (if t = BeginArray then 2 else 1 :: nat) | Inr _ \<Rightarrow> 0]", goal_cases)
qed (auto dest!: scan_consumes)

text \<open>\<open>parse\<close> in strict mode: nothing but blanks and comments may follow the value.\<close>

definition json_parse :: "(string \<Rightarrow> int option) \<Rightarrow> bool \<Rightarrow> string \<Rightarrow> cxx_error + json" where
  "json_parse sd ignore_comments s =
     (case skip_bom s of
        None \<Rightarrow> Inl JsonError
      | Some s0 \<Rightarrow>
          (case scan sd ignore_comments s0 of (t, s1) \<Rightarrow>
             throwing (parse_value sd ignore_comments t s1 []) (\<lambda>(v, r).
               if fst (scan sd ignore_comments r) = EndOfInput then Inr v else Inl JsonError)))"

end
