(* ===== verification/Server_Config.thy ===== *)
theory Server_Config
  imports Json_Parse
begin

text \<open>
  \<open>src/core/server_config.cpp\<close>: the settings, their defaults, the configuration file and the command
  line. The static members of the class are one record; it also carries the two settings the code keeps
  elsewhere, the level of the logger and the templates of the URL rewriter. The command line is the list of options
  \<open>getopt_long\<close> delivers (the same in both passes), the file system is a function from paths to what
  opening and parsing the file gives; \<open>read_config\<close> says what that is for the text of a file.
\<close>

section \<open>State\<close>

datatype log_level = DEBUG | INFO | WARN | ERROR

record server_config =
  port :: int
  enable_nat :: bool
  nat_method :: string
  buffer_pool_count :: int
  buffer_pool_block_size :: int
  stun_server_port :: int
  stun_server_host :: string
  json_path :: string
  auth_token :: string
  http_upstream_interface :: string
  mitm_upstream_interface :: string
  listen_interface :: string
  log_file_path :: string
  log_file_lines :: nat
  strip_padding :: bool
  wait_keyframe :: bool
  watchdog_enabled :: bool
  daemon_enabled :: bool
  blacklist :: "string list"
  log_level :: log_level
  replace_templates :: json

definition default_config :: server_config where
  "default_config = \<lparr>port = 8554, enable_nat = False, nat_method = ''stun'', buffer_pool_count = 8192,
     buffer_pool_block_size = 2048, stun_server_port = 19302, stun_server_host = ''stun.l.google.com'',
     json_path = ''config.json'', auth_token = [], http_upstream_interface = [], mitm_upstream_interface = [],
     listen_interface = [], log_file_path = [], log_file_lines = 10000, strip_padding = False,
     wait_keyframe = False, watchdog_enabled = False, daemon_enabled = False, blacklist = [],
     log_level = INFO, replace_templates = JNull\<rparr>"

section \<open>Setters\<close>

definition setPort :: "int \<Rightarrow> server_config \<Rightarrow> server_config" where
  "setPort p c = c\<lparr>port := p\<rparr>"

definition setNatEnabled :: "bool \<Rightarrow> server_config \<Rightarrow> server_config" where
  "setNatEnabled b c = c\<lparr>enable_nat := b\<rparr>"

definition setNatMethod :: "string \<Rightarrow> server_config \<Rightarrow> server_config" where
  "setNatMethod m c = c\<lparr>nat_method := m\<rparr>"

definition setBufferPoolCount :: "int \<Rightarrow> server_config \<Rightarrow> server_config" where
  "setBufferPoolCount n c = c\<lparr>buffer_pool_count := n\<rparr>"

definition setBufferPoolBlockSize :: "int \<Rightarrow> server_config \<Rightarrow> server_config" where
  "setBufferPoolBlockSize n c = c\<lparr>buffer_pool_block_size := n\<rparr>"

definition setStunPort :: "int \<Rightarrow> server_config \<Rightarrow> server_config" where
  "setStunPort p c = c\<lparr>stun_server_port := p\<rparr>"

definition setStunHost :: "string \<Rightarrow> server_config \<Rightarrow> server_config" where
  "setStunHost h c = c\<lparr>stun_server_host := h\<rparr>"

definition setJsonPath :: "string \<Rightarrow> server_config \<Rightarrow> server_config" where
  "setJsonPath p c = c\<lparr>json_path := p\<rparr>"

definition setToken :: "string \<Rightarrow> server_config \<Rightarrow> server_config" where
  "setToken t c = c\<lparr>auth_token := t\<rparr>"

definition setHttpUpstreamInterface :: "string \<Rightarrow> server_config \<Rightarrow> server_config" where
  "setHttpUpstreamInterface i c = c\<lparr>http_upstream_interface := i\<rparr>"

definition setMitmUpstreamInterface :: "string \<Rightarrow> server_config \<Rightarrow> server_config" where
  "setMitmUpstreamInterface i c = c\<lparr>mitm_upstream_interface := i\<rparr>"

definition setListenInterface :: "string \<Rightarrow> server_config \<Rightarrow> server_config" where
  "setListenInterface i c = c\<lparr>listen_interface := i\<rparr>"

definition setLogFile :: "string \<Rightarrow> server_config \<Rightarrow> server_config" where
  "setLogFile p c = c\<lparr>log_file_path := p\<rparr>"

definition setLogLines :: "nat \<Rightarrow> server_config \<Rightarrow> server_config" where
  "setLogLines n c = c\<lparr>log_file_lines := n\<rparr>"

definition setBlacklist :: "string list \<Rightarrow> server_config \<Rightarrow> server_config" where
  "setBlacklist l c = c\<lparr>blacklist := l\<rparr>"

definition setStripPadding :: "bool \<Rightarrow> server_config \<Rightarrow> server_config" where
  "setStripPadding b c = c\<lparr>strip_padding := b\<rparr>"

definition setWaitKeyframe :: "bool \<Rightarrow> server_config \<Rightarrow> server_config" where
  "setWaitKeyframe b c = c\<lparr>wait_keyframe := b\<rparr>"

definition setWatchdogEnabled :: "bool \<Rightarrow> server_config \<Rightarrow> server_config" where
  "setWatchdogEnabled b c = c\<lparr>watchdog_enabled := b\<rparr>"

definition setDaemonEnabled :: "bool \<Rightarrow> server_config \<Rightarrow> server_config" where
  "setDaemonEnabled b c = c\<lparr>daemon_enabled := b\<rparr>"

named_theorems setters "definitions of the setters"

lemmas [setters] = setPort_def setNatEnabled_def setNatMethod_def setBufferPoolCount_def
  setBufferPoolBlockSize_def setStunPort_def setStunHost_def setJsonPath_def setToken_def
  setHttpUpstreamInterface_def setMitmUpstreamInterface_def setListenInterface_def setLogFile_def
  setLogLines_def setBlacklist_def setStripPadding_def setWaitKeyframe_def setWatchdogEnabled_def
  setDaemonEnabled_def

text \<open>\<open>if (level == "error") Logger::setLogLevel(...)\<close>: an unknown level changes nothing.\<close>

definition set_level :: "string \<Rightarrow> server_config \<Rightarrow> server_config" where
  "set_level level c =
     (if level = ''error'' then c\<lparr>log_level := ERROR\<rparr>
      else if level = ''warn'' then c\<lparr>log_level := WARN\<rparr>
      else if level = ''info'' then c\<lparr>log_level := INFO\<rparr>
      else if level = ''debug'' then c\<lparr>log_level := DEBUG\<rparr>
      else c)"

section \<open>Configuration file\<close>

text \<open>What reading the file gives. Only the exceptions of the class \<open>parse_error\<close> are caught; a number too large for a float is
  reported by another class.\<close>

datatype cfg_file = NoFile | ParseError | NumberOverflow | Document json

definition read_config :: "(string \<Rightarrow> int option) \<Rightarrow> string option \<Rightarrow> cfg_file" where
  "read_config strtod text =
     (case text of
        None \<Rightarrow> NoFile
      | Some ifs \<Rightarrow>
          (case json_parse strtod True ifs of
             Inl err \<Rightarrow> (if err = OutOfRange then NumberOverflow else ParseError)
           | Inr config \<Rightarrow> Document config))"

text \<open>\<open>if (s.contains(key)) set(s[key].get<T>())\<close>.\<close>

definition setting ::
  "json \<Rightarrow> string \<Rightarrow> (json \<Rightarrow> cxx_error + 'a) \<Rightarrow> ('a \<Rightarrow> server_config \<Rightarrow> server_config) \<Rightarrow>
   server_config \<Rightarrow> cxx_error + server_config" where
  "setting s key get upd c =
     (case member s key of None \<Rightarrow> Inr c | Some v \<Rightarrow> throwing (get v) (\<lambda>x. Inr (upd x c)))"

primrec run_steps ::
  "(server_config \<Rightarrow> cxx_error + server_config) list \<Rightarrow> server_config \<Rightarrow> cxx_error + server_config" where
  "run_steps [] c = Inr c"
| "run_steps (f # fs) c = throwing (f c) (run_steps fs)"

definition load_settings :: "json \<Rightarrow> server_config \<Rightarrow> cxx_error + server_config" where
  "load_settings s = run_steps
     [setting s ''port'' get_int setPort,
      setting s ''nat_method'' get_string setNatMethod,
      setting s ''enable_nat'' get_bool setNatEnabled,
      setting s ''buffer_pool_count'' get_int setBufferPoolCount,
      setting s ''buffer_pool_block_size'' get_int setBufferPoolBlockSize,
      setting s ''auth_token'' get_string setToken,
      setting s ''log_file'' get_string setLogFile,
      setting s ''log_lines'' get_size setLogLines,
      setting s ''log_level'' get_string set_level,
      setting s ''strip_padding'' get_bool setStripPadding,
      setting s ''wait_keyframe'' get_bool setWaitKeyframe,
      setting s ''watchdog'' get_bool setWatchdogEnabled,
      setting s ''daemon'' get_bool setDaemonEnabled,
      setting s ''http_interface'' get_string setHttpUpstreamInterface,
      setting s ''mitm_interface'' get_string setMitmUpstreamInterface,
      setting s ''listen_interface'' get_string setListenInterface,
      setting s ''stun_host'' get_string setStunHost,
      setting s ''stun_port'' get_int setStunPort]"

definition string_items :: "json list \<Rightarrow> string list" where
  "string_items xs = concat (map (\<lambda>j. case j of JStr s \<Rightarrow> [s] | _ \<Rightarrow> []) xs)"

text \<open>\<open>loadFromFile\<close>: the flag it returns and the settings.\<close>

definition loadFromFile :: "(string \<Rightarrow> cfg_file) \<Rightarrow> string \<Rightarrow> server_config \<Rightarrow> cxx_error + (bool \<times> server_config)" where
  "loadFromFile fs path c0 =
     (case fs path of
        NoFile \<Rightarrow> Inr (False, c0)
      | ParseError \<Rightarrow> Inr (False, c0)
      | NumberOverflow \<Rightarrow> Inl OutOfRange
      | Document config \<Rightarrow>
          (let c1 = (case member config ''blacklist'' of
                 Some (JArr items) \<Rightarrow> setBlacklist (string_items items) c0 | _ \<Rightarrow> c0)
           in throwing (case member config ''settings'' of
                 Some (JObj ms) \<Rightarrow> load_settings (JObj ms) c1 | _ \<Rightarrow> Inr c1) (\<lambda>c2.
              Inr (True, (case member config ''replace_templates'' of
                 Some (JArr ts) \<Rightarrow> c2\<lparr>replace_templates := JArr ts\<rparr> | _ \<Rightarrow> c2)))))"

section \<open>Command line\<close>

text \<open>An option as \<open>getopt_long\<close> reports it: a letter with its argument, a long option without a
  letter, or an error.\<close>

datatype cli_opt = Opt char string | Long string string | BadOpt

datatype cli_outcome = Run server_config | Exit int

fun first_pass :: "cli_opt list \<Rightarrow> server_config \<Rightarrow> server_config" where
  "first_pass [] c = c"
| "first_pass (o1 # os) c = first_pass os
     (case o1 of Opt l arg \<Rightarrow> (if l = CHR ''c'' then setJsonPath arg c else c)
      | Long n arg \<Rightarrow> (if n = ''config'' then setJsonPath arg c else c)
      | BadOpt \<Rightarrow> c)"

definition long_option :: "string \<Rightarrow> string \<Rightarrow> server_config \<Rightarrow> cxx_error + server_config" where
  "long_option name arg c =
     (if name = ''nat-method'' then Inr (setNatMethod arg c)
      else if name = ''stun-host'' then Inr (setStunHost arg c)
      else if name = ''stun-port'' then throwing (stoi arg) (\<lambda>p. Inr (setStunPort p c))
      else if name = ''http-interface'' then Inr (setHttpUpstreamInterface arg c)
      else if name = ''mitm-interface'' then Inr (setMitmUpstreamInterface arg c)
      else if name = ''log-file'' then Inr (setLogFile arg c)
      else if name = ''log-lines'' then throwing (stoul arg) (\<lambda>n. Inr (setLogLines (unat n) c))
      else if name = ''log-level'' then Inr (set_level arg c)
      else if name = ''strip-padding'' then Inr (setStripPadding True c)
      else if name = ''wait-keyframe'' then Inr (setWaitKeyframe True c)
      else Inr c)"

text \<open>One option of the second pass; \<open>-k\<close> ends the process after killing the running instance, an unknown option after
  printing the usage.\<close>

definition cli_option :: "cli_opt \<Rightarrow> server_config \<Rightarrow> cxx_error + cli_outcome" where
  "cli_option opt c = (case opt of
      Opt l arg \<Rightarrow>
        (if l = CHR ''p'' then throwing (stoi arg) (\<lambda>p. Inr (Run (setPort p c)))
         else if l = CHR ''n'' then Inr (Run (setNatEnabled True c))
         else if l = CHR ''b'' then throwing (stoi arg) (\<lambda>n. Inr (Run (setBufferPoolCount n c)))
         else if l = CHR ''s'' then throwing (stoi arg) (\<lambda>n. Inr (Run (setBufferPoolBlockSize n c)))
         else if l = CHR ''t'' then Inr (Run (setToken arg c))
         else if l = CHR ''c'' then Inr (Run c)
         else if l = CHR ''l'' then Inr (Run (setListenInterface arg c))
         else if l = CHR ''k'' then Inr (Exit 0)
         else if l = CHR ''d'' then Inr (Run (setDaemonEnabled True c))
         else if l = CHR ''w'' then Inr (Run (setWatchdogEnabled True c))
         else Inr (Exit 1))
    | Long name arg \<Rightarrow> throwing (long_option name arg c) (\<lambda>c'. Inr (Run c'))
    | BadOpt \<Rightarrow> Inr (Exit 1))"

fun second_pass :: "cli_opt list \<Rightarrow> server_config \<Rightarrow> cxx_error + cli_outcome" where
  "second_pass [] c = Inr (Run c)"
| "second_pass (opt # opts) c = throwing (cli_option opt c)
     (\<lambda>out. case out of Run c' \<Rightarrow> second_pass opts c' | Exit n \<Rightarrow> Inr (Exit n))"

definition parseCommandLine :: "(string \<Rightarrow> cfg_file) \<Rightarrow> cli_opt list \<Rightarrow> server_config \<Rightarrow> cxx_error + cli_outcome" where
  "parseCommandLine fs opts c =
     (let c1 = first_pass opts c
      in throwing (loadFromFile fs (json_path c1) c1) (\<lambda>(ok, c2). second_pass opts c2))"

text \<open>\<open>printConfig\<close>: the lines logged.\<close>

definition yes_no :: "bool \<Rightarrow> string" where
  "yes_no b = (if b then ''YES'' else ''NO'')"

definition printConfig :: "server_config \<Rightarrow> string list" where
  "printConfig c =
     [''[CONFIG] Port:              '' @ to_string_int (port c),
      ''[CONFIG] Listen Interface:  '' @ (if listen_interface c = [] then ''ANY'' else listen_interface c),
      ''[CONFIG] NAT Enabled:       '' @ yes_no (enable_nat c)] @
     (if enable_nat c then
       [''[CONFIG]   NAT Method:      '' @ nat_method c,
        ''[CONFIG]   STUN Host:       '' @ stun_server_host c,
        ''[CONFIG]   STUN Port:       '' @ to_string_int (stun_server_port c)] else []) @
     [''[CONFIG] Buffer Pool Count: '' @ to_string_int (buffer_pool_count c),
      ''[CONFIG] Buffer Pool Size:  '' @ to_string_int (buffer_pool_block_size c),
      ''[CONFIG] Strip Padding:     '' @ yes_no (strip_padding c),
      ''[CONFIG] Wait Keyframe:     '' @ yes_no (wait_keyframe c),
      ''[CONFIG] Watchdog:          '' @ yes_no (watchdog_enabled c),
      ''[CONFIG] Daemon:            '' @ yes_no (daemon_enabled c),
      ''[CONFIG] Auth Token:        '' @ (if auth_token c = [] then ''NONE'' else ''SET (MASKED)'')] @
     (if http_upstream_interface c \<noteq> [] then [''[CONFIG] HTTP Upstream If:  '' @ http_upstream_interface c] else []) @
     (if mitm_upstream_interface c \<noteq> [] then [''[CONFIG] MITM Upstream If:  '' @ mitm_upstream_interface c] else [])"

text \<open>\<open>printUsage\<close>: the lines printed.\<close>

definition printUsage :: "string \<Rightarrow> server_config \<Rightarrow> string list" where
  "printUsage program_name c =
     [''Usage: '' @ program_name @ '' [options]'',
      ''Options:'',
      ''  -p, --port            <port>  Set HTTP server port (default: '' @ to_string_int (port c) @ '')'',
      ''  -n, --enable-nat              Enable NAT (default: '' @ (if enable_nat c then ''enabled'' else ''disabled'') @ '')'',
      ''      --nat-method      <method> Set NAT method: stun, zte (default: '' @ nat_method c @ '')'',
      ''  -b, --buffer-pool-count <count> Set BufferPool block count (default: '' @ to_string_int (buffer_pool_count c) @ '')'',
      ''  -s, --buffer-pool-block-size <size>  Set BufferPool block size (default: '' @
        to_string_int (buffer_pool_block_size c) @ '')'',
      ''  -t, --auth-token      <token> Set auth token for HTTP API and RTSP access (default: none)'',
      ''      --http-interface  <iface> Set HTTP mode upstream interface'',
      ''      --mitm-interface  <iface> Set MITM mode upstream interface'',
      ''  -l, --listen-interface <iface> Set interface to listen on'',
      ''  -c, --config          <path>  Set JSON file path (default: '' @ json_path c @ '')'',
      ''  -d, --daemon                  Run rtsproxy in the background'',
      ''  -w, --watchdog                Run in watchdog mode (auto-restart on crash)'',
      ''      --log-file        <path>  Write logs to a specific file instead of stdout'',
      ''      --log-lines       <count> Set maximum log file lines (default: 10000)'',
      ''      --log-level       <level> Set log level: error, warn, info, debug (default: info)'',
      ''  -k, --kill                    Kill the running rtsproxy instance'',
      ''      --stun-host       <host>  Set STUN server host (default: '' @ stun_server_host c @ '')'',
      ''      --stun-port       <port>  Set STUN server port (default: '' @ to_string_int (stun_server_port c) @ '')'',
      ''      --strip-padding           Strip RTP padding and TS null packets'',
      ''      --wait-keyframe           Wait for keyframe before starting relay (Anti-Greenscreen)'']"

text \<open>\<open>kill_previous_instance\<close>: the process entries of \<open>/proc\<close> in directory order, each with its number and, when
  readable, the first line of its command line; the result is the process that gets the signal.\<close>

fun kill_scan :: "nat \<Rightarrow> (nat \<times> string option) list \<Rightarrow> nat option" where
  "kill_scan self [] = None"
| "kill_scan self ((pid, cmdline) # es) =
     (if pid = self then kill_scan self es
      else case cmdline of None \<Rightarrow> kill_scan self es
        | Some cmd \<Rightarrow> (if str_contains ''rtsproxy'' cmd then Some pid else kill_scan self es))"

definition kill_previous_instance :: "nat \<Rightarrow> (nat \<times> string option) list option \<Rightarrow> nat option" where
  "kill_previous_instance self proc = (case proc of None \<Rightarrow> None | Some es \<Rightarrow> kill_scan self es)"

section \<open>What a setting keeps\<close>

text \<open>A setting read from the file changes only what its setter changes.\<close>

definition keeps :: "(server_config \<Rightarrow> 'a) \<Rightarrow> (server_config \<Rightarrow> cxx_error + server_config) \<Rightarrow> bool" where
  "keeps f step \<longleftrightarrow> (\<forall>c c'. step c = Inr c' \<longrightarrow> f c' = f c)"

lemma setting_keeps: "(\<And>x c. f (upd x c) = f c) \<Longrightarrow> keeps f (setting s key get upd)"
  by (auto simp: keeps_def setting_def throwing_Inr split: option.splits)

lemma run_steps_keeps: "list_all (keeps f) steps \<Longrightarrow> run_steps steps c = Inr c' \<Longrightarrow> f c' = f c"
  by (induction steps arbitrary: c) (auto simp: throwing_Inr keeps_def)

lemma run_steps_append: "run_steps (xs @ ys) c = throwing (run_steps xs c) (run_steps ys)"
  by (induction xs arbitrary: c) (auto simp: throwing_assoc intro!: arg_cong [of _ _ "throwing _"])

lemma set_level_keeps [simp]:
  "auth_token (set_level l c) = auth_token c" "port (set_level l c) = port c"
  "blacklist (set_level l c) = blacklist c"
  by (simp_all add: set_level_def)

definition token_setting :: "json \<Rightarrow> string \<Rightarrow> string" where
  "token_setting s t = (case member s ''auth_token'' of Some (JStr t') \<Rightarrow> t' | _ \<Rightarrow> t)"

lemma load_settings_token:
  assumes "load_settings s c = Inr c'"
  shows "auth_token c' = token_setting s (auth_token c)"
proof -
  obtain before after where split: "load_settings s = run_steps (before @ setting s ''auth_token'' get_string setToken # after)"
    and "list_all (keeps auth_token) before" and "list_all (keeps auth_token) after"
  proof
    show "load_settings s = run_steps
      ([setting s ''port'' get_int setPort,
      setting s ''nat_method'' get_string setNatMethod,
      setting s ''enable_nat'' get_bool setNatEnabled,
      setting s ''buffer_pool_count'' get_int setBufferPoolCount,
      setting s ''buffer_pool_block_size'' get_int setBufferPoolBlockSize]
       @ setting s ''auth_token'' get_string setToken
       # [setting s ''log_file'' get_string setLogFile,
      setting s ''log_lines'' get_size setLogLines,
      setting s ''log_level'' get_string set_level,
      setting s ''strip_padding'' get_bool setStripPadding,
      setting s ''wait_keyframe'' get_bool setWaitKeyframe,
      setting s ''watchdog'' get_bool setWatchdogEnabled,
      setting s ''daemon'' get_bool setDaemonEnabled,
      setting s ''http_interface'' get_string setHttpUpstreamInterface,
      setting s ''mitm_interface'' get_string setMitmUpstreamInterface,
      setting s ''listen_interface'' get_string setListenInterface,
      setting s ''stun_host'' get_string setStunHost,
      setting s ''stun_port'' get_int setStunPort])"
      by (simp only: load_settings_def append.simps)
  qed (simp_all add: setting_keeps setters)
  moreover from assms split obtain c1 c2 where "run_steps before c = Inr c1"
    and t: "setting s ''auth_token'' get_string setToken c1 = Inr c2" and "run_steps after c2 = Inr c'"
    by (auto simp: run_steps_append throwing_Inr)
  ultimately have "auth_token c1 = auth_token c" "auth_token c' = auth_token c2"
    by (simp_all add: run_steps_keeps)
  moreover have "auth_token c2 = token_setting s (auth_token c1)" using t
    by (auto simp: setting_def token_setting_def throwing_Inr get_string_def setters split: option.splits json.splits)
  ultimately show ?thesis by simp
qed

text \<open>The last argument of an option.\<close>

fun last_arg :: "char \<Rightarrow> cli_opt list \<Rightarrow> string option" where
  "last_arg l [] = None"
| "last_arg l (opt # opts) = (case last_arg l opts of
      Some a \<Rightarrow> Some a
    | None \<Rightarrow> (case opt of Opt l' arg \<Rightarrow> (if l' = l then Some arg else None) | _ \<Rightarrow> None))"

lemma long_option_token: "long_option n arg c = Inr c' \<Longrightarrow> auth_token c' = auth_token c"
  by (auto simp: long_option_def throwing_Inr setters split: if_splits)

lemma cli_option_token:
  "cli_option opt c = Inr (Run c') \<Longrightarrow>
   auth_token c' = (case opt of Opt l arg \<Rightarrow> (if l = CHR ''t'' then arg else auth_token c) | _ \<Rightarrow> auth_token c)"
  by (cases opt) (auto simp: cli_option_def throwing_Inr setters dest: long_option_token split: if_splits)

lemma second_pass_token:
  "second_pass opts c = Inr (Run c') \<Longrightarrow>
   auth_token c' = (case last_arg (CHR ''t'') opts of Some t \<Rightarrow> t | None \<Rightarrow> auth_token c)"
proof (induction opts arbitrary: c)
  case (Cons opt opts)
  from Cons.prems obtain out where "cli_option opt c = Inr out"
    and "(case out of Run c1 \<Rightarrow> second_pass opts c1 | Exit n \<Rightarrow> Inr (Exit n)) = Inr (Run c')"
    by (auto simp: throwing_Inr)
  then obtain c1 where "cli_option opt c = Inr (Run c1)" "second_pass opts c1 = Inr (Run c')"
    by (cases out) auto
  with Cons.IH [of c1] cli_option_token [of opt c c1] show ?case
    by (auto split: option.splits cli_opt.splits)
qed simp

lemma first_pass_keeps: "auth_token (first_pass opts c) = auth_token c"
  by (induction opts arbitrary: c) (auto simp: setters split: cli_opt.splits)

lemma first_pass_path:
  "json_path (first_pass opts c) = (case last_arg (CHR ''c'') (map (\<lambda>opt. case opt of
       Long n arg \<Rightarrow> (if n = ''config'' then Opt (CHR ''c'') arg else BadOpt) | x \<Rightarrow> x) opts) of
     Some p \<Rightarrow> p | None \<Rightarrow> json_path c)"
  by (induction opts arbitrary: c) (auto simp: setters split: cli_opt.splits option.splits)

definition file_token :: "(string \<Rightarrow> cfg_file) \<Rightarrow> string \<Rightarrow> string \<Rightarrow> string" where
  "file_token fs path t = (case fs path of
      Document config \<Rightarrow> (case member config ''settings'' of
          Some (JObj ms) \<Rightarrow> token_setting (JObj ms) t | _ \<Rightarrow> t)
    | _ \<Rightarrow> t)"

lemma loadFromFile_token:
  assumes "loadFromFile fs path c = Inr (ok, c')"
  shows "auth_token c' = file_token fs path (auth_token c)"
proof (cases "fs path")
  case (Document config)
  let ?c1 = "case member config ''blacklist'' of
      Some (JArr items) \<Rightarrow> setBlacklist (string_items items) c | _ \<Rightarrow> c"
  let ?t = "\<lambda>c2. case member config ''replace_templates'' of
      Some (JArr ts) \<Rightarrow> c2\<lparr>replace_templates := JArr ts\<rparr> | _ \<Rightarrow> c2"
  have keep: "auth_token ?c1 = auth_token c" "\<And>c2. auth_token (?t c2) = auth_token c2"
    by (auto simp: setters split: option.splits json.splits)
  from assms Document obtain c2 where
    l: "(case member config ''settings'' of Some (JObj ms) \<Rightarrow> load_settings (JObj ms) ?c1 | _ \<Rightarrow> Inr ?c1) = Inr c2"
    and "c' = ?t c2"
    unfolding loadFromFile_def Let_def by (auto simp: throwing_Inr)
  then have "auth_token c' = auth_token c2" using keep(2) by blast
  moreover have "auth_token c2 = file_token fs path (auth_token c1)"
    if "(case member config ''settings'' of Some (JObj ms) \<Rightarrow> load_settings (JObj ms) c1 | _ \<Rightarrow> Inr c1) = Inr c2" for c1
    using that Document load_settings_token by (auto simp: file_token_def split: option.splits json.splits)
  note this [OF l]
  ultimately show ?thesis using keep(1) by simp
qed (use assms in \<open>auto simp: loadFromFile_def file_token_def\<close>)

section \<open>Types of the settings\<close>

text \<open>What the C++ types of the members admit: every \<open>int\<close> in 32 bits, the \<open>size_t\<close> in 64; and the value handed to the URL rewriter
  is an array, or nothing when none was configured.\<close>

definition is_int :: "int \<Rightarrow> bool" where
  "is_int v \<longleftrightarrow> - (2 ^ 31) \<le> v \<and> v < 2 ^ 31"

definition config_typed :: "server_config \<Rightarrow> bool" where
  "config_typed c \<longleftrightarrow> is_int (port c) \<and> is_int (buffer_pool_count c) \<and> is_int (buffer_pool_block_size c) \<and>
     is_int (stun_server_port c) \<and> log_file_lines c < 2 ^ 64 \<and>
     (case replace_templates c of JNull \<Rightarrow> True | JArr ts \<Rightarrow> True | _ \<Rightarrow> False)"

definition typed_step :: "(server_config \<Rightarrow> cxx_error + server_config) \<Rightarrow> bool" where
  "typed_step f \<longleftrightarrow> (\<forall>c c'. config_typed c \<longrightarrow> f c = Inr c' \<longrightarrow> config_typed c')"

lemma stoi_is_int: "stoi s = Inr v \<Longrightarrow> is_int v"
  using stoi_range by (auto simp: is_int_def)

lemma get_int_is_int: "get_int j = Inr v \<Longrightarrow> is_int v"
  using get_int_range by (auto simp: is_int_def)

lemma get_size_range: "get_size j = Inr n \<Longrightarrow> n < 2 ^ 64"
  by (auto simp: get_size_def nat_less_iff split: json.splits if_splits)

lemma unat_u64: "unat (w :: u64) < 2 ^ 64"
  using unsigned_less [of w] by simp

text \<open>A setting is typed when its setter is typed on every value the accessor can deliver.\<close>

lemma setting_typed:
  "(\<And>v x c. get v = Inr x \<Longrightarrow> config_typed c \<Longrightarrow> config_typed (upd x c)) \<Longrightarrow> typed_step (setting s key get upd)"
  by (auto simp: typed_step_def setting_def throwing_Inr split: option.splits)

lemma run_steps_typed: "list_all typed_step fs \<Longrightarrow> run_steps fs c = Inr c' \<Longrightarrow> config_typed c \<Longrightarrow> config_typed c'"
proof (induction fs arbitrary: c)
  case (Cons f fs)
  then obtain c1 where "f c = Inr c1" "run_steps fs c1 = Inr c'" by (auto simp: throwing_Inr)
  with Cons show ?case by (simp add: typed_step_def)
qed simp

lemma set_level_typed [simp]: "config_typed (set_level l c) = config_typed c"
  by (simp add: set_level_def config_typed_def)

lemma setters_typed [simp]:
  "config_typed (setNatMethod m c) = config_typed c" "config_typed (setNatEnabled b c) = config_typed c"
  "config_typed (setToken t c) = config_typed c" "config_typed (setLogFile p c) = config_typed c"
  "config_typed (setStripPadding b c) = config_typed c" "config_typed (setWaitKeyframe b c) = config_typed c"
  "config_typed (setWatchdogEnabled b c) = config_typed c" "config_typed (setDaemonEnabled b c) = config_typed c"
  "config_typed (setHttpUpstreamInterface i c) = config_typed c" "config_typed (setMitmUpstreamInterface i c) = config_typed c"
  "config_typed (setListenInterface i c) = config_typed c" "config_typed (setStunHost h c) = config_typed c"
  "config_typed (setJsonPath h c) = config_typed c" "config_typed (setBlacklist bl c) = config_typed c"
  by (simp_all add: setters config_typed_def)

lemma number_setters_typed [intro]:
  "is_int v \<Longrightarrow> config_typed c \<Longrightarrow> config_typed (setPort v c)"
  "is_int v \<Longrightarrow> config_typed c \<Longrightarrow> config_typed (setStunPort v c)"
  "is_int v \<Longrightarrow> config_typed c \<Longrightarrow> config_typed (setBufferPoolCount v c)"
  "is_int v \<Longrightarrow> config_typed c \<Longrightarrow> config_typed (setBufferPoolBlockSize v c)"
  "n < 2 ^ 64 \<Longrightarrow> config_typed c \<Longrightarrow> config_typed (setLogLines n c)"
  by (simp_all add: setters config_typed_def)

lemma load_settings_typed: "load_settings s c = Inr c' \<Longrightarrow> config_typed c \<Longrightarrow> config_typed c'"
  unfolding load_settings_def
  by (erule run_steps_typed [rotated]) (auto intro!: setting_typed dest: get_int_is_int get_size_range)

lemma loadFromFile_typed:
  assumes "loadFromFile fs path c = Inr (ok, c')" and "config_typed c"
  shows "config_typed c'"
proof -
  have t: "config_typed (c2\<lparr>replace_templates := JArr ts\<rparr>)" if "config_typed c2" for c2 ts
    using that by (simp add: config_typed_def)
  show ?thesis
  proof (cases "fs path")
    case (Document config)
    let ?c1 = "case member config ''blacklist'' of
        Some (JArr items) \<Rightarrow> setBlacklist (string_items items) c | _ \<Rightarrow> c"
    let ?t = "\<lambda>c2. case member config ''replace_templates'' of
        Some (JArr ts) \<Rightarrow> c2\<lparr>replace_templates := JArr ts\<rparr> | _ \<Rightarrow> c2"
    have c1: "config_typed ?c1" using assms(2) by (simp split: option.split json.split)
    have t': "config_typed (?t c2)" if "config_typed c2" for c2 using that t by (simp split: option.split json.split)
    from assms(1) Document obtain c2 where
      r: "(case member config ''settings'' of Some (JObj ms) \<Rightarrow> load_settings (JObj ms) ?c1 | _ \<Rightarrow> Inr ?c1) = Inr c2"
      and c': "c' = ?t c2"
      unfolding loadFromFile_def Let_def by (auto simp: throwing_Inr)
    have "config_typed c2" if "config_typed c1"
      "(case member config ''settings'' of Some (JObj ms) \<Rightarrow> load_settings (JObj ms) c1 | _ \<Rightarrow> Inr c1) = Inr c2" for c1
      using that load_settings_typed by (auto split: option.splits json.splits)
    from t' [OF this [OF c1 r]] show ?thesis unfolding c' .
  qed (use assms in \<open>auto simp: loadFromFile_def\<close>)
qed

lemma long_option_typed: "long_option n arg c = Inr c' \<Longrightarrow> config_typed c \<Longrightarrow> config_typed c'"
  by (auto simp: long_option_def throwing_Inr dest: stoi_is_int split: if_splits intro: number_setters_typed(5) [OF unat_u64])

lemma cli_option_typed: "cli_option opt c = Inr (Run c') \<Longrightarrow> config_typed c \<Longrightarrow> config_typed c'"
  by (cases opt) (auto simp: cli_option_def throwing_Inr dest: stoi_is_int long_option_typed split: if_splits)

lemma first_pass_typed [simp]: "config_typed (first_pass opts c) = config_typed c"
  by (induction opts arbitrary: c) (auto split: cli_opt.splits)

lemma second_pass_typed: "second_pass opts c = Inr (Run c') \<Longrightarrow> config_typed c \<Longrightarrow> config_typed c'"
proof (induction opts arbitrary: c)
  case (Cons opt opts)
  from Cons.prems(1) obtain out where "cli_option opt c = Inr out"
    and "(case out of Run c1 \<Rightarrow> second_pass opts c1 | Exit n \<Rightarrow> Inr (Exit n)) = Inr (Run c')"
    by (auto simp: throwing_Inr)
  then obtain c1 where "cli_option opt c = Inr (Run c1)" "second_pass opts c1 = Inr (Run c')"
    by (cases out) auto
  with Cons.IH [of c1] Cons.prems(2) cli_option_typed show ?case by blast
qed simp

section \<open>Properties\<close>


text \<open>The number of buffers of the file is no 32-bit value and wraps.\<close>

definition wrapping_fs :: "string \<Rightarrow> cfg_file" where
  "wrapping_fs path = Document (JObj [(''settings'', JObj [(''buffer_pool_count'', JInt 4294967297)])])"

lemma wrapping_run:
  "case parseCommandLine wrapping_fs [Opt (CHR ''p'') ''80''] default_config of
     Inr (Run c) \<Rightarrow> buffer_pool_count c = 1 \<and> port c = 80 | _ \<Rightarrow> False"
  by code_simp


text \<open>C32: the access token in force is the argument of the last \<open>-t\<close> of the command line; without one it is the
  \<open>auth_token\<close> of the configuration file (the last \<open>-c\<close>, or \<open>config.json\<close>); without that it is empty, which means that
  every request is authorised. And the configuration printed to the log does not depend on the
  token beyond whether there is one.\<close>

theorem token_precedence:
  assumes "parseCommandLine fs opts default_config = Inr (Run c)"
  shows "auth_token c = (case last_arg (CHR ''t'') opts of
           Some t \<Rightarrow> t
         | None \<Rightarrow> file_token fs (json_path (first_pass opts default_config)) []) \<and>
         (\<forall>t. (t = []) = (auth_token c = []) \<longrightarrow> printConfig (c\<lparr>auth_token := t\<rparr>) = printConfig c)"
proof
  from assms obtain ok c2 where
    l: "loadFromFile fs (json_path (first_pass opts default_config)) (first_pass opts default_config) = Inr (ok, c2)"
    and s: "second_pass opts c2 = Inr (Run c)"
    by (auto simp: parseCommandLine_def Let_def throwing_Inr)
  have "auth_token c2 = file_token fs (json_path (first_pass opts default_config)) []"
    using loadFromFile_token [OF l] by (simp add: first_pass_keeps default_config_def)
  with second_pass_token [OF s]
  show "auth_token c = (case last_arg (CHR ''t'') opts of
           Some t \<Rightarrow> t | None \<Rightarrow> file_token fs (json_path (first_pass opts default_config)) [])"
    by (simp split: option.splits)
qed (simp add: printConfig_def)

definition example_fs :: "string \<Rightarrow> cfg_file" where
  "example_fs path = (if path = ''my.json''
     then Document (JObj [(''settings'', JObj [(''auth_token'', JStr ''secret''), (''port'', JInt 9000)])]) else NoFile)"

lemma example_run:
  "case parseCommandLine example_fs [Opt (CHR ''c'') ''my.json''] default_config of
     Inr (Run c) \<Rightarrow> auth_token c = ''secret'' \<and> port c = 9000 | _ \<Rightarrow> False"
  by code_simp

theorem token_precedence_witness:
  "\<exists>c. parseCommandLine example_fs [Opt (CHR ''c'') ''my.json''] default_config = Inr (Run c) \<and>
     auth_token c = file_token example_fs (json_path (first_pass [Opt (CHR ''c'') ''my.json''] default_config)) []"
proof -
  obtain c where c: "parseCommandLine example_fs [Opt (CHR ''c'') ''my.json''] default_config = Inr (Run c)"
    using example_run by (auto split: sum.splits cli_outcome.splits)
  with token_precedence [OF c] show ?thesis by simp
qed

end
