(* ===== verification/Port_Pool.thy ===== *)
theory Port_Pool
  imports Prelude
begin

text \<open>
  \<open>PortPool\<close> (\<open>include/core/port_pool.h\<close>, \<open>src/core/port_pool.cpp\<close>): the allocator of RTP/RTCP
  port pairs. The record has the class's fields; \<open>uint16_t\<close> values are \<^typ>\<open>nat\<close> below
  \<open>2\<^sup>1\<^sup>6\<close> with the wrap-around written out; \<open>used_ports_\<close> is a set. The mutex is not modelled: every
  operation runs under it, so operations are atomic steps.
  The interface the clients rely on is the locale \<open>pair_allocator\<close>.
\<close>

section \<open>The model\<close>

record port_pool =
  start_port :: nat
  end_port :: nat
  next_port :: nat
  used_ports :: "nat set"

text \<open>The constructor and the member initialisers.\<close>

definition PortPool :: port_pool where
  "PortPool = \<lparr>start_port = 20000, end_port = 40000, next_port = 20000, used_ports = {}\<rparr>"

text \<open>One iteration of the \<open>while\<close> loop up to the test: the candidate and the new \<open>next_port_\<close>.\<close>

definition candidate :: "port_pool \<Rightarrow> nat" where
  "candidate pp =
     (let p = next_port pp;
          p = (if p mod 2 \<noteq> 0 then (p + 1) mod 65536 else p)
      in if p \<ge> end_port pp then start_port pp else p)"

definition advance :: "port_pool \<Rightarrow> port_pool" where
  "advance pp =
     (let n = (candidate pp + 2) mod 65536
      in pp\<lparr>next_port := (if n \<ge> end_port pp then start_port pp else n)\<rparr>)"

definition pair_free :: "nat set \<Rightarrow> nat \<Rightarrow> bool" where
  "pair_free used p \<longleftrightarrow> p \<notin> used \<and> (p + 1) mod 65536 \<notin> used"

text \<open>The loop of \<open>acquire_pair\<close>; the first argument is the number of attempts left.\<close>

fun acquire_loop :: "nat \<Rightarrow> port_pool \<Rightarrow> nat \<times> port_pool" where
  "acquire_loop 0 pp = (0, pp)"
| "acquire_loop (Suc n) pp =
     (let p = candidate pp; pp' = advance pp
      in if pair_free (used_ports pp) p
         then (p, pp'\<lparr>used_ports := insert ((p + 1) mod 65536) (insert p (used_ports pp'))\<rparr>)
         else acquire_loop n pp')"

definition acquire_pair :: "port_pool \<Rightarrow> nat \<times> port_pool" where
  "acquire_pair pp = acquire_loop (((end_port pp + 65536 - start_port pp) mod 65536) div 2) pp"

definition release_pair :: "nat \<Rightarrow> port_pool \<Rightarrow> port_pool" where
  "release_pair port pp = (if port = 0 then pp
     else pp\<lparr>used_ports := used_ports pp - {port} - {(port + 1) mod 65536}\<rparr>)"

definition mark_occupied :: "nat \<Rightarrow> port_pool \<Rightarrow> port_pool" where
  "mark_occupied port pp = pp\<lparr>used_ports := insert port (used_ports pp)\<rparr>"

section \<open>Invariant\<close>

text \<open>The range is even-aligned and inside \<open>uint16_t\<close>; the round-robin pointer is an even port of
  the range.\<close>

definition pool_range :: "port_pool \<Rightarrow> bool" where
  "pool_range pp \<longleftrightarrow> 0 < start_port pp \<and> even (start_port pp) \<and> even (end_port pp) \<and>
     start_port pp < end_port pp \<and> end_port pp < 65536"

definition pool_inv :: "port_pool \<Rightarrow> bool" where
  "pool_inv pp \<longleftrightarrow> pool_range pp \<and> even (next_port pp) \<and>
     start_port pp \<le> next_port pp \<and> next_port pp < end_port pp"

lemma pool_inv_PortPool [simp]: "pool_inv PortPool"
  by (simp add: pool_inv_def pool_range_def PortPool_def)

lemma candidate_eq: "pool_inv pp \<Longrightarrow> candidate pp = next_port pp"
  by (simp add: candidate_def pool_inv_def pool_range_def Let_def even_iff_mod_2_eq_zero)

lemma even_gap: "even (a::nat) \<Longrightarrow> even b \<Longrightarrow> a < b \<Longrightarrow> a + 2 \<le> b"
  by (elim evenE) simp

lemma advance_inv: "pool_inv pp \<Longrightarrow> pool_inv (advance pp)"
  using even_gap [of "next_port pp" "end_port pp"]
  by (auto simp: advance_def candidate_eq Let_def) (auto simp: pool_inv_def pool_range_def)

lemma advance_frame [simp]:
  "start_port (advance pp) = start_port pp" "end_port (advance pp) = end_port pp"
  "used_ports (advance pp) = used_ports pp"
  by (simp_all add: advance_def Let_def)

lemma pool_inv_used [simp]: "pool_inv (pp\<lparr>used_ports := u\<rparr>) = pool_inv pp"
  by (simp add: pool_inv_def pool_range_def)

lemma pool_inv_pair:
  assumes "pool_inv pp"
  shows "candidate pp \<noteq> 0" "even (candidate pp)" "start_port pp \<le> candidate pp"
    "candidate pp + 1 < end_port pp" "(candidate pp + 1) mod 65536 = candidate pp + 1"
  using assms even_gap [of "next_port pp" "end_port pp"]
  by (auto simp: candidate_eq pool_inv_def pool_range_def)

section \<open>What an acquisition returns\<close>

lemma acquire_loop_inv: "pool_inv pp \<Longrightarrow> pool_inv (snd (acquire_loop n pp))"
proof (induction n arbitrary: pp)
  case (Suc n)
  then show ?case using advance_inv [OF Suc.prems] by (simp add: Let_def)
qed simp

lemma acquire_loop_frame:
  "start_port (snd (acquire_loop n pp)) = start_port pp"
  "end_port (snd (acquire_loop n pp)) = end_port pp"
  by (induction n arbitrary: pp) (auto simp: Let_def)

lemma acquire_loop_fresh:
  assumes "pool_inv pp" and "acquire_loop n pp = (p, pp')" and "p \<noteq> 0"
  shows "even p \<and> start_port pp \<le> p \<and> p + 1 < end_port pp \<and> p \<notin> used_ports pp \<and>
    p + 1 \<notin> used_ports pp \<and> used_ports pp' = used_ports pp \<union> {p, p + 1}"
  using assms
proof (induction n arbitrary: pp)
  case (Suc n)
  show ?case
  proof (cases "pair_free (used_ports pp) (candidate pp)")
    case True
    with Suc.prems pool_inv_pair [OF Suc.prems(1)] show ?thesis
      by (auto simp: Let_def pair_free_def)
  next
    case False
    then show ?thesis
      using Suc.prems Suc.IH [OF advance_inv [OF Suc.prems(1)]] by (simp add: Let_def)
  qed
qed simp

lemma acquire_loop_fail: "pool_inv pp \<Longrightarrow> acquire_loop n pp = (0, pp') \<Longrightarrow> used_ports pp' = used_ports pp"
proof (induction n arbitrary: pp)
  case (Suc n)
  then show ?case
    using advance_inv [OF Suc.prems(1)] pool_inv_pair(1) [OF Suc.prems(1)]
    by (auto simp: Let_def split: if_splits)
qed simp

text \<open>The round-robin pointer as an index into the list of pairs.\<close>

definition pairs :: "port_pool \<Rightarrow> nat" where
  "pairs pp = (end_port pp - start_port pp) div 2"

definition at_index :: "port_pool \<Rightarrow> nat \<Rightarrow> bool" where
  "at_index pp i \<longleftrightarrow> next_port pp = start_port pp + 2 * (i mod pairs pp)"

lemma pool_range_pairs:
  assumes "pool_range pp"
  shows "0 < pairs pp" and "end_port pp = start_port pp + 2 * pairs pp"
  using assms even_gap [of "start_port pp" "end_port pp"]
  by (auto simp: pool_range_def pairs_def elim!: evenE)

lemma at_index_ex: "pool_inv pp \<Longrightarrow> \<exists>i < pairs pp. at_index pp i"
proof -
  assume inv: "pool_inv pp"
  then have r: "pool_range pp" by (simp add: pool_inv_def)
  let ?i = "(next_port pp - start_port pp) div 2"
  have "?i < pairs pp" and "next_port pp = start_port pp + 2 * ?i"
    using inv pool_range_pairs [OF r] by (auto simp: pool_inv_def pool_range_def elim!: evenE)
  then show ?thesis by (auto simp: at_index_def)
qed

lemma at_index_advance:
  assumes inv: "pool_inv pp" and at: "at_index pp i"
  shows "at_index (advance pp) (Suc i)"
proof -
  have r: "pool_range pp" using inv by (simp add: pool_inv_def)
  have m: "pairs (advance pp) = pairs pp" by (simp add: pairs_def)
  have le: "i mod pairs pp < pairs pp" using pool_range_pairs(1) [OF r] by simp
  have lt: "start_port pp + 2 * pairs pp < 65536"
    using r pool_range_pairs(2) [OF r] by (simp add: pool_range_def)
  have "next_port (advance pp) = start_port pp + 2 * (Suc i mod pairs pp)"
  proof (cases "Suc (i mod pairs pp) = pairs pp")
    case True
    then have "Suc i mod pairs pp = 0" by (simp add: mod_Suc)
    with True at show ?thesis
      using pool_range_pairs(2) [OF r] lt
      by (simp add: advance_def candidate_eq [OF inv] at_index_def)
  next
    case False
    then have "Suc i mod pairs pp = Suc (i mod pairs pp)" by (simp add: mod_Suc)
    with False le at show ?thesis
      using pool_range_pairs(2) [OF r] lt
      by (simp add: advance_def candidate_eq [OF inv] at_index_def)
  qed
  then show ?thesis by (simp add: at_index_def m)
qed

text \<open>A failing loop has looked at every pair it had attempts for.\<close>

lemma acquire_loop_examined:
  assumes "pool_inv pp" and "at_index pp i" and "acquire_loop n pp = (0, pp')" and "j < n"
  shows "\<not> pair_free (used_ports pp) (start_port pp + 2 * ((i + j) mod pairs pp))"
  using assms
proof (induction n arbitrary: pp i j)
  case (Suc n)
  from Suc.prems(1,3) have busy: "\<not> pair_free (used_ports pp) (candidate pp)"
    and rest: "acquire_loop n (advance pp) = (0, pp')"
    using pool_inv_pair(1) [OF Suc.prems(1)] by (auto simp: Let_def split: if_splits)
  show ?case
  proof (cases j)
    case 0
    with busy Suc.prems(2) show ?thesis by (simp add: candidate_eq [OF Suc.prems(1)] at_index_def)
  next
    case (Suc k)
    with Suc.prems(4) have "k < n" by simp
    from Suc.IH [OF advance_inv [OF Suc.prems(1)] at_index_advance [OF Suc.prems(1,2)] rest this]
    show ?thesis using Suc by (simp add: pairs_def)
  qed
qed simp

lemma acquire_pair_loop:
  assumes "pool_inv pp" shows "acquire_pair pp = acquire_loop (pairs pp) pp"
proof -
  have "start_port pp < end_port pp" "end_port pp < 65536"
    using assms by (simp_all add: pool_inv_def pool_range_def)
  then have "end_port pp + 65536 - start_port pp = (end_port pp - start_port pp) + 65536" by simp
  then have "(end_port pp + 65536 - start_port pp) mod 65536 = end_port pp - start_port pp"
    using \<open>end_port pp < 65536\<close> by (simp only: mod_add_self2) simp
  then show ?thesis by (simp add: acquire_pair_def pairs_def)
qed

lemma acquire_pair_inv: "pool_inv pp \<Longrightarrow> acquire_pair pp = (p, pp') \<Longrightarrow> pool_inv pp'"
  using acquire_loop_inv [of pp "pairs pp"] by (simp add: acquire_pair_loop)

lemma acquire_pair_frame:
  "acquire_pair pp = (p, pp') \<Longrightarrow> start_port pp' = start_port pp \<and> end_port pp' = end_port pp"
  using acquire_loop_frame [of "((end_port pp + 65536 - start_port pp) mod 65536) div 2" pp]
  by (simp add: acquire_pair_def)

lemma acquire_pair_exhausted:
  assumes inv: "pool_inv pp" and fail: "acquire_pair pp = (0, pp')"
    and k: "even p" "start_port pp \<le> p" "p < end_port pp"
  shows "\<not> pair_free (used_ports pp) p"
proof -
  have r: "pool_range pp" using inv by (simp add: pool_inv_def)
  obtain i where i: "i < pairs pp" "at_index pp i" using at_index_ex [OF inv] by blast
  let ?k = "(p - start_port pp) div 2"
  have p: "p = start_port pp + 2 * ?k" and klt: "?k < pairs pp"
    using k r pool_range_pairs [OF r] by (auto simp: pool_range_def elim!: evenE)
  let ?j = "(?k + pairs pp - i) mod pairs pp"
  have "(i + ?j) mod pairs pp = (i + (?k + pairs pp - i)) mod pairs pp" by (simp add: mod_add_right_eq)
  also have "\<dots> = ?k" using i klt by simp
  finally have kk: "(i + ?j) mod pairs pp = ?k" .
  have "?j < pairs pp" using klt by simp
  from acquire_loop_examined [OF inv i(2) fail [unfolded acquire_pair_loop [OF inv]] this]
  show ?thesis using p kk by simp
qed

lemma acquire_pair_first:
  assumes "pool_inv pp" and "pair_free (used_ports pp) (next_port pp)"
  shows "acquire_pair pp = (next_port pp, (advance pp)
    \<lparr>used_ports := insert (next_port pp + 1) (insert (next_port pp) (used_ports pp))\<rparr>)"
proof -
  obtain n where "pairs pp = Suc n"
    using assms pool_range_pairs(1) [of pp] by (cases "pairs pp") (auto simp: pool_inv_def)
  with assms pool_inv_pair(5) [OF assms(1)] show ?thesis
    by (simp add: acquire_pair_loop candidate_eq Let_def)
qed

lemma release_pair_inv [simp]: "pool_inv (release_pair p pp) = pool_inv pp"
  by (simp add: release_pair_def)

lemma mark_occupied_inv [simp]: "pool_inv (mark_occupied p pp) = pool_inv pp"
  by (simp add: mark_occupied_def)

section \<open>The interface: allocators of port pairs\<close>

text \<open>What the clients of the pool rely on: a returned pair is even, was free and is taken
  afterwards; releasing a pair frees those two ports and no other; marking only takes.
  The step relation \<open>alloc_step\<close> is the way the proxy's sessions use an allocator: each step is one
  call, and the list is the multiset of pairs sessions currently hold.\<close>

datatype alloc_op = Acquire | Release nat | Mark nat

inductive alloc_step ::
  "('s \<Rightarrow> nat \<times> 's) \<Rightarrow> (nat \<Rightarrow> 's \<Rightarrow> 's) \<Rightarrow> (nat \<Rightarrow> 's \<Rightarrow> 's) \<Rightarrow> alloc_op \<Rightarrow>
   's \<times> nat list \<Rightarrow> 's \<times> nat list \<Rightarrow> bool"
  for acq rel mark where
  acquire_ok: "acq s = (p, s') \<Longrightarrow> p \<noteq> 0 \<Longrightarrow>
     alloc_step acq rel mark Acquire (s, held) (s', p # held)"
| acquire_none: "acq s = (0, s') \<Longrightarrow> alloc_step acq rel mark Acquire (s, held) (s', held)"
| release: "p \<in> set held \<Longrightarrow>
     alloc_step acq rel mark (Release p) (s, held) (rel p s, remove1 p held)"
| mark: "alloc_step acq rel mark (Mark p) (s, held) (mark p s, held)"

inductive_cases alloc_stepE: "alloc_step acq rel mark oper (s, held) (s', held')"

inductive alloc_run ::
  "('s \<Rightarrow> nat \<times> 's) \<Rightarrow> (nat \<Rightarrow> 's \<Rightarrow> 's) \<Rightarrow> (nat \<Rightarrow> 's \<Rightarrow> 's) \<Rightarrow> alloc_op list \<Rightarrow>
   's \<times> nat list \<Rightarrow> 's \<times> nat list \<Rightarrow> bool"
  for acq rel mark where
  run_nil: "alloc_run acq rel mark [] c c"
| run_cons: "alloc_step acq rel mark x c c' \<Longrightarrow> alloc_run acq rel mark xs c' c'' \<Longrightarrow>
     alloc_run acq rel mark (x # xs) c c''"

text \<open>The pairs held are even, different, and both ports of each are marked used.\<close>

definition held_ok :: "nat set \<Rightarrow> nat list \<Rightarrow> bool" where
  "held_ok used held \<longleftrightarrow> distinct held \<and> (\<forall>p \<in> set held. even p \<and> p \<in> used \<and> p + 1 \<in> used)"

lemma held_ok_disjoint:
  assumes "held_ok used held" "p \<in> set held" "q \<in> set held" "p \<noteq> q"
  shows "{p, p + 1} \<inter> {q, q + 1} = {}"
proof -
  have "even p" "even q" using assms by (auto simp: held_ok_def)
  then show ?thesis using \<open>p \<noteq> q\<close> by auto
qed

lemma held_ok_release:
  assumes ok: "held_ok used held" and p: "p \<in> set held"
  shows "held_ok (used - {p, p + 1}) (remove1 p held)"
proof -
  have "q \<in> used - {p, p + 1} \<and> q + 1 \<in> used - {p, p + 1}" if "q \<in> set held" "q \<noteq> p" for q
    using held_ok_disjoint [OF ok p that(1)] that ok by (auto simp: held_ok_def)
  with ok show ?thesis by (auto simp: held_ok_def dest: notin_set_remove1)
qed

locale pair_allocator =
  fixes acquire :: "'s \<Rightarrow> nat \<times> 's"
    and release :: "nat \<Rightarrow> 's \<Rightarrow> 's"
    and mark :: "nat \<Rightarrow> 's \<Rightarrow> 's"
    and used :: "'s \<Rightarrow> nat set"
    and inv :: "'s \<Rightarrow> bool"
    and in_range :: "nat \<Rightarrow> bool"
  assumes acquire_inv: "inv s \<Longrightarrow> acquire s = (p, s') \<Longrightarrow> inv s'"
    and acquire_some: "inv s \<Longrightarrow> acquire s = (p, s') \<Longrightarrow> p \<noteq> 0 \<Longrightarrow>
      even p \<and> in_range p \<and> p \<notin> used s \<and> p + 1 \<notin> used s \<and> used s' = used s \<union> {p, p + 1}"
    and acquire_zero: "inv s \<Longrightarrow> acquire s = (0, s') \<Longrightarrow> used s' = used s"
    and release_inv: "inv s \<Longrightarrow> inv (release p s)"
    and release_used: "inv s \<Longrightarrow> in_range p \<Longrightarrow> used (release p s) = used s - {p, p + 1}"
    and mark_inv: "inv s \<Longrightarrow> inv (mark p s)"
    and mark_used: "inv s \<Longrightarrow> used (mark p s) = insert p (used s)"
begin

lemma alloc_step_ok:
  assumes "alloc_step acquire release mark oper (s, held) (s', held')"
    and "inv s" "held_ok (used s) held" "\<forall>p \<in> set held. in_range p"
  shows "inv s' \<and> held_ok (used s') held' \<and> (\<forall>p \<in> set held'. in_range p)"
  using assms(1)
proof (cases rule: alloc_step.cases)
  case (acquire_ok p)
  with acquire_some [of s p s'] acquire_inv [of s p s'] assms(2-4) show ?thesis
    by (auto simp: held_ok_def)
next
  case acquire_none
  with acquire_zero [of s s'] acquire_inv [of s 0 s'] assms(2-4) show ?thesis by simp
next
  case (release p)
  with assms held_ok_release [of "used s" held p] release_used [of s p] release_inv [of s p]
  show ?thesis by (auto dest: notin_set_remove1)
next
  case (mark p)
  with assms(2-4) mark_inv mark_used show ?thesis by (auto simp: held_ok_def)
qed

lemma alloc_run_ok:
  assumes "alloc_run acquire release mark ops c c'"
    and "inv (fst c)" "held_ok (used (fst c)) (snd c)" "\<forall>p \<in> set (snd c). in_range p"
  shows "inv (fst c') \<and> held_ok (used (fst c')) (snd c') \<and> (\<forall>p \<in> set (snd c'). in_range p)"
  using assms
proof (induction rule: alloc_run.induct)
  case (run_cons x c c' xs c'')
  obtain s held s' held' where c: "c = (s, held)" "c' = (s', held')" by (cases c, cases c') auto
  with run_cons.hyps run_cons.prems alloc_step_ok [of x s held s' held'] run_cons.IH
  show ?case by simp
qed simp

lemma held_pairs_disjoint:
  assumes "alloc_run acquire release mark ops (s, []) (s', held)" "inv s"
    "p \<in> set held" "q \<in> set held" "p \<noteq> q"
  shows "{p, p + 1} \<inter> {q, q + 1} = {}"
  using alloc_run_ok [OF assms(1)] assms(2-5) held_ok_disjoint [of "used s'" held p q]
  by (simp add: held_ok_def)

end

text \<open>The pool of the proxy provides the interface; the range is that of its constructor.\<close>

definition standard_pool :: "port_pool \<Rightarrow> bool" where
  "standard_pool pp \<longleftrightarrow> pool_inv pp \<and> start_port pp = 20000 \<and> end_port pp = 40000"

interpretation ppool: pair_allocator acquire_pair release_pair mark_occupied used_ports
  standard_pool "\<lambda>p. 20000 \<le> p \<and> p < 40000"
proof (unfold_locales, goal_cases)
  case (1 s p s')
  then show ?case using acquire_pair_inv acquire_pair_frame by (auto simp: standard_pool_def)
next
  case (2 s p s')
  then show ?case using acquire_loop_fresh [of s "pairs s" p s']
    by (auto simp: standard_pool_def acquire_pair_loop)
next
  case (3 s s')
  then show ?case using acquire_loop_fail [of s "pairs s" s']
    by (auto simp: standard_pool_def acquire_pair_loop)
next
  case (4 s p)
  then show ?case by (simp add: standard_pool_def) (simp add: release_pair_def)
next
  case (5 s p)
  then show ?case by (auto simp: release_pair_def)
next
  case (6 s p)
  then show ?case by (simp add: standard_pool_def) (simp add: mark_occupied_def)
next
  case (7 s p)
  then show ?case by (simp add: mark_occupied_def)
qed

lemma standard_pool_PortPool [simp]: "standard_pool PortPool"
  by (simp add: standard_pool_def) (simp add: PortPool_def)

lemma PortPool_sel [simp]:
  "start_port PortPool = 20000" "end_port PortPool = 40000" "next_port PortPool = 20000"
  "used_ports PortPool = {}"
  by (simp_all add: PortPool_def)

section \<open>Properties\<close>

text \<open>C9: \<open>acquire_pair\<close> is sound and complete. A non-zero result is an even port of the range
  whose two ports were both free, and exactly these two become used. The result is 0 exactly when no even
  port of the range has both ports free, whatever the position of the round-robin pointer, and
  then nothing is taken.\<close>

theorem acquire_pair_correct:
  assumes "pool_inv pp" and "acquire_pair pp = (p, pp')"
  shows "if p \<noteq> 0
    then even p \<and> start_port pp \<le> p \<and> p + 1 < end_port pp \<and> p \<notin> used_ports pp \<and>
      p + 1 \<notin> used_ports pp \<and> used_ports pp' = used_ports pp \<union> {p, p + 1} \<and> pool_inv pp'
    else (\<forall>q. even q \<and> start_port pp \<le> q \<and> q < end_port pp \<longrightarrow>
        q \<in> used_ports pp \<or> q + 1 \<in> used_ports pp) \<and>
      used_ports pp' = used_ports pp \<and> pool_inv pp'"
proof (cases "p = 0")
  case True
  have "q \<in> used_ports pp \<or> q + 1 \<in> used_ports pp"
    if "even q" "start_port pp \<le> q" "q < end_port pp" for q
    using acquire_pair_exhausted [OF assms(1) assms(2) [unfolded True] that] that assms(1)
    by (auto simp: pair_free_def pool_inv_def pool_range_def)
  then show ?thesis
    using True assms acquire_loop_fail [of pp "pairs pp" pp'] acquire_pair_inv [OF assms]
    by (auto simp: acquire_pair_loop)
next
  case False
  then show ?thesis
    using assms acquire_loop_fresh [of pp "pairs pp" p pp'] acquire_pair_inv [OF assms]
    by (auto simp: acquire_pair_loop)
qed

theorem acquire_pair_correct_witness:
  "pool_inv PortPool \<and> fst (acquire_pair PortPool) = 20000 \<and>
   used_ports (snd (acquire_pair PortPool)) = {20000, 20001}"
proof -
  have p: "fst (acquire_pair PortPool) = 20000"
    using acquire_pair_first [of PortPool] by (simp add: pair_free_def)
  then show ?thesis
    using acquire_pair_correct [of PortPool 20000 "snd (acquire_pair PortPool)"]
    by (auto simp: prod_eq_iff)
qed

text \<open>Sessions never share a port. In any interleaving of acquisitions, releases by holders and
  marks of occupied ports, starting from the fresh pool, the pairs held at the same time are
  disjoint, even, and inside the range 20000 to 39999.\<close>

theorem port_pairs_exclusive:
  assumes "alloc_run acquire_pair release_pair mark_occupied ops (PortPool, []) (pp, held)"
    and "p \<in> set held" and "q \<in> set held" and "p \<noteq> q"
  shows "{p, p + 1} \<inter> {q, q + 1} = {} \<and> 20000 \<le> p \<and> p + 1 < 40000 \<and> even p"
proof -
  have ok: "held_ok (used_ports pp) held" and r: "\<forall>p \<in> set held. 20000 \<le> p \<and> p < 40000"
    using ppool.alloc_run_ok [OF assms(1)] by (auto simp: held_ok_def)
  then have "even p" "p < 40000" using assms(2) by (auto simp: held_ok_def)
  then have "p + 1 < 40000" using even_gap [of p 40000] by simp
  then show ?thesis
    using ppool.held_pairs_disjoint [OF assms(1) _ assms(2-4)] r assms(2) \<open>even p\<close> by simp
qed

lemma acquire_step_example:
  "\<exists>pp. alloc_run acquire_pair release_pair mark_occupied [Acquire, Acquire] (PortPool, [])
     (pp, [20002, 20000])"
proof -
  obtain p1 where a: "acquire_pair PortPool = (20000, p1)"
    and n: "next_port p1 = 20002"
    using acquire_pair_first [of PortPool]
    by (simp add: pair_free_def advance_def candidate_eq)
  then have i: "pool_inv p1" and u: "used_ports p1 = {20000, 20001}"
    using ppool.acquire_inv [of PortPool] ppool.acquire_some [of PortPool]
    by (auto simp: standard_pool_def)
  obtain p2 where b: "acquire_pair p1 = (20002, p2)"
    using acquire_pair_first [OF i] u n by (simp add: pair_free_def)
  have "alloc_step acquire_pair release_pair mark_occupied Acquire (PortPool, []) (p1, [20000])"
    by (rule acquire_ok) (simp_all add: a)
  moreover have "alloc_step acquire_pair release_pair mark_occupied Acquire (p1, [20000])
      (p2, [20002, 20000])"
    by (rule acquire_ok) (simp_all add: b)
  ultimately show ?thesis by (blast intro: run_cons run_nil)
qed

theorem port_pairs_exclusive_witness:
  "\<exists>pp. alloc_run acquire_pair release_pair mark_occupied [Acquire, Acquire] (PortPool, [])
     (pp, [20002, 20000]) \<and> {20000, 20000 + 1} \<inter> {20002, 20002 + 1} = ({} :: nat set)"
proof -
  obtain pp where run: "alloc_run acquire_pair release_pair mark_occupied [Acquire, Acquire]
      (PortPool, []) (pp, [20002, 20000])"
    using acquire_step_example by blast
  from port_pairs_exclusive [OF this, of 20000 20002] run show ?thesis by auto
qed

end
