(* ===== verification/Socket_Helper.thy ===== *)
theory Socket_Helper
  imports Port_Pool Inet
begin

text \<open>
  \<open>src/utils/socket_helper.cpp\<close>: creation of the listening, upstream and relay sockets. What the operating
  system answers to \<open>socket\<close>, \<open>setsockopt(SO_BINDTODEVICE)\<close>, \<open>bind\<close>, \<open>listen\<close> and \<open>connect\<close> is an input; a socket call
  that sets only options (\<open>SO_REUSEADDR\<close>, buffer sizes, \<open>TCP_NODELAY\<close>, \<open>O_NONBLOCK\<close>) has no effect on the
  model. Each function returns, besides its result, the descriptors it leaves open, so that leaks are visible.
\<close>

section \<open>Operations\<close>

record sys_answers =
  sock :: int           \<comment> \<open>the descriptor, negative on failure\<close>
  device_ok :: bool     \<comment> \<open>\<open>SO_BINDTODEVICE\<close> succeeds\<close>
  bind_ok :: bool
  listen_ok :: bool
  connect_ok :: bool    \<comment> \<open>connected or in progress\<close>

text \<open>\<open>create_listen_socket\<close>: the result and the descriptors left open.\<close>

definition create_listen_socket :: "sys_answers \<Rightarrow> string \<Rightarrow> int \<times> int list" where
  "create_listen_socket a iface =
     (if sock a < 0 then (-1, [])
      else if iface \<noteq> [] \<and> \<not> device_ok a then (-1, [])
      else if \<not> bind_ok a then (-1, [sock a])
      else if \<not> listen_ok a then (-1, [sock a])
      else (sock a, [sock a]))"

text \<open>\<open>create_nonblocking_tcp\<close>: the result, the address and port the connection goes to, and the descriptors
  left open. The result of \<open>inet_pton\<close> is ignored, so for text that is no address the zero-initialised
  address stays.\<close>

definition create_nonblocking_tcp ::
  "sys_answers \<Rightarrow> string \<Rightarrow> u16 \<Rightarrow> string \<Rightarrow> int \<times> (u32 \<times> u16) option \<times> int list" where
  "create_nonblocking_tcp a ip port iface =
     (if iface \<noteq> [] \<and> (sock a < 0 \<or> \<not> device_ok a) then (-1, None, [])
      else
        (let addr = (case inet_pton ip of Some v \<Rightarrow> v | None \<Rightarrow> 0) in
         if sock a < 0 then (-1, Some (addr, port), [])
         else if \<not> connect_ok a then (-1, Some (addr, port), [sock a])
         else (sock a, Some (addr, port), [sock a])))"

text \<open>\<open>bind_udp_socket\<close>: the result, the new value of the descriptor and the descriptors left open.\<close>

definition bind_udp_socket :: "sys_answers \<Rightarrow> string \<Rightarrow> int \<times> int \<times> int list" where
  "bind_udp_socket a iface =
     (if sock a < 0 then (-1, sock a, [])
      else if iface \<noteq> [] \<and> \<not> device_ok a then (-1, sock a, [])
      else if \<not> bind_ok a then (-1, sock a, [sock a])
      else (0, sock a, [sock a]))"

text \<open>\<open>bind_udp_socket_with_retry\<close>: the answers and the random port of each attempt; the result, the descriptor,
  the port and the descriptors left open.\<close>

fun retry_loop :: "(sys_answers \<times> u16) list \<Rightarrow> nat \<Rightarrow> string \<Rightarrow> int \<Rightarrow> u16 \<Rightarrow> int \<times> int \<times> u16 \<times> int list" where
  "retry_loop ((a, p) # as) (Suc n) iface fd port =
     (if sock a < 0 then (-1, sock a, port, [])
      else if bind_ok a then
        (if iface \<noteq> [] \<and> \<not> device_ok a then (-1, sock a, p, []) else (0, sock a, p, [sock a]))
      else retry_loop as n iface (sock a) p)"
| "retry_loop _ _ iface fd port = (-1, fd, port, [])"

definition bind_udp_socket_with_retry ::
  "(sys_answers \<times> u16) list \<Rightarrow> nat \<Rightarrow> string \<Rightarrow> int \<Rightarrow> u16 \<Rightarrow> int \<times> int \<times> u16 \<times> int list" where
  "bind_udp_socket_with_retry as max_attempts iface fd port = retry_loop as max_attempts iface fd port"

text \<open>\<open>bind_udp_pair_from_pool\<close>: up to ten pairs. The answers come per attempt, for the RTP and for the RTCP
  socket.\<close>

record pair_state =
  rtp_fd :: int
  rtcp_fd :: int
  rtp_port :: nat
  ports :: port_pool
  open_fds :: "int list"

fun bind_pair_loop ::
  "nat \<Rightarrow> (nat \<Rightarrow> sys_answers \<times> sys_answers) \<Rightarrow> string \<Rightarrow> pair_state \<Rightarrow> int \<times> pair_state" where
  "bind_pair_loop 0 env iface st = (-1, st)"
| "bind_pair_loop (Suc n) env iface st =
     (let (p, pool1) = acquire_pair (ports st);
          st1 = st\<lparr>rtp_port := p, ports := pool1\<rparr>
      in if p = 0 then (-1, st1)
         else
           (let (rc1, fd1, left1) = bind_udp_socket (fst (env n)) iface;
                st2 = st1\<lparr>rtp_fd := fd1, open_fds := left1 @ open_fds st1\<rparr>
            in if rc1 = 0 then
                 (let (rc2, fd2, left2) = bind_udp_socket (snd (env n)) iface;
                      st3 = st2\<lparr>rtcp_fd := fd2, open_fds := left2 @ open_fds st2\<rparr>
                  in if rc2 = 0 then (0, st3)
                     else bind_pair_loop n env iface
                            (st3\<lparr>rtp_fd := -1, open_fds := remove1 fd1 (open_fds st3),
                                 ports := mark_occupied ((p + 1) mod 65536) pool1\<rparr>))
               else bind_pair_loop n env iface (st2\<lparr>ports := mark_occupied p pool1\<rparr>)))"

definition bind_udp_pair_from_pool ::
  "(nat \<Rightarrow> sys_answers \<times> sys_answers) \<Rightarrow> string \<Rightarrow> pair_state \<Rightarrow> int \<times> pair_state" where
  "bind_udp_pair_from_pool env iface st = bind_pair_loop 10 env iface st"

section \<open>Binding a pair\<close>

lemma bind_udp_socket_ok: "bind_udp_socket a iface = (0, fd, left) \<Longrightarrow> fd = sock a \<and> left = [fd] \<and> 0 \<le> fd \<and> bind_ok a"
  by (auto simp: bind_udp_socket_def split: if_splits)

lemma bind_udp_socket_rc: "bind_udp_socket a iface = (rc, fd, left) \<Longrightarrow> rc = 0 \<or> rc = -1"
  by (auto simp: bind_udp_socket_def split: if_splits)

text \<open>What one attempt does, by its outcome.\<close>

lemma bind_pair_step:
  obtains (none) pool1 where "acquire_pair (ports st) = (0, pool1)"
      "bind_pair_loop (Suc n) env iface st = (-1, st\<lparr>rtp_port := 0, ports := pool1\<rparr>)"
    | (both) p pool1 fd1 fd2 where "acquire_pair (ports st) = (p, pool1)" "p \<noteq> 0" "0 \<le> fd1" "0 \<le> fd2"
      "bind_pair_loop (Suc n) env iface st =
        (0, st\<lparr>rtp_fd := fd1, rtcp_fd := fd2, rtp_port := p, ports := pool1,
               open_fds := fd2 # fd1 # open_fds st\<rparr>)"
    | (retry) p pool1 q st' where "acquire_pair (ports st) = (p, pool1)" "p \<noteq> 0" "q = p \<or> q = (p + 1) mod 65536"
      "ports st' = mark_occupied q pool1" "rtp_port st' = p"
      "bind_pair_loop (Suc n) env iface st = bind_pair_loop n env iface st'"
proof -
  obtain p pool1 where acq: "acquire_pair (ports st) = (p, pool1)" by (cases "acquire_pair (ports st)")
  obtain rc1 fd1 left1 where b1: "bind_udp_socket (fst (env n)) iface = (rc1, fd1, left1)"
    by (cases "bind_udp_socket (fst (env n)) iface") auto
  obtain rc2 fd2 left2 where b2: "bind_udp_socket (snd (env n)) iface = (rc2, fd2, left2)"
    by (cases "bind_udp_socket (snd (env n)) iface") auto
  consider "p = 0" | "p \<noteq> 0" "rc1 \<noteq> 0" | "p \<noteq> 0" "rc1 = 0" "rc2 \<noteq> 0" | "p \<noteq> 0" "rc1 = 0" "rc2 = 0" by blast
  then show thesis
  proof cases
    case 1
    with acq show ?thesis by (cases st, intro none, auto)
  next
    case 2
    with acq b1 show ?thesis
      by (cases st, intro retry [of p pool1 p "st\<lparr>rtp_fd := fd1, rtp_port := p, ports := mark_occupied p pool1,
            open_fds := left1 @ open_fds st\<rparr>"], auto)
  next
    case 3
    with acq b1 b2 show ?thesis
      by (cases st, intro retry [of p pool1 "(p + 1) mod 65536" "st\<lparr>rtp_fd := -1, rtcp_fd := fd2, rtp_port := p,
            ports := mark_occupied ((p + 1) mod 65536) pool1,
            open_fds := remove1 fd1 (left2 @ left1 @ open_fds st)\<rparr>"], auto)
  next
    case 4
    with acq b1 b2 bind_udp_socket_ok [of "fst (env n)"] bind_udp_socket_ok [of "snd (env n)"]
    show ?thesis by (cases st, intro both [of p pool1 fd1 fd2], auto)
  qed
qed

declare bind_pair_loop.simps(2) [simp del]

lemma mark_occupied_own:
  assumes "standard_pool pp" and "acquire_pair pp = (p, pool1)" and "p \<noteq> 0" and "q = p \<or> q = (p + 1) mod 65536"
  shows "standard_pool (mark_occupied q pool1) \<and> used_ports (mark_occupied q pool1) = used_ports pp \<union> {p, p + 1} \<and>
    even p \<and> 20000 \<le> p \<and> p < 40000 \<and> p \<notin> used_ports pp \<and> p + 1 \<notin> used_ports pp"
proof -
  note a = ppool.acquire_some [OF assms(1-3)]
  moreover have "standard_pool pool1" using assms by (metis ppool.acquire_inv)
  moreover have "(p + 1) mod 65536 = p + 1" using a by simp
  ultimately show ?thesis using assms(4) ppool.mark_inv [of pool1 q] ppool.mark_used [of pool1 q] by auto
qed

text \<open>Every pair tried stays marked: the pairs that could not be bound, and on success the pair returned.\<close>

lemma bind_pair_loop_ok:
  assumes "bind_pair_loop n env iface st = (rc, st')" and "standard_pool (ports st)"
  shows "\<exists>tried. distinct tried \<and> length tried \<le> n \<and>
      (\<forall>q \<in> set tried. even q \<and> 20000 \<le> q \<and> q < 40000 \<and> q \<notin> used_ports (ports st) \<and> q + 1 \<notin> used_ports (ports st)) \<and>
      used_ports (ports st') = used_ports (ports st) \<union> (\<Union>q \<in> set tried. {q, q + 1}) \<and> standard_pool (ports st') \<and>
      (rc = 0 \<longrightarrow> rtp_port st' \<in> set tried \<and> 0 \<le> rtp_fd st' \<and> 0 \<le> rtcp_fd st' \<and>
         {rtp_fd st', rtcp_fd st'} \<subseteq> set (open_fds st')) \<and>
      (rc = 0 \<or> rc = -1) \<and> rtp_port st' \<in> insert 0 (insert (rtp_port st) (set tried))"
  using assms
proof (induction n arbitrary: st)
  case 0
  then show ?case by (intro exI [of _ "[]"]) auto
next
  case (Suc n)
  show ?case
  proof (cases rule: bind_pair_step [of st n env iface])
    case (none pool1)
    then show ?thesis
      using Suc.prems ppool.acquire_zero [of "ports st" pool1] ppool.acquire_inv [of "ports st" 0 pool1]
      by (intro exI [of _ "[]"]) auto
  next
    case (both p pool1 fd1 fd2)
    then show ?thesis
      using Suc.prems ppool.acquire_some [of "ports st" p pool1] ppool.acquire_inv [of "ports st" p pool1]
      by (intro exI [of _ "[p]"]) auto
  next
    case (retry p pool1 q st1)
    have m: "standard_pool (ports st1)" "used_ports (ports st1) = used_ports (ports st) \<union> {p, p + 1}"
      "even p" "20000 \<le> p" "p < 40000" "p \<notin> used_ports (ports st)" "p + 1 \<notin> used_ports (ports st)"
      using mark_occupied_own [OF Suc.prems(2) retry(1-3)] retry(4) by auto
    have "bind_pair_loop n env iface st1 = (rc, st')" using Suc.prems(1) retry(6) by simp
    from Suc.IH [OF this m(1)] obtain tried where t: "distinct tried" "length tried \<le> n"
      "\<forall>q \<in> set tried. even q \<and> 20000 \<le> q \<and> q < 40000 \<and> q \<notin> used_ports (ports st1) \<and> q + 1 \<notin> used_ports (ports st1)"
      "used_ports (ports st') = used_ports (ports st1) \<union> (\<Union>q \<in> set tried. {q, q + 1})" "standard_pool (ports st')"
      "rc = 0 \<longrightarrow> rtp_port st' \<in> set tried \<and> 0 \<le> rtp_fd st' \<and> 0 \<le> rtcp_fd st' \<and>
         {rtp_fd st', rtcp_fd st'} \<subseteq> set (open_fds st')"
      "rc = 0 \<or> rc = -1" "rtp_port st' \<in> insert 0 (insert p (set tried))" unfolding retry(5) by (elim exE conjE) (rule that, assumption+)
    have "p \<notin> set tried" using t(3) m(2) by auto
    show ?thesis
    proof (intro exI [of _ "p # tried"] conjI)
      show "distinct (p # tried)" "length (p # tried) \<le> Suc n" using t(1,2) \<open>p \<notin> set tried\<close> by simp_all
      show "\<forall>q \<in> set (p # tried). even q \<and> 20000 \<le> q \<and> q < 40000 \<and> q \<notin> used_ports (ports st) \<and>
          q + 1 \<notin> used_ports (ports st)"
        using t(3) m(2-) by simp
      show "used_ports (ports st') = used_ports (ports st) \<union> (\<Union>q \<in> set (p # tried). {q, q + 1})"
        using t(4) m(2) by auto
      show "rc = 0 \<longrightarrow> rtp_port st' \<in> set (p # tried) \<and> 0 \<le> rtp_fd st' \<and> 0 \<le> rtcp_fd st' \<and>
         {rtp_fd st', rtcp_fd st'} \<subseteq> set (open_fds st')"
        using t(6) by simp
      show "rtp_port st' \<in> insert 0 (insert (rtp_port st) (set (p # tried)))" using t(8) by auto
    qed (use t(5,7) in simp_all)
  qed
qed

section \<open>Properties\<close>

text \<open>The relay port pair. Binding tries at most ten different pairs that nobody held; every pair tried
  stays marked in the pool (those that failed too, both ports, and for good), and nothing else changes there. On
  success the port returned is the even port of such a pair, so no other session holds it, and both
  sockets are open.\<close>

theorem bind_pair_exclusive:
  assumes "bind_udp_pair_from_pool env iface st = (rc, st')" and "standard_pool (ports st)"
  shows "\<exists>tried. distinct tried \<and> length tried \<le> 10 \<and>
      (\<forall>q \<in> set tried. even q \<and> 20000 \<le> q \<and> q < 40000 \<and> q \<notin> used_ports (ports st) \<and> q + 1 \<notin> used_ports (ports st)) \<and>
      used_ports (ports st') = used_ports (ports st) \<union> (\<Union>q \<in> set tried. {q, q + 1}) \<and>
      (rc = 0 \<longrightarrow> rtp_port st' \<in> set tried \<and> 0 \<le> rtp_fd st' \<and> 0 \<le> rtcp_fd st' \<and>
         {rtp_fd st', rtcp_fd st'} \<subseteq> set (open_fds st'))"
  using bind_pair_loop_ok [of 10 env iface st rc st'] assms by (auto simp: bind_udp_pair_from_pool_def)

definition ok_answers :: "int \<Rightarrow> sys_answers" where
  "ok_answers fd = \<lparr>sock = fd, device_ok = True, bind_ok = True, listen_ok = True, connect_ok = True\<rparr>"

definition fresh_pair :: pair_state where
  "fresh_pair = \<lparr>rtp_fd = -1, rtcp_fd = -1, rtp_port = 0, ports = PortPool, open_fds = []\<rparr>"

theorem bind_pair_exclusive_witness:
  "\<exists>st'. bind_udp_pair_from_pool (\<lambda>_. (ok_answers 7, ok_answers 8)) [] fresh_pair = (0, st') \<and>
     rtp_port st' \<notin> used_ports PortPool \<and> {rtp_port st', rtp_port st' + 1} \<subseteq> used_ports (ports st')"
proof -
  obtain p pool1 where acq: "acquire_pair PortPool = (p, pool1)" by (cases "acquire_pair PortPool")
  have "p \<noteq> 0"
  proof
    assume "p = 0"
    with acq have "(20000::nat) \<in> used_ports PortPool \<or> (20001::nat) \<in> used_ports PortPool"
      using acquire_pair_exhausted [of PortPool pool1 20000] by (auto simp: pair_free_def)
    then show False by simp
  qed
  with acq obtain st' where st': "bind_udp_pair_from_pool (\<lambda>_. (ok_answers 7, ok_answers 8)) [] fresh_pair = (0, st')"
    by (simp add: bind_udp_pair_from_pool_def fresh_pair_def eval_nat_numeral bind_pair_loop.simps(2)
        bind_udp_socket_def ok_answers_def)
  from bind_pair_exclusive [OF st'] obtain tried where "rtp_port st' \<in> set tried"
    "used_ports (ports st') = (\<Union>q \<in> set tried. {q, q + 1})"
    by (auto simp: fresh_pair_def)
  with st' show ?thesis by (auto simp: fresh_pair_def)
qed

text \<open>The upstream connection goes to the address the text of the host denotes; but text that is no dotted
  address, such as a host name, does not fail: the connection then goes to \<open>0.0.0.0\<close>, this host.\<close>

theorem upstream_connect_target:
  assumes "create_nonblocking_tcp a ip port iface = (fd, target, left)" and "0 \<le> fd"
  shows "target = Some ((case inet_pton ip of Some v \<Rightarrow> v | None \<Rightarrow> 0), port) \<and> left = [fd]"
  using assms by (auto simp: create_nonblocking_tcp_def Let_def split: if_splits)

theorem upstream_connect_target_witness:
  "\<exists>target left. create_nonblocking_tcp (ok_answers 9) ''camera.local'' 554 [] = (9, target, left) \<and> target = Some (0, 554)"
proof -
  have "inet_pton ''camera.local'' = None" by code_simp
  moreover obtain target left where t: "create_nonblocking_tcp (ok_answers 9) ''camera.local'' 554 [] = (9, target, left)"
    by (simp add: create_nonblocking_tcp_def ok_answers_def Let_def)
  ultimately show ?thesis using upstream_connect_target [OF t] by simp
qed

end
