(* ===== verification/Client_Base.thy ===== *)
theory Client_Base
  imports Buffer_Pool Rtp_Pipeline Stun_Client Rtsp_Parser Server_Config Socket_Helper
begin

text \<open>
  What the two streaming clients share: the events they wait for, the effects their handlers have on
  sockets, timers and counters, what the system answers to \<open>recv\<close> and \<open>send\<close>, the queue of blocks towards the downstream
  socket, and the payload of the ZTE heartbeat. The effects of a handler are a list in program order: a call of
  \<open>EpollLoop::set\<close> is \<open>Watch\<close>, \<open>send\<close> and \<open>sendto\<close> are \<open>SendTcp\<close> and \<open>SendUdp\<close>, the counters of \<open>Statistics\<close> and of the bandwidth
  estimators are \<open>AddUp\<close>, \<open>AddDown\<close>, \<open>EstUp\<close> and \<open>EstDown\<close>, and the call of the closing callback, which schedules the removal of
  the client, is \<open>ClosedCallback\<close>. Logging is left out.
\<close>

datatype epoll_flag = EPOLLIN | EPOLLOUT | EPOLLRDHUP | EPOLLHUP | EPOLLERR

datatype sock_role = DownstreamSock | UpstreamSock | RtpUp | RtcpUp | RtpDown | RtcpDown | TimerFd

type_synonym sockaddr = "u32 \<times> u16"

datatype effect =
    Watch sock_role "epoll_flag list"
  | Unwatch sock_role
  | SendTcp sock_role string
  | SendUdp sock_role "u8 list" sockaddr
  | StunRequest
  | StartTimer nat
  | AddUp nat
  | AddDown nat
  | EstUp nat
  | EstDown nat
  | ClosedCallback

text \<open>A chain of \<open>recv\<close> calls delivers chunks and ends; a \<open>send\<close> takes a number of bytes, at most those
  offered, or fails.\<close>

datatype recv_end = RecvWouldBlock | RecvEof | RecvError

datatype send_result = Sent nat | SendWouldBlock | SendError

datatype 's step = Break 's | Continue 's | Return 's

text \<open>The length field of an interleaved frame, \<open>ntohs\<close> of its third and fourth byte.\<close>

definition frame_len :: "string \<Rightarrow> nat" where
  "frame_len s = 256 * of_char (s ! 2) + of_char (s ! 3)"

text \<open>\<open>recvfrom\<close> into a block: a datagram longer than the block is cut.\<close>

definition fill :: "u8 list \<Rightarrow> u8 list \<Rightarrow> u8 list" where
  "fill buf dat = take (length buf) dat @ drop (length dat) buf"

lemma fill_length [simp]: "length (fill buf dat) = length buf"
  by (simp add: fill_def)

section \<open>Configuration\<close>

definition pipe_cfg :: "server_config \<Rightarrow> pipeline_cfg" where
  "pipe_cfg cfg = \<lparr>pipeline_cfg.strip_padding = server_config.strip_padding cfg,
                   pipeline_cfg.wait_keyframe = server_config.wait_keyframe cfg\<rparr>"

text \<open>\<open>ServerConfig::isNatEnabled() && ServerConfig::getNatMethod() == "..."\<close>.\<close>

definition nat_zte :: "server_config \<Rightarrow> bool" where
  "nat_zte cfg \<longleftrightarrow> enable_nat cfg \<and> nat_method cfg = ''zte''"

definition nat_stun :: "server_config \<Rightarrow> bool" where
  "nat_stun cfg \<longleftrightarrow> enable_nat cfg \<and> nat_method cfg = ''stun''"

section \<open>ZTE heartbeat\<close>

text \<open>The 84 bytes of \<open>send_zte_heartbeat\<close>; without a local address the four bytes stay zero.\<close>

definition zte_payload :: "string \<Rightarrow> u16 \<Rightarrow> u16 \<Rightarrow> u8 list" where
  "zte_payload local_ip udp_port tcp_port =
     bytes_of ''ZXV10STB'' @ [0x7F, 0xFF, 0xFF, 0xFF] @
     (case inet_pton local_ip of Some a \<Rightarrow> htonl a | None \<Rightarrow> [0, 0, 0, 0]) @
     htons udp_port @ htons tcp_port @ replicate 64 0"

lemma zte_payload_length: "length (zte_payload ip u t) = 84"
  by (simp add: zte_payload_def split: option.splits)

section \<open>Queues of packets\<close>

text \<open>The bytes of a packet that are still to be sent.\<close>

definition remaining :: "packet \<Rightarrow> u8 list" where
  "remaining p = drop (pkt_offset p) (take (pkt_length p) (pkt_data p))"

definition pending :: "packet list \<Rightarrow> u8 list" where
  "pending q = concat (map remaining q)"

definition pkt_ok :: "nat \<Rightarrow> packet \<Rightarrow> bool" where
  "pkt_ok bsize p \<longleftrightarrow> length (pkt_data p) = bsize \<and> pkt_length p \<le> bsize \<and> pkt_offset p \<le> pkt_length p"

text \<open>A queue owns its blocks: together with \<open>k\<close> blocks lent elsewhere they are all the blocks on loan.\<close>

definition owns :: "nat \<Rightarrow> packet list \<Rightarrow> buffer_pool \<Rightarrow> bool" where
  "owns k q bp \<longleftrightarrow> bp_inv bp \<and> on_loan bp = k + length q \<and> list_all (pkt_ok (get_buffer_size bp)) q"

lemma pending_simps [simp]:
  "pending [] = []" "pending (p # q) = remaining p @ pending q" "pending (q @ q') = pending q @ pending q'"
  by (simp_all add: pending_def)

lemma length_remaining: "pkt_ok bsize p \<Longrightarrow> length (remaining p) = pkt_length p - pkt_offset p"
  by (simp add: remaining_def pkt_ok_def)

text \<open>Sending some bytes of a packet.\<close>

lemma remaining_advance:
  assumes "pkt_ok bsize p" and "n \<le> pkt_length p - pkt_offset p"
  shows "remaining p = take n (remaining p) @ remaining (p\<lparr>pkt_offset := pkt_offset p + n\<rparr>) \<and>
    pkt_ok bsize (p\<lparr>pkt_offset := pkt_offset p + n\<rparr>)"
proof
  have "remaining (p\<lparr>pkt_offset := pkt_offset p + n\<rparr>) = drop n (remaining p)"
    by (simp add: remaining_def add.commute)
  then show "remaining p = take n (remaining p) @ remaining (p\<lparr>pkt_offset := pkt_offset p + n\<rparr>)" by simp
  show "pkt_ok bsize (p\<lparr>pkt_offset := pkt_offset p + n\<rparr>)" using assms by (auto simp: pkt_ok_def)
qed

lemma owns_pop:
  assumes "owns k (p # q) bp"
  shows "owns k q (release (pkt_data p) bp) \<and>
    get_buffer_size (release (pkt_data p) bp) = get_buffer_size bp"
proof -
  have l: "length (pkt_data p) = get_buffer_size bp" "0 < on_loan bp" "bp_inv bp"
    using assms by (auto simp: owns_def pkt_ok_def)
  then show ?thesis
    using assms bpool.rel_ok [OF l(3,1,2)] bpool.rel_size [OF l(3,1,2)] bpool.rel_loan [OF l(3,1,2)]
    by (auto simp: owns_def)
qed

lemma owns_push:
  assumes "owns (Suc k) q bp" and "pkt_ok (get_buffer_size bp) p"
  shows "owns k (q @ [p]) bp"
  using assms by (simp add: owns_def)

lemma owns_acquire:
  assumes "owns k q bp" and "acquire bp = (b, bp')"
  shows "owns (Suc k) q bp' \<and> length b = get_buffer_size bp \<and> get_buffer_size bp' = get_buffer_size bp"
  using assms bpool.acq_ok [of bp b bp'] bpool.acq_block [of bp b bp'] bpool.acq_size [of bp b bp']
    bpool.acq_loan [of bp b bp']
  by (auto simp: owns_def)

lemma owns_release:
  assumes "owns (Suc k) q bp" and "length b = get_buffer_size bp"
  shows "owns k q (release b bp) \<and> get_buffer_size (release b bp) = get_buffer_size bp"
proof -
  have l: "0 < on_loan bp" "bp_inv bp" using assms by (auto simp: owns_def)
  show ?thesis
    using assms bpool.rel_ok [OF l(2) assms(2) l(1)] bpool.rel_size [OF l(2) assms(2) l(1)]
      bpool.rel_loan [OF l(2) assms(2) l(1)]
    by (auto simp: owns_def)
qed

text \<open>Giving back the whole queue.\<close>

lemma owns_release_all:
  assumes "owns k q bp"
  shows "owns k [] (fold (\<lambda>p. release (pkt_data p)) q bp)"
  using assms by (induction q arbitrary: bp) (auto dest: owns_pop)

text \<open>A full queue drops its oldest packet before a new one is added.\<close>

definition push_bounded :: "nat \<Rightarrow> packet \<Rightarrow> packet list \<Rightarrow> buffer_pool \<Rightarrow> packet list \<times> buffer_pool" where
  "push_bounded limit p q bp =
     (if length q > limit
      then (case q of old # q' \<Rightarrow> (q' @ [p], release (pkt_data old) bp) | [] \<Rightarrow> ([p], bp))
      else (q @ [p], bp))"

lemma push_bounded_owns:
  assumes "push_bounded limit p q bp = (q', bp')" and "owns (Suc k) q bp" and "pkt_ok (get_buffer_size bp) p"
  shows "owns k q' bp' \<and> get_buffer_size bp' = get_buffer_size bp"
proof (cases "length q > limit")
  case False
  with assms owns_push [of k q bp p] show ?thesis by (simp add: push_bounded_def)
next
  case True
  then obtain old q1 where q: "q = old # q1" by (cases q) auto
  with assms(2) owns_pop [of "Suc k" old q1 bp]
  have o: "owns (Suc k) q1 (release (pkt_data old) bp)" "get_buffer_size (release (pkt_data old) bp) = get_buffer_size bp"
    by simp_all
  with assms(3) owns_push [of k q1 "release (pkt_data old) bp" p] True q assms(1) show ?thesis
    by (simp add: push_bounded_def)
qed

lemma push_bounded_length:
  "push_bounded limit p q bp = (q', bp') \<Longrightarrow> length q \<le> limit + 1 \<Longrightarrow> length q' \<le> limit + 1"
  by (cases q) (auto simp: push_bounded_def split: if_splits)

end
