(* ===== verification/Http_Client.thy ===== *)
theory Http_Client
  imports Client_Base
begin

text \<open>
  \<open>src/clients/rtsp_to_http_client.cpp\<close>: one HTTP session. The client drives an RTSP session with the upstream server
  (OPTIONS, DESCRIBE, SETUP, PLAY), receives RTP over UDP or interleaved in the RTSP connection, and sends the
  payloads to the HTTP client through a bounded queue of pool blocks. The record has the members of the class; the buffer pool
  and the port pool it shares with the other clients are part of the state of a handler, and \<open>out\<close> collects the effects.
  A handler that would access memory outside a block has no result. The closing callback is
  installed by the dispatcher right after construction, before any handler runs; only
  the constructor runs without it.
\<close>

section \<open>State\<close>

datatype RtspMethod = OPTIONS | DESCRIBE | SETUP | PLAY | PAUSE | TEARDOWN | GET_PARAMETER | SET_PARAMETER

datatype RtspState = INIT | CONNECTING | CONNECTED | STREAMING

record RtspRequest =
  req_method :: RtspMethod
  req_uri :: string
  req_headers :: string
  req_body :: string
  req_cseq :: int

record http_client =
  hctx :: rtspCtx
  wait_for_keyframe :: bool
  hstate :: RtspState
  cseq :: int
  req_buf :: string
  resp_buf :: string
  tcp_send_offset :: nat
  request_queue :: "RtspRequest list"
  current_request :: RtspRequest
  hrtp_port :: u16
  server_rtp_addr :: sockaddr
  server_rtcp_addr :: sockaddr
  is_closed :: bool
  is_init_ok :: bool
  is_tcp_mode :: bool
  interleaved_rtp_channel :: u8
  interleaved_rtcp_channel :: u8
  setup_retry_with_tcp :: bool
  local_ip :: string
  local_tcp_port :: u16
  nat_wan_ip :: string
  nat_wan_port :: u16
  send_queue :: "packet list"
  blocks :: buffer_pool
  hports :: port_pool
  has_callback :: bool
  out :: "effect list"

definition emit :: "effect \<Rightarrow> http_client \<Rightarrow> http_client" where
  "emit e st = st\<lparr>out := out st @ [e]\<rparr>"

section \<open>Requests\<close>

fun RtspMethodToString :: "RtspMethod \<Rightarrow> string" where
  "RtspMethodToString OPTIONS = ''OPTIONS''"
| "RtspMethodToString DESCRIBE = ''DESCRIBE''"
| "RtspMethodToString SETUP = ''SETUP''"
| "RtspMethodToString PLAY = ''PLAY''"
| "RtspMethodToString PAUSE = ''PAUSE''"
| "RtspMethodToString TEARDOWN = ''TEARDOWN''"
| "RtspMethodToString GET_PARAMETER = ''GET_PARAMETER''"
| "RtspMethodToString SET_PARAMETER = ''SET_PARAMETER''"

definition push_request_into_queue ::
  "RtspMethod \<Rightarrow> string \<Rightarrow> string \<Rightarrow> string \<Rightarrow> http_client \<Rightarrow> http_client" where
  "push_request_into_queue m uri extra_headers body st =
     st\<lparr>request_queue := request_queue st @
          [\<lparr>req_method = m, req_uri = uri, req_headers = extra_headers, req_body = body, req_cseq = cseq st\<rparr>],
        cseq := cseq st + 1\<rparr>"

text \<open>The text of a request.\<close>

definition request_text :: "string \<Rightarrow> RtspRequest \<Rightarrow> string" where
  "request_text sid r =
     RtspMethodToString (req_method r) @ '' '' @ req_uri r @ '' RTSP/1.0'' @ CRLF @
     ''CSeq: '' @ to_string_int (req_cseq r) @ CRLF @
     (if sid \<noteq> [] then ''Session: '' @ sid @ CRLF else []) @
     req_headers r @
     (if req_body r \<noteq> []
      then ''Content-Length: '' @ to_string (length (req_body r)) @ CRLF @ CRLF @ req_body r
      else CRLF)"

definition build_and_send_request :: "http_client \<Rightarrow> http_client" where
  "build_and_send_request st = (case request_queue st of [] \<Rightarrow> st
     | r # rs \<Rightarrow> emit (Watch UpstreamSock [EPOLLOUT])
         (st\<lparr>current_request := r, request_queue := rs,
             req_buf := request_text (session_id (hctx st)) r, tcp_send_offset := 0\<rparr>))"

definition request_uri :: "rtspCtx \<Rightarrow> string" where
  "request_uri ctx = ''rtsp://'' @ server_ip ctx @ '':'' @ to_string (unat (server_rtsp_port ctx)) @ path ctx"

text \<open>\<open>connect_server\<close>: on failure the state stays as it is.\<close>

definition connect_server :: "server_config \<Rightarrow> sys_answers \<Rightarrow> http_client \<Rightarrow> http_client" where
  "connect_server cfg a st =
     (case create_nonblocking_tcp a (server_ip (hctx st)) (server_rtsp_port (hctx st)) (http_upstream_interface cfg) of
        (fd, target, left) \<Rightarrow>
          (if fd < 0 then (if has_callback st then emit ClosedCallback st else st)
           else (emit (Watch UpstreamSock [EPOLLOUT]) st)\<lparr>hstate := CONNECTING\<rparr>))"

definition send_rtsp_option :: "server_config \<Rightarrow> sys_answers \<Rightarrow> http_client \<Rightarrow> http_client" where
  "send_rtsp_option cfg a st =
     (let st1 = connect_server cfg a st
      in build_and_send_request (push_request_into_queue OPTIONS (request_uri (hctx st1)) [] [] st1))"

definition send_rtsp_describe :: "server_config \<Rightarrow> http_client \<Rightarrow> http_client" where
  "send_rtsp_describe cfg st =
     (let headers = ''Accept: application/sdp'' @ CRLF @
        (if nat_zte cfg then
           ''User-Agent: HMTL RTSP 1.0; CTC/2.0'' @ CRLF @
           ''x-NAT: '' @ local_ip st @ '':'' @ to_string (unat (local_tcp_port st)) @ CRLF @
           ''Timeshift: 1'' @ CRLF @ ''x-BurstSize: 1048576'' @ CRLF
         else [])
      in build_and_send_request (push_request_into_queue DESCRIBE (request_uri (hctx st)) headers [] st))"

text \<open>The track of the first medium with format 33 (MPEG-TS).\<close>

fun find_track :: "Media list \<Rightarrow> string" where
  "find_track [] = []"
| "find_track (m # ms) = (if ''33'' \<in> set (formats m) then trackID m else find_track ms)"

definition setup_header :: "server_config \<Rightarrow> http_client \<Rightarrow> string" where
  "setup_header cfg st =
     (let port1 = (if nat_wan_port st \<noteq> 0 then unat (nat_wan_port st) else unat (hrtp_port st));
          port2 = port1 + 1
      in if setup_retry_with_tcp st then ''Transport: RTP/AVP/TCP;unicast;interleaved=0-1'' @ CRLF
         else if nat_zte cfg then
           ''Transport: MP2T/RTP/UDP;unicast;client_address='' @ local_ip st @
           '';client_port='' @ to_string port1 @ ''-'' @ to_string port2 @ '';mode=PLAY'' @ CRLF @
           ''User-Agent: HMTL RTSP 1.0; CTC/2.0'' @ CRLF @
           ''x-NAT: '' @ local_ip st @ '':'' @ to_string (unat (local_tcp_port st)) @ CRLF
         else
           ''Transport: RTP/AVP;unicast;client_port='' @ to_string port1 @ ''-'' @ to_string port2 @ CRLF)"

definition setup_base_url :: "rtspCtx \<Rightarrow> string" where
  "setup_base_url ctx =
     (if content_base ctx \<noteq> [] then content_base ctx
      else (let u = request_uri ctx in case str_find ''?'' u of None \<Rightarrow> u | Some q \<Rightarrow> take q u))"

definition send_rtsp_setup :: "server_config \<Rightarrow> string \<Rightarrow> http_client \<Rightarrow> http_client" where
  "send_rtsp_setup cfg sdp_data st0 =
     (let st = (if sdp_data \<noteq> [] then st0\<lparr>hctx := parseSDP sdp_data (hctx st0)\<rparr> else st0);
          track = find_track (media_streams (sdp (hctx st)))
      in if track = [] then emit ClosedCallback st
         else
           (let base_url = setup_base_url (hctx st);
                base_url1 = (if base_url \<noteq> [] \<and> last base_url \<noteq> CHR ''/'' \<and> hd track \<noteq> CHR ''*''
                             then base_url @ ''/'' else base_url)
            in build_and_send_request
                 (push_request_into_queue SETUP (base_url1 @ track) (setup_header cfg st) [] st)))"

definition send_rtsp_play :: "server_config \<Rightarrow> http_client \<Rightarrow> http_client" where
  "send_rtsp_play cfg st =
     (let base_url = (if content_base (hctx st) \<noteq> [] then content_base (hctx st) else request_uri (hctx st));
          header = (if nat_zte cfg then
              (if str_find ''?'' (path (hctx st)) = None then ''Range: clock=end-'' @ CRLF
               else ''Range: npt=0.000-'' @ CRLF) @
              ''User-Agent: HMTL RTSP 1.0; CTC/2.0'' @ CRLF @ ''x-BurstSize: 1048576'' @ CRLF @
              ''Scale: 1.0'' @ CRLF
            else ''Range: npt=0.000-'' @ CRLF)
      in build_and_send_request (push_request_into_queue PLAY base_url header [] st))"

section \<open>UDP sockets, heartbeat, timer\<close>

definition init_rtp_rtcp_sockets ::
  "server_config \<Rightarrow> (nat \<Rightarrow> sys_answers \<times> sys_answers) \<Rightarrow> http_client \<Rightarrow> http_client" where
  "init_rtp_rtcp_sockets cfg env st =
     (case bind_udp_pair_from_pool env (http_upstream_interface cfg)
             \<lparr>rtp_fd = -1, rtcp_fd = -1, rtp_port = unat (hrtp_port st), ports = hports st, open_fds = []\<rparr> of
        (rc, ps) \<Rightarrow>
          (let st1 = st\<lparr>hrtp_port := of_nat (rtp_port ps), hports := ports ps\<rparr>
           in if rc < 0 then (if has_callback st1 then emit ClosedCallback st1 else st1)
              else emit (Watch RtcpUp [EPOLLIN]) (emit (Watch RtpUp [EPOLLIN]) st1)))"

text \<open>\<open>init_rtp_rtcp_server_addr\<close>: \<open>inet_pton\<close> leaves the address unchanged when it fails.\<close>

definition init_rtp_rtcp_server_addr :: "http_client \<Rightarrow> http_client" where
  "init_rtp_rtcp_server_addr st =
     (let ip = (\<lambda>old. case inet_pton (server_ip (hctx st)) of Some a \<Rightarrow> a | None \<Rightarrow> fst old)
      in st\<lparr>server_rtp_addr := (ip (server_rtp_addr st), server_rtp_port (hctx st)),
            server_rtcp_addr := (ip (server_rtcp_addr st), server_rtcp_port (hctx st))\<rparr>)"

definition send_rtp_trigger :: "http_client \<Rightarrow> http_client" where
  "send_rtp_trigger st = emit (SendUdp RtpUp [0] (server_rtp_addr st)) st"

definition send_zte_heartbeat :: "http_client \<Rightarrow> http_client" where
  "send_zte_heartbeat st =
     emit (SendUdp RtpUp (zte_payload (local_ip st) (hrtp_port st) (local_tcp_port st)) (server_rtp_addr st)) st"

definition init_timer_fd :: "http_client \<Rightarrow> http_client" where
  "init_timer_fd st = emit (Watch TimerFd [EPOLLIN]) (emit (StartTimer 20) st)"

text \<open>\<open>send_http_response\<close>: the header of the HTTP answer is the first packet of the queue.\<close>

definition response_header :: string where
  "response_header = ''HTTP/1.1 200 OK'' @ CRLF @ ''Content-Type: video/mp2t'' @ CRLF @
     ''Connection: close'' @ CRLF @ CRLF"

definition send_http_response :: "http_client \<Rightarrow> http_client option" where
  "send_http_response st =
     (case acquire (blocks st) of (buf, bp) \<Rightarrow>
        Option.bind (wr buf 0 (bytes_of response_header)) (\<lambda>buf'.
          Some (st\<lparr>blocks := bp, send_queue := send_queue st @ [Packet buf' (length response_header) 0]\<rparr>)))"

section \<open>Construction and destruction\<close>

definition initial_client ::
  "rtspCtx \<Rightarrow> RtspMethod \<Rightarrow> server_config \<Rightarrow> buffer_pool \<Rightarrow> port_pool \<Rightarrow> http_client" where
  "initial_client ctx junk cfg bp pp =
     \<lparr>hctx = ctx, wait_for_keyframe = pipeline_reset (pipe_cfg cfg), hstate = INIT, cseq = 1, req_buf = [],
      resp_buf = [], tcp_send_offset = 0, request_queue = [],
      current_request = \<lparr>req_method = junk, req_uri = [], req_headers = [], req_body = [], req_cseq = 0\<rparr>,
      hrtp_port = 0, server_rtp_addr = (0, 0), server_rtcp_addr = (0, 0), is_closed = False, is_init_ok = False,
      is_tcp_mode = False, interleaved_rtp_channel = 0, interleaved_rtcp_channel = 1,
      setup_retry_with_tcp = False, local_ip = [], local_tcp_port = 0, nat_wan_ip = [], nat_wan_port = 0,
      send_queue = [], blocks = bp, hports = pp, has_callback = False, out = []\<rparr>"

text \<open>The constructor: the context, the answers of the system to the UDP and TCP sockets, and the
  indeterminate method of \<open>current_request_\<close>.\<close>

definition RTSPToHttpClient ::
  "server_config \<Rightarrow> (nat \<Rightarrow> sys_answers \<times> sys_answers) \<Rightarrow> sys_answers \<Rightarrow> RtspMethod \<Rightarrow> rtspCtx \<Rightarrow>
   buffer_pool \<Rightarrow> port_pool \<Rightarrow> http_client option" where
  "RTSPToHttpClient cfg env a junk ctx bp pp =
     (let st = emit (Watch DownstreamSock [EPOLLRDHUP, EPOLLHUP, EPOLLERR])
                 (emit (Unwatch DownstreamSock) (initial_client ctx junk cfg bp pp))
      in Option.bind (send_http_response st) (\<lambda>st1.
           (let st2 = init_rtp_rtcp_sockets cfg env st1
            in if nat_stun cfg then Some (emit StunRequest st2)
               else Some (send_rtsp_option cfg a (st2\<lparr>is_init_ok := True\<rparr>)))))"

definition set_on_closed_callback :: "http_client \<Rightarrow> http_client" where
  "set_on_closed_callback st = st\<lparr>has_callback := True\<rparr>"

text \<open>The destructor gives the blocks of the queue and the port pair back.\<close>

definition destroy_http_client :: "http_client \<Rightarrow> http_client" where
  "destroy_http_client st =
     st\<lparr>blocks := fold (\<lambda>p. release (pkt_data p)) (send_queue st) (blocks st), send_queue := [],
        hports := (if hrtp_port st \<noteq> 0 then release_pair (unat (hrtp_port st)) (hports st) else hports st)\<rparr>"

section \<open>Handlers\<close>

definition on_client_closed :: "http_client \<Rightarrow> http_client" where
  "on_client_closed st = (if is_closed st then st
     else (let st1 = st\<lparr>is_closed := True\<rparr> in if has_callback st1 then emit ClosedCallback st1 else st1))"

text \<open>A packet in a block goes through the pipeline; when it is forwarded its payload is queued. The result
  also says whether \<open>process\<close> accepted the packet.\<close>

definition forward_block ::
  "server_config \<Rightarrow> u8 list \<Rightarrow> nat \<Rightarrow> http_client \<Rightarrow> (bool \<times> u8 list \<times> nat \<times> http_client) option" where
  "forward_block cfg buf n st =
     Option.bind (process (pipe_cfg cfg) (wait_for_keyframe st) buf n) (\<lambda>r.
       (let st1 = st\<lparr>wait_for_keyframe := waiting r\<rparr> in
        if forward r then
          Option.bind (get_payload_offset (out_buf r) (out_len r)) (\<lambda>off.
            (case off of
               Some payload_off \<Rightarrow>
                 (case push_bounded 512 (Packet (out_buf r) (out_len r) payload_off) (send_queue st1) (blocks st1) of
                    (q, bp) \<Rightarrow> Some (True, out_buf r, out_len r, st1\<lparr>send_queue := q, blocks := bp\<rparr>))
             | None \<Rightarrow> Some (True, out_buf r, out_len r, st1\<lparr>blocks := release (out_buf r) (blocks st1)\<rparr>)))
        else Some (False, out_buf r, out_len r, st1)))"

text \<open>\<open>on_rtp_readable\<close> with the datagram received, if any, and the answers to the upstream connection, which the
  first datagram starts when a STUN answer was awaited.\<close>

definition on_rtp_readable ::
  "server_config \<Rightarrow> sys_answers \<Rightarrow> u8 list option \<Rightarrow> http_client \<Rightarrow> http_client option" where
  "on_rtp_readable cfg a dgram st0 =
     (case acquire (blocks st0) of (buf0, bp) \<Rightarrow>
       (case dgram of
          None \<Rightarrow> Some (st0\<lparr>blocks := release buf0 bp\<rparr>)
        | Some dat \<Rightarrow>
            (let n = min (length dat) (get_buffer_size bp); buf = fill buf0 dat;
                 st = st0\<lparr>blocks := bp\<rparr>
             in if n = 0 then Some (st\<lparr>blocks := release buf bp\<rparr>)
                else
                  Option.bind (forward_block cfg buf n (emit (AddUp n) (emit (EstUp n) st))) (\<lambda>(fwd, buf1, n1, st1).
                  Option.bind
                    (if fwd then Some st1
                     else if \<not> is_init_ok st1 then
                       Option.bind
                         (if enable_nat cfg then
                            Option.bind (extract_stun_mapping_from_response buf1 n1) (\<lambda>m.
                              (let st2 = (case m of Some (ip, wport) \<Rightarrow> st1\<lparr>nat_wan_ip := ip, nat_wan_port := wport\<rparr>
                                            | None \<Rightarrow> st1)
                               in Some (emit (Watch RtpUp [EPOLLIN]) st2)))
                          else Some st1) (\<lambda>st2.
                         Some (send_rtsp_option cfg a
                           (st2\<lparr>blocks := release buf1 (blocks st2), is_init_ok := True\<rparr>)))
                     else Some (st1\<lparr>blocks := release buf1 (blocks st1)\<rparr>)) (\<lambda>st3.
                    Some (emit (Watch DownstreamSock [EPOLLRDHUP, EPOLLHUP, EPOLLERR, EPOLLOUT]) st3))))))"

definition handle_interleaved_packet ::
  "server_config \<Rightarrow> u8 \<Rightarrow> u8 list \<Rightarrow> http_client \<Rightarrow> http_client option" where
  "handle_interleaved_packet cfg channel dat st0 =
     (if channel \<noteq> interleaved_rtp_channel st0 then Some st0
      else
        (case acquire (blocks st0) of (buf0, bp) \<Rightarrow>
           (let actual_len = min (length dat) (get_buffer_size bp)
            in Option.bind (wr buf0 0 (take actual_len dat)) (\<lambda>buf.
               Option.bind (forward_block cfg buf actual_len (st0\<lparr>blocks := bp\<rparr>)) (\<lambda>(fwd, buf1, n1, st1).
                 (let st2 = (if fwd then st1 else st1\<lparr>blocks := release buf1 (blocks st1)\<rparr>)
                  in Some (emit (Watch DownstreamSock [EPOLLRDHUP, EPOLLHUP, EPOLLERR, EPOLLOUT, EPOLLIN]) st2)))))))"

text \<open>The loop of \<open>on_client_writable\<close>; the second component says that the connection failed.\<close>

fun client_drain :: "send_result list \<Rightarrow> http_client \<Rightarrow> http_client \<times> bool" where
  "client_drain [] st = (st, False)"
| "client_drain (r # rs) st =
     (case send_queue st of
        [] \<Rightarrow> (st, False)
      | p # q \<Rightarrow>
          (case r of
             SendWouldBlock \<Rightarrow> (st, False)
           | SendError \<Rightarrow> (st, True)
           | Sent n0 \<Rightarrow>
               (let n = min n0 (pkt_length p - pkt_offset p);
                    st1 = emit (EstDown n) (emit (AddDown n)
                            (emit (SendTcp DownstreamSock (string_of (take n (remaining p)))) st));
                    p1 = p\<lparr>pkt_offset := pkt_offset p + n\<rparr>
                in if pkt_offset p1 = pkt_length p1
                   then client_drain rs (st1\<lparr>blocks := release (pkt_data p1) (blocks st1), send_queue := q\<rparr>)
                   else (st1\<lparr>send_queue := p1 # q\<rparr>, False))))"

definition on_client_writable :: "send_result list \<Rightarrow> http_client \<Rightarrow> http_client" where
  "on_client_writable rs st =
     (case client_drain rs st of (st1, failed) \<Rightarrow>
        if failed then on_client_closed st1
        else if send_queue st1 = []
          then emit (Watch DownstreamSock [EPOLLRDHUP, EPOLLHUP, EPOLLERR, EPOLLIN]) st1
          else st1)"

text \<open>\<open>on_rtsp_writable\<close>: whether \<open>SO_ERROR\<close> is clear, the local address, and the result of \<open>send\<close>. Sending nothing (an
  empty buffer) counts as a failure.\<close>

definition rtsp_connected :: "sockaddr option \<Rightarrow> http_client \<Rightarrow> http_client" where
  "rtsp_connected sockname st =
     (case sockname of
        Some (a, p) \<Rightarrow> st\<lparr>hstate := CONNECTED, local_ip := inet_ntop a, local_tcp_port := p\<rparr>
      | None \<Rightarrow> st\<lparr>hstate := CONNECTED\<rparr>)"

definition send_request_bytes :: "send_result \<Rightarrow> http_client \<Rightarrow> http_client" where
  "send_request_bytes r st = (case r of
      Sent n0 \<Rightarrow>
        (let n = min n0 (length (req_buf st) - tcp_send_offset st) in
         if n > 0 then
           (let st1 = (emit (SendTcp UpstreamSock (take n (drop (tcp_send_offset st) (req_buf st)))) st)
                  \<lparr>tcp_send_offset := tcp_send_offset st + n\<rparr>
            in if tcp_send_offset st1 = length (req_buf st1)
               then (emit (Watch UpstreamSock [EPOLLIN]) st1)\<lparr>tcp_send_offset := 0\<rparr>
               else st1)
         else emit ClosedCallback st)
    | _ \<Rightarrow> emit ClosedCallback st)"

definition on_rtsp_writable :: "bool \<Rightarrow> sockaddr option \<Rightarrow> send_result \<Rightarrow> http_client \<Rightarrow> http_client" where
  "on_rtsp_writable so_ok sockname r st =
     (if hstate st = CONNECTING \<and> \<not> so_ok then emit ClosedCallback st
      else send_request_bytes r (if hstate st = CONNECTING then rtsp_connected sockname st else st))"

text \<open>The answer to a complete message, by the request it answers.\<close>

definition handle_response :: "server_config \<Rightarrow> string \<Rightarrow> string \<Rightarrow> http_client \<Rightarrow> http_client step" where
  "handle_response cfg header body st0 =
     (let st = st0\<lparr>hctx := snd (parse_session_id header (hctx st0))\<rparr>;
          status = parse_status_code header;
          cs = extract_header_value header ''CSeq'';
          m = req_method (current_request st)
      in if status = -1 \<and> cs \<noteq> [] then
           Continue (emit (SendTcp UpstreamSock (''RTSP/1.0 200 OK'' @ CRLF @ ''CSeq: '' @ cs @ CRLF @ CRLF)) st)
         else if status = 461 \<and> m = SETUP \<and> \<not> setup_retry_with_tcp st then
           Continue (send_rtsp_setup cfg [] (st\<lparr>setup_retry_with_tcp := True\<rparr>))
         else if status \<noteq> 200 then Return (emit ClosedCallback st)
         else if m = OPTIONS then Continue (send_rtsp_describe cfg st)
         else if m = DESCRIBE then
           Continue (send_rtsp_setup cfg body
             (st\<lparr>hctx := (hctx st)\<lparr>content_base := extract_header_value header ''Content-Base''\<rparr>\<rparr>))
         else if m = SETUP then
           (case parse_server_ports header (hctx st) of (rc, ctx1) \<Rightarrow>
              (let st1 = st\<lparr>hctx := ctx1\<rparr> in
               if rc \<noteq> 0 then Return (emit ClosedCallback st1)
               else if str_find ''interleaved='' header \<noteq> None then
                 Continue (send_rtsp_play cfg
                   (st1\<lparr>is_tcp_mode := True,
                        interleaved_rtp_channel := ucast (server_rtp_port ctx1),
                        interleaved_rtcp_channel := ucast (server_rtcp_port ctx1)\<rparr>))
               else
                 (let st2 = init_rtp_rtcp_server_addr (st1\<lparr>is_tcp_mode := False\<rparr>);
                      st3 = (if nat_zte cfg then send_zte_heartbeat st2 else send_rtp_trigger st2)
                  in Continue (send_rtsp_play cfg st3))))
         else if m = PLAY then
           Continue ((init_timer_fd (st\<lparr>wait_for_keyframe := pipeline_reset (pipe_cfg cfg)\<rparr>))\<lparr>hstate := STREAMING\<rparr>)
         else Continue st)"

text \<open>
  One turn of the inner loop of \<open>on_rtsp_readable\<close>. A frame starts with a dollar sign, a channel and a length of 16 bits;
  everything else is a message up to an empty line, with a body of \<open>Content-Length\<close> bytes. The sum \<open>end + 4 + content_length\<close> is
  taken modulo \<open>2\<^sup>6\<^sup>4\<close>, the length being converted from \<open>int\<close>.
\<close>

definition message_total :: "nat \<Rightarrow> int \<Rightarrow> nat" where
  "message_total e cl = nat ((int e + 4 + cl) mod 2 ^ 64)"

definition message_body :: "string \<Rightarrow> nat \<Rightarrow> int \<Rightarrow> string" where
  "message_body s e cl = (if cl < 0 then drop (e + 4) s else take (nat cl) (drop (e + 4) s))"

definition resp_step :: "server_config \<Rightarrow> http_client \<Rightarrow> http_client step option" where
  "resp_step cfg st =
     (let s = resp_buf st in
      if hd s = CHR ''$'' then
        (if length s < 4 then Some (Break st)
         else
           (let len = frame_len s in
            if length s < len + 4 then Some (Break st)
            else Option.bind
                   (handle_interleaved_packet cfg (of_nat (of_char (s ! 1))) (bytes_of (take len (drop 4 s)))
                      (emit (AddUp (len + 4)) (emit (EstUp (len + 4)) st)))
                   (\<lambda>st1. Some (Continue (st1\<lparr>resp_buf := drop (4 + len) s\<rparr>)))))
      else
        (case str_find (CRLF @ CRLF) s of
           None \<Rightarrow> Some (Break st)
         | Some e \<Rightarrow>
             (let header = take (e + 4) s; cl = get_content_length header; total = message_total e cl in
              if length s < total then Some (Break st)
              else Some (handle_response cfg header (message_body s e cl)
                           (st\<lparr>resp_buf := drop total s\<rparr>)))))"

text \<open>The inner loop with fuel: \<^term>\<open>None\<close> when the fuel is used up, \<open>Some None\<close> for a failed access. The flag says that the
  handler returns.\<close>

fun resp_loop :: "nat \<Rightarrow> server_config \<Rightarrow> http_client \<Rightarrow> (http_client \<times> bool) option option" where
  "resp_loop 0 cfg st = (if resp_buf st = [] then Some (Some (st, False)) else None)"
| "resp_loop (Suc n) cfg st =
     (if resp_buf st = [] then Some (Some (st, False))
      else case resp_step cfg st of
             None \<Rightarrow> Some None
           | Some (Break st1) \<Rightarrow> Some (Some (st1, False))
           | Some (Return st1) \<Rightarrow> Some (Some (st1, True))
           | Some (Continue st1) \<Rightarrow> resp_loop n cfg st1)"

text \<open>\<open>on_rtsp_readable\<close>: the chunks \<open>recv\<close> delivers and how it ends.\<close>

fun on_rtsp_readable ::
  "nat \<Rightarrow> server_config \<Rightarrow> string list \<Rightarrow> recv_end \<Rightarrow> http_client \<Rightarrow> http_client option option" where
  "on_rtsp_readable fuel cfg [] fin st =
     Some (Some (case fin of RecvWouldBlock \<Rightarrow> st | RecvEof \<Rightarrow> emit ClosedCallback st
                           | RecvError \<Rightarrow> emit ClosedCallback st))"
| "on_rtsp_readable fuel cfg (chunk # chunks) fin st =
     (case resp_loop fuel cfg (st\<lparr>resp_buf := resp_buf st @ chunk\<rparr>) of
        None \<Rightarrow> None
      | Some None \<Rightarrow> Some None
      | Some (Some (st1, True)) \<Rightarrow> Some (Some st1)
      | Some (Some (st1, False)) \<Rightarrow> on_rtsp_readable fuel cfg chunks fin st1)"

definition handle_timer :: "epoll_flag list \<Rightarrow> http_client \<Rightarrow> http_client" where
  "handle_timer ev st = (if EPOLLIN \<in> set ev
     then build_and_send_request (push_request_into_queue GET_PARAMETER (request_uri (hctx st)) [] [] st)
     else st)"

definition handle_client :: "epoll_flag list \<Rightarrow> send_result list \<Rightarrow> http_client \<Rightarrow> http_client" where
  "handle_client ev rs st =
     (if EPOLLHUP \<in> set ev \<or> EPOLLRDHUP \<in> set ev \<or> EPOLLERR \<in> set ev then on_client_closed st
      else if EPOLLOUT \<in> set ev then on_client_writable rs st else st)"

definition handle_rtp ::
  "server_config \<Rightarrow> sys_answers \<Rightarrow> epoll_flag list \<Rightarrow> u8 list option \<Rightarrow> http_client \<Rightarrow> http_client option" where
  "handle_rtp cfg a ev dgram st = (if EPOLLIN \<in> set ev then on_rtp_readable cfg a dgram st else Some st)"

text \<open>The RTCP socket is watched, but nothing is read from it.\<close>

definition on_rtcp_readable :: "http_client \<Rightarrow> http_client" where
  "on_rtcp_readable st = st"

definition on_rtcp_writable :: "http_client \<Rightarrow> http_client" where
  "on_rtcp_writable st = st"

definition handle_rtcp :: "epoll_flag list \<Rightarrow> http_client \<Rightarrow> http_client" where
  "handle_rtcp ev st =
     (let st1 = (if EPOLLIN \<in> set ev then on_rtcp_readable st else st)
      in if EPOLLOUT \<in> set ev then on_rtcp_writable st1 else st1)"

definition handle_rtsp ::
  "nat \<Rightarrow> server_config \<Rightarrow> epoll_flag list \<Rightarrow> string list \<Rightarrow> recv_end \<Rightarrow> bool \<Rightarrow> sockaddr option \<Rightarrow> send_result \<Rightarrow>
   http_client \<Rightarrow> http_client option option" where
  "handle_rtsp fuel cfg ev chunks fin so_ok sockname r st =
     (case (if EPOLLIN \<in> set ev then on_rtsp_readable fuel cfg chunks fin st else Some (Some st)) of
        Some (Some st1) \<Rightarrow>
          Some (Some (if EPOLLOUT \<in> set ev then on_rtsp_writable so_ok sockname r st1 else st1))
      | other \<Rightarrow> other)"

section \<open>What the steps keep\<close>

text \<open>The part of the state the data path owns: the queue and the pool, and the unread input. The request
  functions leave it alone.\<close>

named_theorems frame "parts of the state a step leaves alone"

lemma emit_sel [simp]:
  "hctx (emit e st) = hctx st"
  "wait_for_keyframe (emit e st) = wait_for_keyframe st"
  "hstate (emit e st) = hstate st"
  "cseq (emit e st) = cseq st"
  "req_buf (emit e st) = req_buf st"
  "resp_buf (emit e st) = resp_buf st"
  "tcp_send_offset (emit e st) = tcp_send_offset st"
  "request_queue (emit e st) = request_queue st"
  "current_request (emit e st) = current_request st"
  "hrtp_port (emit e st) = hrtp_port st"
  "is_closed (emit e st) = is_closed st"
  "is_init_ok (emit e st) = is_init_ok st"
  "is_tcp_mode (emit e st) = is_tcp_mode st"
  "interleaved_rtp_channel (emit e st) = interleaved_rtp_channel st"
  "setup_retry_with_tcp (emit e st) = setup_retry_with_tcp st"
  "local_ip (emit e st) = local_ip st"
  "local_tcp_port (emit e st) = local_tcp_port st"
  "nat_wan_port (emit e st) = nat_wan_port st"
  "send_queue (emit e st) = send_queue st"
  "blocks (emit e st) = blocks st"
  "hports (emit e st) = hports st"
  "has_callback (emit e st) = has_callback st"
  "out (emit e st) = out st @ [e]"
  by (simp_all add: emit_def)

definition same_data :: "http_client \<Rightarrow> http_client \<Rightarrow> bool" where
  "same_data st st' \<longleftrightarrow> send_queue st' = send_queue st \<and> blocks st' = blocks st \<and> resp_buf st' = resp_buf st"

lemma same_data_refl [simp, intro]: "same_data st st"
  by (simp add: same_data_def)

lemma same_data_trans: "same_data a b \<Longrightarrow> same_data b c \<Longrightarrow> same_data a c"
  by (simp add: same_data_def)

lemma same_data_emit [simp]: "same_data st (emit e st') \<longleftrightarrow> same_data st st'"
  by (simp add: same_data_def)

lemma same_data_build [frame]: "same_data st (build_and_send_request (push_request_into_queue m u h b st))"
  by (simp add: same_data_def build_and_send_request_def push_request_into_queue_def split: list.splits)

lemma same_data_connect [frame]: "same_data st (connect_server cfg a st)"
  by (simp add: same_data_def connect_server_def split: prod.splits)

lemma same_data_option [frame]: "same_data st (send_rtsp_option cfg a st)"
  unfolding send_rtsp_option_def Let_def by (rule same_data_trans [OF same_data_connect same_data_build])

lemma same_data_describe [frame]: "same_data st (send_rtsp_describe cfg st)"
  unfolding send_rtsp_describe_def Let_def by (rule same_data_build)

lemma same_data_setup [frame]: "same_data st (send_rtsp_setup cfg body st)"
proof -
  let ?st = "if body \<noteq> [] then st\<lparr>hctx := parseSDP body (hctx st)\<rparr> else st"
  have "same_data st ?st" by (simp add: same_data_def)
  moreover have "same_data ?st (send_rtsp_setup cfg body st)"
    unfolding send_rtsp_setup_def Let_def by (simp only: if_split same_data_build) simp
  ultimately show ?thesis by (rule same_data_trans)
qed

lemma same_data_play [frame]: "same_data st (send_rtsp_play cfg st)"
  unfolding send_rtsp_play_def Let_def by (rule same_data_build)

lemma same_data_send [frame]: "same_data st (send_request_bytes r st)"
  by (simp add: same_data_def send_request_bytes_def Let_def split: send_result.split)

lemma same_data_connected [frame]: "same_data st (rtsp_connected sn st)"
  by (simp add: same_data_def rtsp_connected_def split: option.split prod.split)

lemma same_data_writable [frame]: "same_data st (on_rtsp_writable ok sn r st)"
  using same_data_send [of st r] same_data_trans [OF same_data_connected [of st sn] same_data_send [of "rtsp_connected sn st" r]]
  by (simp add: on_rtsp_writable_def)

fun step_state :: "'s step \<Rightarrow> 's" where
  "step_state (Break s) = s"
| "step_state (Continue s) = s"
| "step_state (Return s) = s"

lemmas frame_sel [simp] = frame [unfolded same_data_def]

lemma init_addr_sel [simp]:
  "send_queue (init_rtp_rtcp_server_addr st) = send_queue st"
  "blocks (init_rtp_rtcp_server_addr st) = blocks st" "resp_buf (init_rtp_rtcp_server_addr st) = resp_buf st"
  by (simp_all add: init_rtp_rtcp_server_addr_def Let_def)

lemma same_data_response: "same_data st (step_state (handle_response cfg h b st))"
  by (auto simp: handle_response_def same_data_def Let_def send_zte_heartbeat_def send_rtp_trigger_def
      init_timer_fd_def split: prod.splits)

section \<open>Blocks\<close>

text \<open>The invariant of a client: its queue owns its blocks, and it is bounded. \<open>k\<close> is the number of blocks lent to
  the other clients.\<close>

definition http_inv :: "nat \<Rightarrow> http_client \<Rightarrow> bool" where
  "http_inv k st \<longleftrightarrow> owns k (send_queue st) (blocks st) \<and> length (send_queue st) \<le> 513"

lemma http_inv_same: "http_inv k st \<Longrightarrow> same_data st st' \<Longrightarrow> http_inv k st'"
  by (simp add: http_inv_def same_data_def)

lemma http_inv_emit [simp]: "http_inv k (emit e st) = http_inv k st"
  by (simp add: http_inv_def)

lemma process_ok:
  assumes "n \<le> length buf"
  obtains r where "process cfg w buf n = Some r" and "out_len r \<le> n" and "length (out_buf r) = length buf"
  using process_safe [OF assms, of cfg w] by blast

text \<open>A block goes into the queue, or back to the pool, or stays with the caller when the pipeline
  refuses the packet. No access fails.\<close>

lemma forward_block_ok:
  assumes "owns (Suc k) (send_queue st) (blocks st)" and "length (send_queue st) \<le> 513"
    and "length buf = get_buffer_size (blocks st)" and "n \<le> length buf"
  obtains fwd buf1 n1 st1 where "forward_block cfg buf n st = Some (fwd, buf1, n1, st1)"
    and "fwd \<Longrightarrow> http_inv k st1"
    and "\<not> fwd \<Longrightarrow> send_queue st1 = send_queue st \<and> blocks st1 = blocks st \<and> length buf1 = length buf \<and> n1 \<le> length buf"
    and "resp_buf st1 = resp_buf st"
proof -
  obtain r where r: "process (pipe_cfg cfg) (wait_for_keyframe st) buf n = Some r" "out_len r \<le> n"
    "length (out_buf r) = length buf" using assms(4) by (rule process_ok)
  have l: "out_len r \<le> length (out_buf r)" using r assms(4) by simp
  then obtain off where off: "get_payload_offset (out_buf r) (out_len r) = Some off"
    "\<And>po. off = Some po \<Longrightarrow> 12 \<le> po \<and> po \<le> out_len r"
    by (rule get_payload_offset_safe) blast
  show thesis
  proof (cases "forward r")
    case False
    with r assms(4) show thesis
      by (intro that [of False "out_buf r" "out_len r" "st\<lparr>wait_for_keyframe := waiting r\<rparr>"])
         (auto simp: forward_block_def Let_def)
  next
    case True
    show thesis
    proof (cases off)
      case None
      with True r off assms owns_release [of k "send_queue st" "blocks st" "out_buf r"] show thesis
        by (intro that [of True "out_buf r" "out_len r"
              "st\<lparr>wait_for_keyframe := waiting r, blocks := release (out_buf r) (blocks st)\<rparr>"])
           (auto simp: forward_block_def Let_def http_inv_def)
    next
      case (Some po)
      let ?p = "Packet (out_buf r) (out_len r) po"
      obtain q bp where q: "push_bounded 512 ?p (send_queue st) (blocks st) = (q, bp)"
        by (cases "push_bounded 512 ?p (send_queue st) (blocks st)")
      have "pkt_ok (get_buffer_size (blocks st)) ?p"
        using off Some l r(3) assms(3) by (auto simp: pkt_ok_def Packet_def)
      with push_bounded_owns [OF q assms(1)] push_bounded_length [OF q] assms(2)
      have "owns k q bp" "length q \<le> 513" by auto
      with True r off Some q show thesis
        by (intro that [of True "out_buf r" "out_len r"
              "st\<lparr>wait_for_keyframe := waiting r, send_queue := q, blocks := bp\<rparr>"])
           (auto simp: forward_block_def Let_def http_inv_def)
    qed
  qed
qed

lemma interleaved_ok:
  assumes "http_inv k st"
  shows "\<exists>st'. handle_interleaved_packet cfg ch dat st = Some st' \<and> http_inv k st' \<and> resp_buf st' = resp_buf st"
proof (cases "ch = interleaved_rtp_channel st")
  case False
  with assms show ?thesis by (simp add: handle_interleaved_packet_def)
next
  case True
  obtain buf0 bp where acq: "acquire (blocks st) = (buf0, bp)" by (cases "acquire (blocks st)")
  let ?n = "min (length dat) (get_buffer_size bp)"
  have o: "owns (Suc k) (send_queue st) bp" "length buf0 = get_buffer_size bp"
    using assms owns_acquire [OF _ acq] by (auto simp: http_inv_def)
  then obtain buf where w: "wr buf0 0 (take ?n dat) = Some buf" using wr_ok [of 0 "take ?n dat" buf0] by auto
  have lb: "length buf = get_buffer_size bp" using wr_length [OF w] o(2) by simp
  obtain fwd buf1 n1 st1 where f: "forward_block cfg buf ?n (st\<lparr>blocks := bp\<rparr>) = Some (fwd, buf1, n1, st1)"
    "fwd \<Longrightarrow> http_inv k st1"
    "\<not> fwd \<Longrightarrow> send_queue st1 = send_queue st \<and> blocks st1 = bp \<and> length buf1 = length buf \<and> n1 \<le> length buf"
    "resp_buf st1 = resp_buf st"
    by (rule forward_block_ok [of k "st\<lparr>blocks := bp\<rparr>" buf ?n cfg]) (use o lb assms in \<open>auto simp: http_inv_def\<close>)
  have "http_inv k (if fwd then st1 else st1\<lparr>blocks := release buf1 (blocks st1)\<rparr>)"
    using f(2,3) o lb assms owns_release [OF o(1), of buf1] by (auto simp: http_inv_def)
  with True acq w f(1,4) show ?thesis
    by (auto simp: handle_interleaved_packet_def Let_def)
qed

lemma min_eq_0 [simp]: "min a b = (0 :: nat) \<longleftrightarrow> a = 0 \<or> b = 0"
  by (auto simp: min_def)

lemma rtp_readable_ok:
  assumes "http_inv k st"
  shows "\<exists>st'. on_rtp_readable cfg a dgram st = Some st' \<and> http_inv k st'"
proof -
  obtain buf0 bp where acq: "acquire (blocks st) = (buf0, bp)" by (cases "acquire (blocks st)")
  have o: "owns (Suc k) (send_queue st) bp" "length buf0 = get_buffer_size bp" "length (send_queue st) \<le> 513"
    using assms owns_acquire [OF _ acq] by (auto simp: http_inv_def)
  have rel: "http_inv k (st\<lparr>blocks := release b bp\<rparr>)" if "length b = get_buffer_size bp" for b
    using owns_release [OF o(1) that] o(3) by (simp add: http_inv_def)
  show ?thesis
  proof (cases dgram)
    case None
    with acq rel [OF o(2)] show ?thesis by (simp add: on_rtp_readable_def)
  next
    case (Some dat)
    let ?n = "min (length dat) (get_buffer_size bp)" and ?buf = "fill buf0 dat"
    let ?st = "emit (AddUp ?n) (emit (EstUp ?n) (st\<lparr>blocks := bp\<rparr>))"
    show ?thesis
    proof (cases "?n = 0")
      case True
      with acq Some rel [of ?buf] o(2) show ?thesis by (simp add: on_rtp_readable_def)
    next
      case False
      obtain fwd buf1 n1 st1 where f: "forward_block cfg ?buf ?n ?st = Some (fwd, buf1, n1, st1)"
        "fwd \<Longrightarrow> http_inv k st1"
        "\<not> fwd \<Longrightarrow> send_queue st1 = send_queue st \<and> blocks st1 = bp \<and> length buf1 = length buf0 \<and> n1 \<le> length buf0"
        by (rule forward_block_ok [of k ?st ?buf ?n cfg]) (use o in \<open>auto\<close>)
      obtain m where m: "extract_stun_mapping_from_response buf1 n1 = Some m" if "\<not> fwd"
        using f(3) extract_safe [of n1 buf1] by fastforce
      have inv: "http_inv k (st1\<lparr>blocks := release buf1 (blocks st1)\<rparr>)" if "\<not> fwd"
        using f(3) [OF that] owns_release [OF o(1), of buf1] o by (simp add: http_inv_def)
      let ?st2 = "\<lambda>m. (case m of Some (ip, wport) \<Rightarrow> st1\<lparr>nat_wan_ip := ip, nat_wan_port := wport\<rparr> | None \<Rightarrow> st1)"
      have st2: "send_queue (?st2 m) = send_queue st1" "blocks (?st2 m) = blocks st1" for m
        by (simp_all split: option.splits)
      consider "fwd" | "\<not> fwd" "is_init_ok st1" | "\<not> fwd" "\<not> is_init_ok st1" "\<not> enable_nat cfg"
        | "\<not> fwd" "\<not> is_init_ok st1" "enable_nat cfg" by blast
      then show ?thesis
      proof cases
        case 1
        with acq Some False f show ?thesis
          by (auto simp: on_rtp_readable_def Let_def)
      next
        case 2
        with acq Some False f inv show ?thesis
          by (auto simp: on_rtp_readable_def Let_def)
      next
        case 3
        with acq Some False f inv show ?thesis
          by (auto simp: on_rtp_readable_def Let_def http_inv_def)
      next
        case 4
        with acq Some False f inv m st2 show ?thesis
          by (auto simp: on_rtp_readable_def Let_def http_inv_def split del: option.split)
      qed
    qed
  qed
qed

end
