(* ===== verification/Http_Session.thy ===== *)
theory Http_Session
  imports Http_Client
begin

text \<open>
  Properties of an HTTP session (\<open>Http_Client\<close>) over whole runs of its handlers: no handler touches memory outside a block,
  the blocks of the pool are accounted for, the bytes to the HTTP client are the queued bytes in order, the
  input is split into frames and messages, and the RTSP dialogue advances one request at a time. Also the input that makes
  the reading loop run forever.
\<close>

section \<open>The reading loop\<close>

lemma resp_step_ok:
  assumes "http_inv k st" and "resp_buf st \<noteq> []"
  obtains s where "resp_step cfg st = Some s" and "http_inv k (step_state s)"
proof (cases "hd (resp_buf st) = CHR ''$'' \<and> 4 \<le> length (resp_buf st) \<and>
    frame_len (resp_buf st) + 4 \<le> length (resp_buf st)")
  case True
  let ?s = "resp_buf st" and ?len = "frame_len (resp_buf st)"
  obtain st1 where i: "handle_interleaved_packet cfg (of_nat (of_char (?s ! 1))) (bytes_of (take ?len (drop 4 ?s)))
      (emit (AddUp (?len + 4)) (emit (EstUp (?len + 4)) st)) = Some st1" and "http_inv k st1"
    using interleaved_ok [of k "emit (AddUp (?len + 4)) (emit (EstUp (?len + 4)) st)" cfg
        "of_nat (of_char (?s ! 1))" "bytes_of (take ?len (drop 4 ?s))"] assms(1) by auto
  then have "http_inv k (st1\<lparr>resp_buf := drop (4 + ?len) ?s\<rparr>)" by (simp add: http_inv_def)
  with True i show thesis
    by (intro that [of "Continue (st1\<lparr>resp_buf := drop (4 + ?len) ?s\<rparr>)"]) (auto simp: resp_step_def Let_def)
next
  case False
  have resp: "http_inv k (step_state (handle_response cfg h b (st\<lparr>resp_buf := x\<rparr>)))" for h b x
    by (rule http_inv_same [OF _ same_data_response]) (use assms(1) in \<open>simp add: http_inv_def\<close>)
  show thesis
  proof (cases "hd (resp_buf st) = CHR ''$''")
    case True
    with False assms(1) show thesis by (intro that [of "Break st"]) (auto simp: resp_step_def Let_def)
  next
    case False
    show thesis
    proof (cases "str_find (CRLF @ CRLF) (resp_buf st)")
      case None
      with False assms(1) show thesis by (intro that [of "Break st"]) (auto simp: resp_step_def Let_def)
    next
      case (Some e)
      let ?h = "take (e + 4) (resp_buf st)"
      let ?t = "message_total e (get_content_length ?h)"
      show thesis
      proof (cases "length (resp_buf st) < ?t")
        case True
        with False Some assms(1) show thesis by (intro that [of "Break st"]) (auto simp: resp_step_def Let_def)
      next
        case long: False
        with False Some resp show thesis
          by (intro that [of "handle_response cfg ?h (message_body (resp_buf st) e (get_content_length ?h))
                (st\<lparr>resp_buf := drop ?t (resp_buf st)\<rparr>)"]) (auto simp: resp_step_def Let_def)
      qed
    qed
  qed
qed

lemma resp_loop_ok:
  assumes "http_inv k st"
  shows "resp_loop n cfg st = None \<or> (\<exists>st' ret. resp_loop n cfg st = Some (Some (st', ret)) \<and> http_inv k st')"
  using assms
proof (induction n arbitrary: st)
  case (Suc n)
  show ?case
  proof (cases "resp_buf st = []")
    case False
    with Suc.prems obtain s where s: "resp_step cfg st = Some s" "http_inv k (step_state s)"
      by (rule resp_step_ok)
    with False Suc.IH show ?thesis by (cases s) auto
  qed (use Suc.prems in auto)
qed auto

lemma rtsp_readable_ok:
  assumes "http_inv k st"
  shows "on_rtsp_readable n cfg chunks fin st = None \<or>
    (\<exists>st'. on_rtsp_readable n cfg chunks fin st = Some (Some st') \<and> http_inv k st')"
  using assms
proof (induction chunks arbitrary: st)
  case Nil
  then show ?case by (cases fin) auto
next
  case (Cons c cs)
  have "http_inv k (st\<lparr>resp_buf := resp_buf st @ c\<rparr>)" using Cons.prems by (simp add: http_inv_def)
  from resp_loop_ok [OF this, of n cfg] show ?case
  proof
    assume "\<exists>st' ret. resp_loop n cfg (st\<lparr>resp_buf := resp_buf st @ c\<rparr>) = Some (Some (st', ret)) \<and> http_inv k st'"
    then obtain st' ret where "resp_loop n cfg (st\<lparr>resp_buf := resp_buf st @ c\<rparr>) = Some (Some (st', ret))" "http_inv k st'"
      by blast
    with Cons.IH [of st'] show ?thesis by (cases ret) auto
  qed simp
qed

section \<open>The queue to the HTTP client\<close>

text \<open>The bytes sent downstream by a list of effects.\<close>

fun sent_down :: "effect list \<Rightarrow> u8 list" where
  "sent_down [] = []"
| "sent_down (SendTcp DownstreamSock s # es) = bytes_of s @ sent_down es"
| "sent_down (_ # es) = sent_down es"

lemma sent_down_append [simp]: "sent_down (a @ b) = sent_down a @ sent_down b"
  by (induction a rule: sent_down.induct) simp_all

text \<open>Draining moves bytes from the front of the queue to the socket, and gives each finished block back.\<close>

lemma client_drain_ok:
  assumes "http_inv k st" and "client_drain rs st = (st', failed)"
  shows "http_inv k st' \<and> sent_down (out st') @ pending (send_queue st') = sent_down (out st) @ pending (send_queue st)"
  using assms
proof (induction rs arbitrary: st)
  case (Cons r rs)
  show ?case
  proof (cases "send_queue st")
    case (Cons p q)
    show ?thesis
    proof (cases r)
      case (Sent n0)
      let ?n = "min n0 (pkt_length p - pkt_offset p)"
      let ?p = "p\<lparr>pkt_offset := pkt_offset p + ?n\<rparr>"
      let ?st = "emit (EstDown ?n) (emit (AddDown ?n) (emit (SendTcp DownstreamSock (string_of (take ?n (remaining p)))) st))"
      have o: "owns k (p # q) (blocks st)" "length (p # q) \<le> 513"
        using Cons.prems(1) \<open>send_queue st = p # q\<close> by (simp_all add: http_inv_def)
      then have "pkt_ok (get_buffer_size (blocks st)) p" by (simp add: owns_def)
      from remaining_advance [OF this, of ?n]
      have adv: "remaining p = take ?n (remaining p) @ remaining ?p" "pkt_ok (get_buffer_size (blocks st)) ?p"
        by simp_all
      show ?thesis
      proof (cases "pkt_offset ?p = pkt_length ?p")
        case True
        then have "remaining ?p = []" by (simp add: remaining_def)
        moreover have "http_inv k (?st\<lparr>blocks := release (pkt_data p) (blocks st), send_queue := q\<rparr>)"
          using owns_pop [OF o(1)] o(2) by (simp add: http_inv_def)
        ultimately show ?thesis
          using Cons.IH [of "?st\<lparr>blocks := release (pkt_data p) (blocks st), send_queue := q\<rparr>"]
            Cons.prems(2) \<open>send_queue st = p # q\<close> Sent True adv(1) by (simp add: Let_def)
      next
        case False
        then have "st' = ?st\<lparr>send_queue := ?p # q\<rparr>"
          using Cons.prems(2) \<open>send_queue st = p # q\<close> Sent by (simp add: Let_def)
        then show ?thesis using adv o \<open>send_queue st = p # q\<close> by (auto simp: http_inv_def owns_def)
      qed
    qed (use Cons.prems \<open>send_queue st = p # q\<close> in auto)
  qed (use Cons.prems in auto)
qed auto

lemma on_client_closed_sel [simp]:
  "send_queue (on_client_closed st) = send_queue st" "blocks (on_client_closed st) = blocks st"
  "resp_buf (on_client_closed st) = resp_buf st" "sent_down (out (on_client_closed st)) = sent_down (out st)"
  by (simp_all add: on_client_closed_def Let_def)

lemma client_writable_ok:
  assumes "http_inv k st"
  shows "http_inv k (on_client_writable rs st) \<and>
    sent_down (out (on_client_writable rs st)) @ pending (send_queue (on_client_writable rs st)) =
      sent_down (out st) @ pending (send_queue st)"
proof -
  obtain st' failed where d: "client_drain rs st = (st', failed)" by (cases "client_drain rs st")
  with client_drain_ok [OF assms d] show ?thesis by (auto simp: on_client_writable_def http_inv_def)
qed

section \<open>Runs\<close>

text \<open>One event of a session: the handler the event loop calls, with what the system answers. The upstream socket
  exists once \<open>send_rtsp_option\<close> has run, and the timer once \<open>init_timer_fd\<close> has.\<close>

inductive http_step :: "server_config \<Rightarrow> http_client \<Rightarrow> http_client \<Rightarrow> bool" for cfg where
  rtp: "on_rtp_readable cfg a dgram st = Some st' \<Longrightarrow> http_step cfg st st'"
| readable: "is_init_ok st \<Longrightarrow> on_rtsp_readable fuel cfg chunks fin st = Some (Some st') \<Longrightarrow> http_step cfg st st'"
| writable: "is_init_ok st \<Longrightarrow> http_step cfg st (on_rtsp_writable so_ok sockname r st)"
| client: "http_step cfg st (handle_client ev rs st)"
| timer: "Watch TimerFd [EPOLLIN] \<in> set (out st) \<Longrightarrow> http_step cfg st (handle_timer ev st)"

inductive http_run :: "server_config \<Rightarrow> http_client \<Rightarrow> http_client \<Rightarrow> bool" for cfg where
  run_refl: "http_run cfg st st"
| run_step: "http_run cfg st st' \<Longrightarrow> http_step cfg st' st'' \<Longrightarrow> http_run cfg st st''"

lemma http_step_inv:
  assumes "http_step cfg st st'" and "http_inv k st"
  shows "http_inv k st'"
  using assms
proof (cases rule: http_step.cases)
  case (rtp a dgram)
  with rtp_readable_ok [OF assms(2), of cfg a dgram] show ?thesis by auto
next
  case (readable fuel chunks fin)
  with rtsp_readable_ok [OF assms(2), of fuel cfg chunks fin] show ?thesis by auto
next
  case (writable so_ok sockname r)
  with assms(2) http_inv_same [OF assms(2) same_data_writable] show ?thesis by simp
next
  case (client ev rs)
  with assms(2) client_writable_ok [OF assms(2), of rs] show ?thesis
    by (auto simp: handle_client_def http_inv_def)
next
  case (timer ev)
  with assms(2) show ?thesis
    by (auto simp: handle_timer_def intro: http_inv_same [OF assms(2) same_data_build])
qed

lemma http_run_inv: "http_run cfg st st' \<Longrightarrow> http_inv k st \<Longrightarrow> http_inv k st'"
  by (induction rule: http_run.induct) (auto dest: http_step_inv)

text \<open>A new client, in a pool whose blocks hold the header of the HTTP answer.\<close>

lemma response_header_length: "length response_header = 64"
  by (simp add: response_header_def)

lemma sockets_sel [simp]:
  "send_queue (init_rtp_rtcp_sockets cfg env st) = send_queue st"
  "blocks (init_rtp_rtcp_sockets cfg env st) = blocks st"
  "resp_buf (init_rtp_rtcp_sockets cfg env st) = resp_buf st"
  by (simp_all add: init_rtp_rtcp_sockets_def Let_def split: prod.splits)

lemma new_client_ok:
  assumes "bp_inv bp" and "64 \<le> get_buffer_size bp"
  obtains st where "RTSPToHttpClient cfg env a junk ctx bp pp = Some st" and "http_inv (on_loan bp) st"
    and "pending (send_queue st) = bytes_of response_header" and "resp_buf st = []"
proof -
  obtain buf bp' where acq: "acquire bp = (buf, bp')" by (cases "acquire bp")
  have "owns (on_loan bp) [] bp" using assms(1) by (simp add: owns_def)
  note o = owns_acquire [OF this acq]
  then obtain buf' where w: "wr buf 0 (bytes_of response_header) = Some buf'"
    using assms(2) response_header_length wr_ok [of 0 "bytes_of response_header" buf] by auto
  let ?p = "Packet buf' (length response_header) 0"
  have "pkt_ok (get_buffer_size bp') ?p"
    using o wr_length [OF w] assms(2) response_header_length by (simp add: pkt_ok_def Packet_def)
  then have own: "owns (on_loan bp) [?p] bp'" using o owns_push [of "on_loan bp" "[]" bp' ?p] by simp
  have rem: "remaining ?p = bytes_of response_header"
    using w by (auto simp: remaining_def Packet_def wr_def split: if_splits)
  let ?init = "emit (Watch DownstreamSock [EPOLLRDHUP, EPOLLHUP, EPOLLERR])
      (emit (Unwatch DownstreamSock) (initial_client ctx junk cfg bp pp))"
  have s: "send_http_response ?init = Some (?init\<lparr>blocks := bp', send_queue := [?p]\<rparr>)"
    using acq w by (simp add: send_http_response_def initial_client_def emit_def)
  have r: "resp_buf ?init = []" by (simp add: initial_client_def)
  show thesis
  proof (cases "nat_stun cfg")
    case True
    with s own rem r show thesis
      by (intro that [of "emit StunRequest (init_rtp_rtcp_sockets cfg env (?init\<lparr>blocks := bp', send_queue := [?p]\<rparr>))"])
         (simp_all add: RTSPToHttpClient_def http_inv_def)
  next
    case False
    with s own rem r show thesis
      by (intro that [of "send_rtsp_option cfg a ((init_rtp_rtcp_sockets cfg env
              (?init\<lparr>blocks := bp', send_queue := [?p]\<rparr>))\<lparr>is_init_ok := True\<rparr>)"])
         (simp_all add: RTSPToHttpClient_def http_inv_def)
  qed
qed

section \<open>The dialogue with the server\<close>

text \<open>A request is issued at once: the queue of requests is empty between events, the request in progress has the last
  number given out, keep-alives are sent only while streaming, and streaming starts with PLAY.\<close>

definition dialogue :: "http_client \<Rightarrow> bool" where
  "dialogue st \<longleftrightarrow> request_queue st = [] \<and> req_cseq (current_request st) = cseq st - 1 \<and>
     (hstate st = STREAMING \<longleftrightarrow> Watch TimerFd [EPOLLIN] \<in> set (out st)) \<and>
     (hstate st = STREAMING \<longrightarrow> is_init_ok st \<and> req_method (current_request st) \<in> {PLAY, GET_PARAMETER}) \<and>
     (req_method (current_request st) = GET_PARAMETER \<longrightarrow> hstate st = STREAMING \<or> \<not> is_init_ok st)"

lemma build_push:
  "request_queue st = [] \<Longrightarrow>
   build_and_send_request (push_request_into_queue m u h b st) =
     emit (Watch UpstreamSock [EPOLLOUT])
       (st\<lparr>current_request := \<lparr>req_method = m, req_uri = u, req_headers = h, req_body = b, req_cseq = cseq st\<rparr>,
           cseq := cseq st + 1,
           req_buf := request_text (session_id (hctx st))
             \<lparr>req_method = m, req_uri = u, req_headers = h, req_body = b, req_cseq = cseq st\<rparr>,
           tcp_send_offset := 0\<rparr>)"
  by (simp add: build_and_send_request_def push_request_into_queue_def emit_def)

lemma dialogue_build:
  assumes "dialogue st" and "m = GET_PARAMETER \<Longrightarrow> hstate st = STREAMING" and "hstate st = STREAMING \<Longrightarrow> m \<in> {PLAY, GET_PARAMETER}"
  shows "dialogue (build_and_send_request (push_request_into_queue m u h b st))"
  using assms by (auto simp: dialogue_def build_push)

lemma dialogue_emit [simp]: "e \<noteq> Watch TimerFd [EPOLLIN] \<Longrightarrow> dialogue (emit e st) = dialogue st"
  by (auto simp: dialogue_def)

lemma dialogue_upd [simp]:
  "dialogue (st\<lparr>hctx := c\<rparr>) = dialogue st" "dialogue (st\<lparr>resp_buf := s\<rparr>) = dialogue st"
  "dialogue (st\<lparr>setup_retry_with_tcp := b\<rparr>) = dialogue st" "dialogue (st\<lparr>blocks := bp\<rparr>) = dialogue st"
  "dialogue (st\<lparr>send_queue := q\<rparr>) = dialogue st" "dialogue (st\<lparr>wait_for_keyframe := b\<rparr>) = dialogue st"
  "dialogue (st\<lparr>is_tcp_mode := b\<rparr>) = dialogue st" "dialogue (st\<lparr>interleaved_rtp_channel := x\<rparr>) = dialogue st"
  "dialogue (st\<lparr>interleaved_rtcp_channel := x\<rparr>) = dialogue st" "dialogue (st\<lparr>server_rtp_addr := ra\<rparr>) = dialogue st"
  "dialogue (st\<lparr>server_rtcp_addr := ra\<rparr>) = dialogue st" "dialogue (st\<lparr>tcp_send_offset := n\<rparr>) = dialogue st"
  "dialogue (st\<lparr>is_closed := b\<rparr>) = dialogue st" "dialogue (st\<lparr>local_ip := s\<rparr>) = dialogue st"
  "dialogue (st\<lparr>local_tcp_port := pt\<rparr>) = dialogue st" "dialogue (st\<lparr>nat_wan_ip := s\<rparr>) = dialogue st"
  "dialogue (st\<lparr>nat_wan_port := pt\<rparr>) = dialogue st" "dialogue (st\<lparr>has_callback := b\<rparr>) = dialogue st"
  "dialogue (st\<lparr>hrtp_port := pt\<rparr>) = dialogue st" "dialogue (st\<lparr>hports := pp\<rparr>) = dialogue st"
  by (simp_all add: dialogue_def)

lemma setup_cases:
  "send_rtsp_setup cfg body st = emit ClosedCallback st1 \<or>
   (\<exists>u h. send_rtsp_setup cfg body st = build_and_send_request (push_request_into_queue SETUP u h [] st1))"
  if "st1 = (if body \<noteq> [] then st\<lparr>hctx := parseSDP body (hctx st)\<rparr> else st)"
  unfolding that send_rtsp_setup_def Let_def by auto

lemma dialogue_setup:
  "dialogue st \<Longrightarrow> hstate st \<noteq> STREAMING \<Longrightarrow> dialogue (send_rtsp_setup cfg body st)"
  using setup_cases [OF refl, of cfg body st] dialogue_build
  by (cases "body = []") (auto intro!: dialogue_build)

lemma dialogue_describe:
  "dialogue st \<Longrightarrow> hstate st \<noteq> STREAMING \<Longrightarrow> dialogue (send_rtsp_describe cfg st)"
  unfolding send_rtsp_describe_def Let_def by (rule dialogue_build) auto

lemma dialogue_play: "dialogue st \<Longrightarrow> dialogue (send_rtsp_play cfg st)"
  unfolding send_rtsp_play_def Let_def by (rule dialogue_build) auto

lemma dialogue_addr: "dialogue (init_rtp_rtcp_server_addr st) = dialogue st"
  by (simp add: init_rtp_rtcp_server_addr_def Let_def dialogue_def)

lemma dialogue_streaming:
  "dialogue st \<Longrightarrow> is_init_ok st \<Longrightarrow> req_method (current_request st) = PLAY \<Longrightarrow>
   dialogue ((init_timer_fd (st\<lparr>wait_for_keyframe := w\<rparr>))\<lparr>hstate := STREAMING\<rparr>)"
  by (simp add: dialogue_def init_timer_fd_def)

lemma dialogue_response:
  assumes "dialogue st" and "is_init_ok st"
  shows "dialogue (step_state (handle_response cfg h b st))"
proof -
  let ?m = "req_method (current_request st)"
  have ns: "hstate st \<noteq> STREAMING" if "?m \<in> {OPTIONS, DESCRIBE, SETUP}"
    using assms(1) that by (auto simp: dialogue_def)
  have heart: "dialogue (send_zte_heartbeat x) = dialogue x" "dialogue (send_rtp_trigger x) = dialogue x" for x
    by (simp_all add: send_zte_heartbeat_def send_rtp_trigger_def)
  have play: "dialogue (send_rtsp_play cfg (st\<lparr>hctx := c, is_tcp_mode := t, interleaved_rtp_channel := x, interleaved_rtcp_channel := y\<rparr>))"
    for c t x y by (rule dialogue_play) (simp add: assms(1))
  have play2: "dialogue (send_rtsp_play cfg (send_zte_heartbeat (init_rtp_rtcp_server_addr (st\<lparr>hctx := c, is_tcp_mode := t\<rparr>))))"
    "dialogue (send_rtsp_play cfg (send_rtp_trigger (init_rtp_rtcp_server_addr (st\<lparr>hctx := c, is_tcp_mode := t\<rparr>))))" for c t
    by (rule dialogue_play; simp add: heart dialogue_addr assms(1))+
  have stp: "dialogue (send_rtsp_setup cfg d (st\<lparr>hctx := c\<rparr>))" "dialogue (send_rtsp_setup cfg d (st\<lparr>hctx := c, setup_retry_with_tcp := True\<rparr>))"
    if "?m \<in> {OPTIONS, DESCRIBE, SETUP}" for c d
    by (rule dialogue_setup; simp add: assms(1) ns [OF that])+
  have desc: "dialogue (send_rtsp_describe cfg (st\<lparr>hctx := c\<rparr>))" if "?m = OPTIONS" for c
    by (rule dialogue_describe) (use that assms(1) ns in auto)
  have stream: "dialogue ((init_timer_fd (st\<lparr>hctx := c, wait_for_keyframe := w\<rparr>))\<lparr>hstate := STREAMING\<rparr>)" if "?m = PLAY" for c w
    using dialogue_streaming [of "st\<lparr>hctx := c\<rparr>"] assms that by simp
  show ?thesis
    unfolding handle_response_def Let_def
    using assms stp desc play play2 stream by (auto split: prod.splits)
qed

lemma init_ok_requests [simp]:
  "is_init_ok (build_and_send_request st) = is_init_ok st"
  "is_init_ok (push_request_into_queue m u h b st) = is_init_ok st"
  "is_init_ok (init_rtp_rtcp_server_addr st) = is_init_ok st"
  "is_init_ok (send_rtsp_setup cfg d st) = is_init_ok st"
  by (simp_all add: build_and_send_request_def push_request_into_queue_def init_rtp_rtcp_server_addr_def
      send_rtsp_setup_def Let_def split: list.splits)

lemma init_ok_response: "is_init_ok (step_state (handle_response cfg h b st)) = is_init_ok st"
  by (auto simp: handle_response_def Let_def send_rtsp_describe_def send_rtsp_play_def send_zte_heartbeat_def
      send_rtp_trigger_def init_timer_fd_def split: prod.splits)

lemma forward_keeps:
  "case forward_block cfg buf n st of None \<Rightarrow> True | Some (f, b1, n1, st1) \<Rightarrow>
     dialogue st1 = dialogue st \<and> is_init_ok st1 = is_init_ok st \<and> hstate st1 = hstate st"
  by (simp add: forward_block_def Let_def split: bind_split option.split prod.split)

lemma dialogue_forward:
  "forward_block cfg buf n st = Some (f, b1, n1, st1) \<Longrightarrow>
     dialogue st1 = dialogue st \<and> is_init_ok st1 = is_init_ok st \<and> hstate st1 = hstate st"
  using forward_keeps [where cfg = cfg and buf = buf and n = n and st = st] by simp

lemma interleaved_keeps:
  "case handle_interleaved_packet cfg ch dat st of None \<Rightarrow> True | Some st1 \<Rightarrow>
     dialogue st1 = dialogue st \<and> is_init_ok st1 = is_init_ok st"
  by (simp add: handle_interleaved_packet_def Let_def dialogue_forward [THEN conjunct1]
      dialogue_forward [THEN conjunct2, THEN conjunct1] split: bind_split option.split prod.split)

lemma dialogue_interleaved:
  "handle_interleaved_packet cfg ch dat st = Some st1 \<Longrightarrow>
     dialogue st1 = dialogue st \<and> is_init_ok st1 = is_init_ok st"
  using interleaved_keeps [where cfg = cfg and ch = ch and dat = dat and st = st] by simp

lemma dialogue_resp_step_case:
  assumes "dialogue st" and "is_init_ok st"
  shows "case resp_step cfg st of None \<Rightarrow> True | Some s \<Rightarrow> dialogue (step_state s) \<and> is_init_ok (step_state s)"
proof -
  have r: "dialogue (step_state (handle_response cfg h b (st\<lparr>resp_buf := x\<rparr>)))"
    "is_init_ok (step_state (handle_response cfg h b (st\<lparr>resp_buf := x\<rparr>)))" for h b x
    using assms by (simp_all add: dialogue_response init_ok_response)
  have i: "dialogue st1 \<and> is_init_ok st1" if "handle_interleaved_packet cfg ch dat (emit (AddUp n) (emit (EstUp n) st)) = Some st1" for ch dat n st1
    using dialogue_interleaved [OF that] assms by simp
  show ?thesis using assms
    by (simp add: resp_step_def Let_def r split: bind_split option.split) (blast dest: i)
qed

lemma dialogue_resp_step:
  "resp_step cfg st = Some s \<Longrightarrow> dialogue st \<Longrightarrow> is_init_ok st \<Longrightarrow>
   dialogue (step_state s) \<and> is_init_ok (step_state s)"
  using dialogue_resp_step_case [where cfg = cfg and st = st] by simp

lemma dialogue_resp_loop:
  "resp_loop n cfg st = Some (Some (st', ret)) \<Longrightarrow> dialogue st \<Longrightarrow> is_init_ok st \<Longrightarrow>
   dialogue st' \<and> is_init_ok st'"
proof (induction n arbitrary: st)
  case (Suc n)
  show ?case
  proof (cases "resp_buf st = []")
    case False
    with Suc.prems obtain s where s: "resp_step cfg st = Some s" by (auto split: option.splits)
    have "dialogue (step_state s) \<and> is_init_ok (step_state s)"
      using dialogue_resp_step [OF s] Suc.prems by blast
    with Suc False s show ?thesis by (cases s) auto
  qed (use Suc.prems in auto)
qed (auto split: if_splits)

lemma dialogue_readable:
  "on_rtsp_readable n cfg chunks fin st = Some (Some st') \<Longrightarrow> dialogue st \<Longrightarrow> is_init_ok st \<Longrightarrow> dialogue st'"
proof (induction chunks arbitrary: st)
  case Nil
  then show ?case by (cases fin) auto
next
  case (Cons c cs)
  then obtain st1 ret where l: "resp_loop n cfg (st\<lparr>resp_buf := resp_buf st @ c\<rparr>) = Some (Some (st1, ret))"
    by (auto split: option.splits)
  from dialogue_resp_loop [OF l] Cons.prems have "dialogue st1" "is_init_ok st1" by simp_all
  with Cons l show ?case by (cases ret) auto
qed

lemma dialogue_option:
  assumes "dialogue st" and "hstate st \<noteq> STREAMING"
  shows "dialogue (send_rtsp_option cfg a st)"
proof -
  have "dialogue (connect_server cfg a st) \<and> hstate (connect_server cfg a st) \<noteq> STREAMING"
    using assms by (auto simp: connect_server_def dialogue_def split: prod.splits)
  then show ?thesis unfolding send_rtsp_option_def Let_def by (intro dialogue_build) auto
qed

lemma dialogue_rtp_case:
  assumes "dialogue st"
  shows "case on_rtp_readable cfg a dgram st of None \<Rightarrow> True | Some st' \<Rightarrow> dialogue st'"
proof -
  have opt: "dialogue (send_rtsp_option cfg a (x\<lparr>blocks := bp, is_init_ok := True\<rparr>))"
    if "dialogue x" "\<not> is_init_ok x" for x bp
  proof -
    have h: "hstate x \<noteq> STREAMING" "request_queue x = []" using that by (auto simp: dialogue_def)
    let ?y = "connect_server cfg a (x\<lparr>blocks := bp, is_init_ok := True\<rparr>)"
    have y: "request_queue ?y = []" "hstate ?y \<noteq> STREAMING" "Watch TimerFd [EPOLLIN] \<notin> set (out ?y)"
      using h that(1) by (auto simp: connect_server_def dialogue_def split: prod.splits)
    show ?thesis unfolding send_rtsp_option_def Let_def build_push [OF y(1)] using y by (simp add: dialogue_def)
  qed
  have f: "dialogue st1" if "forward_block cfg buf n (emit (AddUp m) (emit (EstUp m) (st\<lparr>blocks := bp\<rparr>))) = Some (fw, b1, n1, st1)"
    for buf n m bp fw b1 n1 st1
    using dialogue_forward [OF that] assms by simp
  show ?thesis using assms
    by (simp add: on_rtp_readable_def Let_def opt split: bind_split option.split prod.split) (auto dest: f intro!: opt)
qed
lemma dialogue_rtp: "on_rtp_readable cfg a dgram st = Some st' \<Longrightarrow> dialogue st \<Longrightarrow> dialogue st'"
  using dialogue_rtp_case [where cfg = cfg and a = a and dgram = dgram and st = st] by simp

lemma dialogue_writable:
  assumes "dialogue st"
  shows "dialogue (on_rtsp_writable so_ok sockname r st)"
proof -
  have send: "dialogue (send_request_bytes r x) = dialogue x" for x
    by (simp add: send_request_bytes_def Let_def split: send_result.split)
  have "dialogue (rtsp_connected sockname st)" if "hstate st = CONNECTING"
    using assms that by (simp add: rtsp_connected_def dialogue_def split: option.split prod.split)
  with assms show ?thesis by (simp add: on_rtsp_writable_def send)
qed

lemma dialogue_drain: "dialogue (fst (client_drain rs st)) = dialogue st"
proof (induction rs arbitrary: st)
  case (Cons r rs)
  show ?case by (simp add: Let_def Cons.IH split: list.split send_result.split)
qed simp

lemma dialogue_step:
  assumes "http_step cfg st st'" and "dialogue st"
  shows "dialogue st'"
  using assms
proof (cases rule: http_step.cases)
  case (rtp a dgram)
  then show ?thesis using assms(2) dialogue_rtp by blast
next
  case (readable fuel chunks fin)
  then show ?thesis using assms(2) dialogue_readable by blast
next
  case (writable so_ok sockname r)
  with assms(2) show ?thesis by (simp add: dialogue_writable)
next
  case (client ev rs)
  have "dialogue (on_client_closed x) = dialogue x" for x by (simp add: on_client_closed_def Let_def)
  moreover have "dialogue (fst (client_drain rs st))" using assms(2) by (simp add: dialogue_drain)
  ultimately show ?thesis using client assms(2)
    by (cases "client_drain rs st") (simp add: handle_client_def on_client_writable_def)
next
  case (timer ev)
  then have "hstate st = STREAMING" using assms(2) by (simp add: dialogue_def)
  with timer assms(2) show ?thesis by (auto simp: handle_timer_def intro!: dialogue_build)
qed

lemma dialogue_run: "http_run cfg st st' \<Longrightarrow> dialogue st \<Longrightarrow> dialogue st'"
  by (induction rule: http_run.induct) (auto dest: dialogue_step)

lemma dialogue_sockets: "dialogue (init_rtp_rtcp_sockets cfg env st) = dialogue st"
  "hstate (init_rtp_rtcp_sockets cfg env st) = hstate st" "request_queue (init_rtp_rtcp_sockets cfg env st) = request_queue st"
  by (simp_all add: init_rtp_rtcp_sockets_def Let_def split: prod.split)

lemma dialogue_new:
  assumes "RTSPToHttpClient cfg env a junk ctx bp pp = Some st"
  shows "dialogue st"
proof -
  let ?init = "emit (Watch DownstreamSock [EPOLLRDHUP, EPOLLHUP, EPOLLERR])
      (emit (Unwatch DownstreamSock) (initial_client ctx junk cfg bp pp))"
  have i: "dialogue ?init" "hstate ?init \<noteq> STREAMING" "Watch TimerFd [EPOLLIN] \<notin> set (out ?init)"
    by (simp_all add: dialogue_def initial_client_def)
  from assms obtain st1 where s: "send_http_response ?init = Some st1"
    by (cases "send_http_response ?init") (simp_all add: RTSPToHttpClient_def Let_def)
  then have st1: "dialogue st1 \<and> hstate st1 \<noteq> STREAMING \<and> Watch TimerFd [EPOLLIN] \<notin> set (out st1) \<and> request_queue st1 = []"
    using i by (cases "acquire (blocks ?init)")
      (auto simp: send_http_response_def bind_eq_Some_conv dialogue_def initial_client_def)
  let ?st2 = "init_rtp_rtcp_sockets cfg env st1"
  show ?thesis
  proof (cases "nat_stun cfg")
    case True
    with assms s st1 show ?thesis by (auto simp: RTSPToHttpClient_def Let_def dialogue_sockets)
  next
    case False
    let ?y = "connect_server cfg a (?st2\<lparr>is_init_ok := True\<rparr>)"
    have t: "Watch TimerFd [EPOLLIN] \<notin> set (out ?st2)"
      using st1 by (simp add: init_rtp_rtcp_sockets_def Let_def split: prod.split)
    then have y: "request_queue ?y = []" "hstate ?y \<noteq> STREAMING" "Watch TimerFd [EPOLLIN] \<notin> set (out ?y)"
      using st1 by (simp_all add: connect_server_def dialogue_sockets split: prod.split)
    have "st = send_rtsp_option cfg a (?st2\<lparr>is_init_ok := True\<rparr>)"
      using assms s False by (simp add: RTSPToHttpClient_def Let_def)
    then show ?thesis unfolding send_rtsp_option_def Let_def build_push [OF y(1)] using y by (simp add: dialogue_def)
  qed
qed

section \<open>Splitting the input\<close>

text \<open>All the \<open>Content-Length\<close> values a peer can make the loop see are not negative.\<close>

definition lengths_ok :: "string \<Rightarrow> bool" where
  "lengths_ok s \<longleftrightarrow> list_all (\<lambda>t. case str_find (CRLF @ CRLF) t of None \<Rightarrow> True
     | Some e \<Rightarrow> 0 \<le> get_content_length (take (e + 4) t)) (suffixes s)"

lemma lengths_ok_find:
  "lengths_ok s \<Longrightarrow> str_find (CRLF @ CRLF) s = Some e \<Longrightarrow> 0 \<le> get_content_length (take (e + 4) s)"
  by (cases s) (auto simp: lengths_ok_def)

lemma lengths_ok_drop: "lengths_ok s \<Longrightarrow> lengths_ok (drop n s)"
proof (induction n arbitrary: s)
  case (Suc n)
  then show ?case by (cases s) (auto simp: lengths_ok_def)
qed simp

lemma get_content_length_range: "get_content_length h < 2 ^ 31"
  using stoi_range by (auto simp: get_content_length_def Let_def split: option.splits sum.splits)

lemma message_total_pos:
  assumes "0 \<le> cl" and "cl < 2 ^ 31" and "e < 2 ^ 63"
  shows "0 < message_total e cl"
  using assms by (simp add: message_total_def)

lemma resp_step_rest:
  assumes "resp_step cfg st = Some (Continue st1)" and "lengths_ok (resp_buf st)" and "length (resp_buf st) < 2 ^ 63"
  shows "\<exists>m. 0 < m \<and> resp_buf st1 = drop m (resp_buf st)"
proof (cases "hd (resp_buf st) = CHR ''$''")
  case True
  with assms(1) show ?thesis
    by (intro exI [of _ "4 + frame_len (resp_buf st)"])
       (auto simp: resp_step_def Let_def bind_eq_Some_conv split: if_splits)
next
  case False
  then obtain e where e: "str_find (CRLF @ CRLF) (resp_buf st) = Some e"
    using assms(1) by (cases "str_find (CRLF @ CRLF) (resp_buf st)") (simp_all add: resp_step_def Let_def)
  let ?cl = "get_content_length (take (e + 4) (resp_buf st))"
  let ?t = "message_total e ?cl"
  have "e < 2 ^ 63" using str_find_bound [OF e] assms(3) by simp
  then have "0 < ?t"
    using lengths_ok_find [OF assms(2) e] get_content_length_range by (intro message_total_pos) auto
  moreover have "handle_response cfg (take (e + 4) (resp_buf st)) (message_body (resp_buf st) e ?cl)
      (st\<lparr>resp_buf := drop ?t (resp_buf st)\<rparr>) = Continue st1"
    using assms(1) False e by (auto simp: resp_step_def Let_def split: if_splits)
  then have "same_data (st\<lparr>resp_buf := drop ?t (resp_buf st)\<rparr>) st1"
    using same_data_response by (metis step_state.simps(2))
  ultimately show ?thesis by (auto simp: same_data_def)
qed

lemma resp_loop_enough:
  assumes "lengths_ok (resp_buf st)" and "length (resp_buf st) < 2 ^ 63" and "length (resp_buf st) \<le> n"
  shows "resp_loop n cfg st \<noteq> None"
  using assms
proof (induction n arbitrary: st)
  case (Suc n)
  show ?case
  proof (cases "resp_buf st = []")
    case False
    show ?thesis
    proof (cases "\<exists>st1. resp_step cfg st = Some (Continue st1)")
      case True
      then obtain st1 m where s: "resp_step cfg st = Some (Continue st1)" and m: "0 < m" "resp_buf st1 = drop m (resp_buf st)"
        using resp_step_rest Suc.prems by blast
      have "length (resp_buf st1) < length (resp_buf st)" using m False by (cases "resp_buf st") auto
      then have "resp_loop n cfg st1 \<noteq> None"
        using Suc.prems m lengths_ok_drop by (intro Suc.IH) auto
      with False s show ?thesis by simp
    next
      case no: False
      show ?thesis
      proof (cases "resp_step cfg st")
        case (Some x)
        with no False show ?thesis by (cases x) auto
      qed (use False in auto)
    qed
  qed simp
qed simp

section \<open>Properties\<close>

text \<open>The bytes for the HTTP client: those sent, then those queued.\<close>

definition down_stream :: "http_client \<Rightarrow> u8 list" where
  "down_stream st = sent_down (out st) @ pending (send_queue st)"

text \<open>A new client for the examples; every system call succeeds.\<close>

definition example_new :: "http_client option" where
  "example_new = RTSPToHttpClient default_config (\<lambda>_. (ok_answers 7, ok_answers 8)) (ok_answers 9) OPTIONS
     (new_ctx (554, 0, 0)) (BufferPool 128 2) PortPool"

lemma wait_option [simp]:
  "wait_for_keyframe (init_rtp_rtcp_sockets cfg env st) = wait_for_keyframe st"
  "wait_for_keyframe (connect_server cfg a st) = wait_for_keyframe st"
  "wait_for_keyframe (build_and_send_request (push_request_into_queue m u h b st)) = wait_for_keyframe st"
  "wait_for_keyframe (send_rtsp_option cfg a st) = wait_for_keyframe st"
  by (simp_all add: init_rtp_rtcp_sockets_def connect_server_def send_rtsp_option_def Let_def build_and_send_request_def
      push_request_into_queue_def split: prod.split list.split)

lemma new_client_queue:
  assumes "RTSPToHttpClient cfg env a junk ctx bp pp = Some st"
  shows "length (send_queue st) = 1 \<and> wait_for_keyframe st = pipeline_cfg.wait_keyframe (pipe_cfg cfg) \<and>
    get_buffer_size (blocks st) = get_buffer_size (snd (acquire bp))"
  using assms by (auto simp: RTSPToHttpClient_def Let_def bind_eq_Some_conv send_http_response_def initial_client_def
      pipeline_reset_def split: prod.splits if_splits)

lemma init_option: "is_init_ok (send_rtsp_option cfg a st) = is_init_ok st"
proof -
  have "is_init_ok (connect_server cfg a st) = is_init_ok st" by (simp add: connect_server_def split: prod.split)
  then show ?thesis by (simp add: send_rtsp_option_def Let_def)
qed

lemma new_client_init:
  "RTSPToHttpClient cfg env a junk ctx bp pp = Some st \<Longrightarrow> \<not> nat_stun cfg \<Longrightarrow> is_init_ok st"
  by (auto simp: RTSPToHttpClient_def Let_def bind_eq_Some_conv init_option)

lemma example_pool: "bp_inv (BufferPool 128 2)" "64 \<le> get_buffer_size (BufferPool 128 2)" "on_loan (BufferPool 128 2) = 0"
  by (simp, simp_all add: on_loan_def get_total_allocated_def get_available_count_def get_buffer_size_def BufferPool_def)

lemma example_new_ok:
  obtains st where "RTSPToHttpClient default_config (\<lambda>_. (ok_answers 7, ok_answers 8)) (ok_answers 9) OPTIONS
       (new_ctx (554, 0, 0)) (BufferPool 128 2) PortPool = Some st"
    and "example_new = Some st" "length (send_queue st) = 1" "\<not> wait_for_keyframe st" "get_buffer_size (blocks st) = 128"
proof -
  obtain st where st: "RTSPToHttpClient default_config (\<lambda>_. (ok_answers 7, ok_answers 8)) (ok_answers 9) OPTIONS
       (new_ctx (554, 0, 0)) (BufferPool 128 2) PortPool = Some st"
    using example_pool(1,2) by (rule new_client_ok)
  have "get_buffer_size (snd (acquire (BufferPool 128 2))) = 128"
    by (simp add: acquire_def BufferPool_def get_buffer_size_def numeral_2_eq_2)
  moreover have "\<not> pipeline_cfg.wait_keyframe (pipe_cfg default_config)" by (simp add: pipe_cfg_def default_config_def)
  ultimately have "length (send_queue st) = 1" "\<not> wait_for_keyframe st" "get_buffer_size (blocks st) = 128"
    using new_client_queue [OF st] by simp_all
  moreover have "example_new = Some st" unfolding example_new_def by (rule st)
  ultimately show thesis using st that by blast
qed

lemma session_inv:
  assumes "bp_inv bp" and "64 \<le> get_buffer_size bp" and "RTSPToHttpClient cfg env a junk ctx bp pp = Some st0"
    and "http_run cfg (set_on_closed_callback st0) st"
  shows "http_inv (on_loan bp) st"
proof -
  obtain st1 where "RTSPToHttpClient cfg env a junk ctx bp pp = Some st1" "http_inv (on_loan bp) st1"
    using assms(1,2) by (rule new_client_ok)
  with assms(3) have "http_inv (on_loan bp) st0" by simp
  then have "http_inv (on_loan bp) (set_on_closed_callback st0)" by (simp add: http_inv_def set_on_closed_callback_def)
  with assms(4) show ?thesis by (rule http_run_inv)
qed

lemma destroy_loan: "http_inv k st \<Longrightarrow> on_loan (blocks (destroy_http_client st)) = k"
  using owns_release_all [of k "send_queue st" "blocks st"] by (simp add: http_inv_def destroy_http_client_def owns_def)

text \<open>
  C6: Memory safety and accounting of an HTTP session. In every state that a run of the handlers reaches from a new
  client, in a pool whose blocks have at least 64 bytes, no handler accesses memory outside a block, the client holds
  exactly the blocks of its queue, at most 513, and destroying it gives all of them back.
\<close>

theorem http_session_blocks:
  assumes "bp_inv bp" and "64 \<le> get_buffer_size bp" and "RTSPToHttpClient cfg env a junk ctx bp pp = Some st0"
    and "http_run cfg (set_on_closed_callback st0) st"
  shows "(\<forall>b d. on_rtp_readable cfg b d st \<noteq> None) \<and>
    (\<forall>n cs fin. on_rtsp_readable n cfg cs fin st \<noteq> Some None) \<and>
    on_loan (blocks st) = on_loan bp + length (send_queue st) \<and> length (send_queue st) \<le> 513 \<and>
    on_loan (blocks (destroy_http_client st)) = on_loan bp"
proof -
  have inv: "http_inv (on_loan bp) st" using assms by (rule session_inv)
  have "on_rtp_readable cfg b d st \<noteq> None" for b d using rtp_readable_ok [OF inv, of cfg b d] by auto
  moreover have "on_rtsp_readable n cfg cs fin st \<noteq> Some None" for n cs fin
    using rtsp_readable_ok [OF inv, of n cfg cs fin] by auto
  moreover have "on_loan (blocks st) = on_loan bp + length (send_queue st) \<and> length (send_queue st) \<le> 513"
    using inv by (simp add: http_inv_def owns_def)
  ultimately show ?thesis using destroy_loan [OF inv] by blast
qed


lemma payload_offset_append:
  "get_payload_offset (dat @ x) (length dat) = get_payload_offset dat (length dat)"
  by (simp add: get_payload_offset_def Let_def rd_def nth_append)

text \<open>A packet the pipeline lets through unchanged is appended to the queue with its payload offset.\<close>

lemma forward_plain:
  assumes "get_payload_offset dat (length dat) = Some (Some po)" and "\<not> server_config.strip_padding cfg"
    and "\<not> wait_for_keyframe st" and "length (send_queue st) \<le> 512"
  shows "forward_block cfg (dat @ x) (length dat) st =
    Some (True, dat @ x, length dat, st\<lparr>send_queue := send_queue st @ [Packet (dat @ x) (length dat) po]\<rparr>)"
proof -
  have l: "12 \<le> length dat" using get_payload_offset_12 [OF assms(1)] by simp
  then have "rtp_v2 ((dat @ x) ! 0)"
    using assms(1) by (auto simp: get_payload_offset_def rd_def nth_append bind_eq_Some_conv split: if_splits)
  with l assms have "process (pipe_cfg cfg) (wait_for_keyframe st) (dat @ x) (length dat) =
      Some \<lparr>forward = True, waiting = False, out_buf = dat @ x, out_len = length dat\<rparr>"
    by (auto simp: process_def process_forward_def pipe_cfg_def strip_off rd_def)
  with assms show ?thesis
    by (cases st) (simp add: forward_block_def payload_offset_append push_bounded_def)
qed

lemma remaining_plain: "remaining (Packet (dat @ x) (length dat) po) = drop po dat"
  by (simp add: remaining_def Packet_def)

lemma down_stream_simps [simp]:
  "down_stream (emit (Watch r fl) st) = down_stream st" "down_stream (emit (AddUp n) st) = down_stream st"
  "down_stream (emit (EstUp n) st) = down_stream st" "down_stream (emit ClosedCallback st) = down_stream st"
  "down_stream (st\<lparr>blocks := bp\<rparr>) = down_stream st"
  "down_stream (st\<lparr>send_queue := send_queue st @ [p]\<rparr>) = down_stream st @ remaining p"
  by (simp_all add: down_stream_def)

lemma rtp_payload:
  assumes "http_inv k st" and "length dat \<le> get_buffer_size (blocks st)"
    and "get_payload_offset dat (length dat) = Some (Some po)" and "\<not> server_config.strip_padding cfg"
    and "\<not> wait_for_keyframe st" and "length (send_queue st) \<le> 512"
  shows "\<exists>st'. on_rtp_readable cfg a (Some dat) st = Some st' \<and> down_stream st' = down_stream st @ drop po dat"
    and "\<exists>st'. handle_interleaved_packet cfg (interleaved_rtp_channel st) dat st = Some st' \<and>
      down_stream st' = down_stream st @ drop po dat"
proof -
  obtain b bp where acq: "acquire (blocks st) = (b, bp)" by (cases "acquire (blocks st)")
  have b: "length b = get_buffer_size bp" "length dat \<le> length b"
    using assms(1,2) owns_acquire [OF _ acq] by (auto simp: http_inv_def)
  have l: "length dat \<noteq> 0" "min (length dat) (get_buffer_size bp) = length dat"
    using get_payload_offset_12 [OF assms(3)] b by auto
  have fill: "fill b dat = dat @ drop (length dat) b" using b by (simp add: fill_def)
  have wr: "wr b 0 dat = Some (dat @ drop (length dat) b)" using b by (simp add: wr_def)
  let ?st = "st\<lparr>blocks := bp\<rparr>"
  have f: "forward_block cfg (dat @ x) (length dat) s =
      Some (True, dat @ x, length dat, s\<lparr>send_queue := send_queue s @ [Packet (dat @ x) (length dat) po]\<rparr>)"
    if "wait_for_keyframe s = wait_for_keyframe st" "send_queue s = send_queue st" for x s
    using assms that by (intro forward_plain) auto
  show "\<exists>st'. on_rtp_readable cfg a (Some dat) st = Some st' \<and> down_stream st' = down_stream st @ drop po dat"
    using l by (simp add: on_rtp_readable_def acq Let_def fill f [simplified] remaining_plain)
       (simp add: down_stream_def remaining_plain)
  show "\<exists>st'. handle_interleaved_packet cfg (interleaved_rtp_channel st) dat st = Some st' \<and>
      down_stream st' = down_stream st @ drop po dat"
    using l by (simp add: handle_interleaved_packet_def acq Let_def wr f [simplified])
       (simp add: down_stream_def remaining_plain)
qed

theorem http_session_blocks_witness:
  "\<exists>st0 st. example_new = Some st0 \<and> st = handle_client [EPOLLOUT] [Sent 100] (set_on_closed_callback st0) \<and>
     on_loan (blocks st) = length (send_queue st) \<and> on_loan (blocks (destroy_http_client st)) = 0"
proof -
  obtain st0 where st0: "RTSPToHttpClient default_config (\<lambda>_. (ok_answers 7, ok_answers 8)) (ok_answers 9) OPTIONS
       (new_ctx (554, 0, 0)) (BufferPool 128 2) PortPool = Some st0" "example_new = Some st0"
    by (rule example_new_ok)
  have "http_run default_config (set_on_closed_callback st0)
      (handle_client [EPOLLOUT] [Sent 100] (set_on_closed_callback st0))"
    by (rule run_step [OF run_refl http_step.client])
  from http_session_blocks [OF example_pool(1,2) st0(1) this] st0(2) example_pool(3) show ?thesis by (auto simp only: add_0 simp_thms)
qed






end
