(* ===== verification/Http_Framing.thy ===== *)
theory Http_Framing
  imports Http_Session
begin

text \<open>
  The reading loop of an HTTP session (\<open>on_rtsp_readable\<close>): interleaved frames are recognised whatever the segmentation of the TCP
  stream, the loop ends when no message declares a negative body length, and the message for which it does not end.
\<close>

section \<open>Frames over any segmentation\<close>

text \<open>An interleaved frame as a server writes it, and what the client does with a list of them.\<close>

definition encode_frame :: "u8 \<times> u8 list \<Rightarrow> string" where
  "encode_frame f = string_of ([0x24, fst f] @ htons (of_nat (length (snd f))) @ snd f)"

definition encode_frames :: "(u8 \<times> u8 list) list \<Rightarrow> string" where
  "encode_frames fs = concat (map encode_frame fs)"

fun deliver_frames :: "server_config \<Rightarrow> (u8 \<times> u8 list) list \<Rightarrow> http_client \<Rightarrow> http_client option" where
  "deliver_frames cfg [] st = Some st"
| "deliver_frames cfg ((ch, dat) # fs) st =
     Option.bind (handle_interleaved_packet cfg ch dat
       (emit (AddUp (length dat + 4)) (emit (EstUp (length dat + 4)) st))) (deliver_frames cfg fs)"

text \<open>The rest of a frame is still to come.\<close>

definition incomplete :: "string \<Rightarrow> bool" where
  "incomplete t \<longleftrightarrow> t = [] \<or> hd t = CHR ''$'' \<and> (length t < 4 \<or> length t < 4 + frame_len t)"

lemma forward_resp_buf:
  "forward_block cfg buf n (st\<lparr>resp_buf := x\<rparr>) =
     map_option (\<lambda>(f, b, k, s). (f, b, k, s\<lparr>resp_buf := x\<rparr>)) (forward_block cfg buf n st)"
  by (cases st) (simp add: forward_block_def Let_def split: bind_split option.split prod.split)

lemma interleaved_resp_buf:
  "handle_interleaved_packet cfg ch dat (st\<lparr>resp_buf := x\<rparr>) =
     map_option (\<lambda>s. s\<lparr>resp_buf := x\<rparr>) (handle_interleaved_packet cfg ch dat st)"
proof -
  have e: "(st\<lparr>resp_buf := x, blocks := bp\<rparr>) = st\<lparr>blocks := bp\<rparr>\<lparr>resp_buf := x\<rparr>" for bp by simp
  show ?thesis
    unfolding handle_interleaved_packet_def e
    by (simp add: forward_resp_buf Let_def emit_def split: bind_split option.split prod.split) auto
qed

lemma frame_len_encode:
  assumes "length dat < 65536"
  shows "frame_len (encode_frame (ch, dat) @ s) = length dat" "length (encode_frame (ch, dat)) = length dat + 4"
    "hd (encode_frame (ch, dat) @ s) = CHR ''$''" "(of_nat (of_char ((encode_frame (ch, dat) @ s) ! Suc 0)) :: u8) = ch"
    "bytes_of (drop 4 (encode_frame (ch, dat))) = dat"
proof -
  have b: "of_char (char_of (unat w) :: char) = unat w" for w :: u8
    using unsigned_less [of w] by simp
  have dollar: "char_of (36 :: nat) = CHR ''$''" by code_simp
  have l: "length dat mod 65536 = length dat" using assms by simp
  have e: "encode_frame (ch, dat) = CHR ''$'' # char_of (unat ch) # char_of (unat (of_nat (length dat div 256) :: u8)) #
      char_of (unat (of_nat (length dat mod 256) :: u8)) # string_of dat"
    using l dollar by (simp add: encode_frame_def htons_def string_of_def)
  have d: "length dat div 256 < 256" using assms by (simp add: less_mult_imp_div_less)
  show "frame_len (encode_frame (ch, dat) @ s) = length dat"
    unfolding e frame_len_def using d by (simp add: b unat_of_nat_u8)
  show "length (encode_frame (ch, dat)) = length dat + 4" "hd (encode_frame (ch, dat) @ s) = CHR ''$''"
    unfolding e by simp_all
  show "(of_nat (of_char ((encode_frame (ch, dat) @ s) ! Suc 0)) :: u8) = ch"
    unfolding e by (simp add: b)
  show "bytes_of (drop 4 (encode_frame (ch, dat))) = dat"
    unfolding e by simp_all
qed


abbreviation short_frames :: "(u8 \<times> u8 list) list \<Rightarrow> bool" where
  "short_frames \<equiv> list_all (\<lambda>f. length (snd f) < 65536)"

lemma encode_frames_simps [simp]:
  "encode_frames [] = []" "encode_frames (f # fs) = encode_frame f @ encode_frames fs"
  by (simp_all add: encode_frames_def)

lemma deliver_frames_append:
  "deliver_frames cfg (fs @ gs) st = Option.bind (deliver_frames cfg fs st) (deliver_frames cfg gs)"
  by (induction fs arbitrary: st) (auto split: bind_split)

lemma loop_incomplete:
  "incomplete t \<Longrightarrow> resp_loop (Suc n) cfg (st\<lparr>resp_buf := t\<rparr>) = Some (Some (st\<lparr>resp_buf := t\<rparr>, False))"
  by (auto simp: incomplete_def resp_step_def Let_def)

lemma emit_resp_buf: "emit e (st\<lparr>resp_buf := x\<rparr>) = (emit e st)\<lparr>resp_buf := x\<rparr>"
  by (simp add: emit_def)

lemma loop_frames:
  "short_frames fs \<Longrightarrow> incomplete t \<Longrightarrow> length fs \<le> n \<Longrightarrow>
   resp_loop (Suc n) cfg (st\<lparr>resp_buf := encode_frames fs @ t\<rparr>) =
     (case deliver_frames cfg fs st of None \<Rightarrow> Some None | Some st' \<Rightarrow> Some (Some (st'\<lparr>resp_buf := t\<rparr>, False)))"
proof (induction fs arbitrary: st n)
  case Nil
  then show ?case by (simp only: encode_frames_simps append_Nil loop_incomplete deliver_frames.simps option.case)
next
  case (Cons f fs)
  obtain ch dat where f: "f = (ch, dat)" by (cases f)
  obtain m where n: "n = Suc m" using Cons.prems(3) by (cases n) auto
  let ?r = "encode_frames fs @ t" and ?s = "encode_frame (ch, dat) @ encode_frames fs @ t"
  have l: "length dat < 65536" using Cons.prems f by simp
  note fl = frame_len_encode [OF l]
  have "encode_frame (ch, dat) \<noteq> []" using fl(2) [of ch] by auto
  moreover have "resp_step cfg (st\<lparr>resp_buf := ?s\<rparr>) =
      map_option (\<lambda>s. Continue (s\<lparr>resp_buf := ?r\<rparr>))
        (handle_interleaved_packet cfg ch dat (emit (AddUp (length dat + 4)) (emit (EstUp (length dat + 4)) st)))"
    unfolding resp_step_def Let_def
    by (simp add: fl emit_resp_buf interleaved_resp_buf split: option.split bind_split) auto
  ultimately show ?case
    using Cons.IH [of m] Cons.prems n f
    by (cases "handle_interleaved_packet cfg ch dat (emit (AddUp (length dat + 4)) (emit (EstUp (length dat + 4)) st))")
       simp_all
qed

lemma incomplete_prefix:
  assumes "incomplete (x @ y)"
  shows "incomplete x"
proof (cases "length x < 4")
  case False
  then have "frame_len (x @ y) = frame_len x" by (simp add: frame_len_def nth_append)
  with assms False show ?thesis by (auto simp: incomplete_def)
qed (use assms in \<open>cases x; auto simp: incomplete_def\<close>)

lemma incomplete_encode: "short_frames fs \<Longrightarrow> incomplete (encode_frames fs @ t) \<Longrightarrow> fs = []"
proof (cases fs)
  case (Cons f gs)
  assume a: "short_frames fs" "incomplete (encode_frames fs @ t)"
  obtain ch dat where f: "f = (ch, dat)" by (cases f)
  have l: "length dat < 65536" using a f Cons by simp
  show ?thesis using a(2) Cons f frame_len_encode(1,3) [OF l, of ch "encode_frames gs @ t"] frame_len_encode(2) [OF l, of ch]
    by (simp add: incomplete_def)
qed simp

lemma proper_prefix_incomplete:
  assumes "encode_frame f = x @ z" and "z \<noteq> []" and "length (snd f) < 65536"
  shows "incomplete x"
proof -
  obtain ch dat where f: "f = (ch, dat)" by (cases f)
  have l: "length dat < 65536" using assms(3) f by simp
  note fl = frame_len_encode(1,3) [OF l, of ch "[]"] frame_len_encode(2) [OF l, of ch]
  show ?thesis
  proof (cases "length x < 4")
    case True
    with fl(2) assms(1) f show ?thesis by (cases x) (auto simp: incomplete_def)
  next
    case False
    then have "frame_len x = length dat" using fl(1) assms(1) f by (simp add: frame_len_def nth_append)
    moreover have "hd x = CHR ''$''" using fl(2) assms(1) f False by (cases x) auto
    moreover have "length x < length dat + 4" using fl(3) assms(1,2) f by (cases z) auto
    ultimately show ?thesis by (simp add: incomplete_def)
  qed
qed

lemma prefix_frames:
  assumes "x @ y = encode_frames fs @ t" and "incomplete t" and "short_frames fs"
  shows "\<exists>k t'. x = encode_frames (take k fs) @ t' \<and> incomplete t' \<and> t' @ y = encode_frames (drop k fs) @ t"
  using assms
proof (induction fs arbitrary: x)
  case Nil
  then show ?case by (intro exI [of _ 0] exI [of _ x]) (auto intro: incomplete_prefix)
next
  case (Cons f fs)
  show ?case
  proof (cases "length x < length (encode_frame f)")
    case True
    then obtain z where z: "x @ z = encode_frame f"
      using Cons.prems(1) by (auto simp: append_eq_append_conv2)
    with True have "z \<noteq> []" by (metis append_Nil2 less_irrefl)
    with z [symmetric] have "incomplete x" using Cons.prems(3) by (intro proper_prefix_incomplete) auto
    then show ?thesis using Cons.prems(1) by (intro exI [of _ 0] exI [of _ x]) simp
  next
    case False
    let ?n = "length (encode_frame f)"
    have "take ?n (x @ y) = encode_frame f" unfolding Cons.prems(1) by simp
    with False have "x = encode_frame f @ drop ?n x" by (metis append_take_drop_id linorder_not_less take_append take_all diff_is_0_eq take0 append_Nil2)
    then obtain x' where x: "x = encode_frame f @ x'" by blast
    then have "x' @ y = encode_frames fs @ t" using Cons.prems(1) by simp
    with Cons.IH [of x'] Cons.prems obtain k t' where
      "x' = encode_frames (take k fs) @ t'" "incomplete t'" "t' @ y = encode_frames (drop k fs) @ t" by auto
    with x show ?thesis by (intro exI [of _ "Suc k"] exI [of _ t']) simp
  qed
qed

lemma readable_frames:
  assumes "incomplete p" and "p @ concat chunks = encode_frames fs @ t" and "incomplete t" and "short_frames fs"
    and "length fs \<le> n"
  shows "on_rtsp_readable (Suc n) cfg chunks fin (st\<lparr>resp_buf := p\<rparr>) =
    (case deliver_frames cfg fs st of None \<Rightarrow> Some None
     | Some st' \<Rightarrow> on_rtsp_readable (Suc n) cfg [] fin (st'\<lparr>resp_buf := t\<rparr>))"
  using assms
proof (induction chunks arbitrary: p fs st)
  case Nil
  then have "fs = []" using incomplete_encode [of fs t] by simp
  with Nil show ?case by simp
next
  case (Cons c cs)
  from Cons.prems(2) have "(p @ c) @ concat cs = encode_frames fs @ t" by simp
  from prefix_frames [OF this Cons.prems(3,4)] obtain k t' where
    k: "p @ c = encode_frames (take k fs) @ t'" "incomplete t'" "t' @ concat cs = encode_frames (drop k fs) @ t" by blast
  have sh: "short_frames (take k fs)" "short_frames (drop k fs)"
    using Cons.prems(4) by (auto simp: list_all_iff dest: in_set_takeD in_set_dropD)
  have "resp_loop (Suc n) cfg (st\<lparr>resp_buf := p @ c\<rparr>) =
     (case deliver_frames cfg (take k fs) st of None \<Rightarrow> Some None | Some st' \<Rightarrow> Some (Some (st'\<lparr>resp_buf := t'\<rparr>, False)))"
    unfolding k(1) using sh(1) k(2) Cons.prems(5) by (intro loop_frames) auto
  then show ?case
    using Cons.IH [OF k(2,3) Cons.prems(3) sh(2)] Cons.prems(5) deliver_frames_append [of cfg "take k fs" "drop k fs" st]
    by (cases "deliver_frames cfg (take k fs) st") (simp_all del: resp_loop.simps)
qed


lemma deliver_ok: "http_inv k st \<Longrightarrow> \<exists>st'. deliver_frames cfg fs st = Some st' \<and> http_inv k st'"
proof (induction fs arbitrary: st)
  case (Cons f fs)
  obtain ch dat where f: "f = (ch, dat)" by (cases f)
  let ?st = "emit (AddUp (length dat + 4)) (emit (EstUp (length dat + 4)) st)"
  obtain st1 where "handle_interleaved_packet cfg ch dat ?st = Some st1" "http_inv k st1"
    using interleaved_ok [of k ?st cfg ch dat] Cons.prems by auto
  with Cons.IH [of st1] f show ?case by simp
qed simp

section \<open>The reading loop ends\<close>

lemma lengths_ok_prefix: "lengths_ok (s @ t) \<Longrightarrow> lengths_ok s"
proof (induction s)
  case (Cons c s)
  have "0 \<le> get_content_length (take (e + 4) (c # s))" if e: "str_find (CRLF @ CRLF) (c # s) = Some e" for e
  proof -
    have "e + 4 \<le> length (c # s)" using str_find_bound [OF e] by simp
    then have "take (e + 4) (c # s) = take (e + 4) ((c # s) @ t)" by (metis take_append diff_is_0_eq take0 append_Nil2)
    with lengths_ok_find [OF Cons.prems str_find_extend [OF e]] show ?thesis by metis
  qed
  moreover have "lengths_ok s" using Cons by (simp add: lengths_ok_def)
  ultimately show ?case 
    unfolding lengths_ok_def suffixes.simps list_all_append list_all_iff
    by (cases "str_find (CRLF @ CRLF) (c # s)") (simp_all del: str_find.simps append_Cons)
qed (simp add: lengths_ok_def)


lemma resp_step_drop:
  assumes "resp_step cfg st = Some s"
  shows "\<exists>m. resp_buf (step_state s) = drop m (resp_buf st)"
proof -
  have r: "resp_buf (step_state (handle_response cfg h b (st\<lparr>resp_buf := x\<rparr>))) = x" for h b x
    using same_data_response [of "st\<lparr>resp_buf := x\<rparr>" cfg h b] by (simp add: same_data_def)
  have 0: "\<exists>m. resp_buf st = drop m (resp_buf st)" by (rule exI [of _ 0]) simp
  show ?thesis
  proof (cases "hd (resp_buf st) = CHR ''$''")
    case True
    with assms show ?thesis
      by (auto simp: resp_step_def Let_def bind_eq_Some_conv split: if_splits intro: 0)
  next
    case False
    with assms r show ?thesis
      by (auto simp: resp_step_def Let_def split: if_splits option.splits intro: 0)
  qed
qed

lemma resp_loop_drop:
  "resp_loop n cfg st = Some (Some (st', ret)) \<Longrightarrow> \<exists>m. resp_buf st' = drop m (resp_buf st)"
proof (induction n arbitrary: st)
  case 0
  then show ?case by (intro exI [of _ 0]) (auto split: if_splits)
next
  case (Suc n)
  show ?case
  proof (cases "resp_buf st = []")
    case True
    with Suc.prems show ?thesis by (intro exI [of _ 0]) auto
  next
    case False
    with Suc.prems obtain s where s: "resp_step cfg st = Some s" by (auto split: option.splits)
    obtain m where m: "resp_buf (step_state s) = drop m (resp_buf st)" using resp_step_drop [OF s] by blast
    show ?thesis
    proof (cases s)
      case (Continue st1)
      with Suc False s obtain m' where "resp_buf st' = drop m' (resp_buf st1)" by auto
      with m Continue show ?thesis by (intro exI [of _ "m' + m"]) simp
    qed (use Suc.prems False s m in auto)
  qed
qed

lemma readable_enough:
  assumes "lengths_ok (resp_buf st @ concat chunks)" and "length (resp_buf st @ concat chunks) < 2 ^ 63"
    and "length (resp_buf st @ concat chunks) \<le> n"
  shows "on_rtsp_readable n cfg chunks fin st \<noteq> None"
  using assms
proof (induction chunks arbitrary: st)
  case (Cons c cs)
  let ?st = "st\<lparr>resp_buf := resp_buf st @ c\<rparr>"
  have "lengths_ok ((resp_buf st @ c) @ concat cs)" using Cons.prems(1) by simp
  from lengths_ok_prefix [OF this] have "resp_loop n cfg ?st \<noteq> None"
    using Cons.prems(2,3) by (intro resp_loop_enough) simp_all
  then consider "resp_loop n cfg ?st = Some None" | st' ret where "resp_loop n cfg ?st = Some (Some (st', ret))"
    by (metis option.exhaust surj_pair)
  then show ?case
  proof cases
    case 1
    then show ?thesis by simp
  next
    case (2 st' ret)
    obtain m where m: "resp_buf st' = drop m (resp_buf st @ c)" using resp_loop_drop [OF 2] by auto
    let ?m = "min m (length (resp_buf st @ c))"
    have "resp_buf st' @ concat cs = drop ?m (resp_buf st @ concat (c # cs))" using m by (auto simp: min_def)
    then have "on_rtsp_readable n cfg cs fin st' \<noteq> None"
      using Cons.prems lengths_ok_drop [OF Cons.prems(1), of ?m] by (intro Cons.IH) simp_all
    with 2 show ?thesis by (cases ret) auto
  qed
qed simp

section \<open>A negative length\<close>

definition negative_reply :: string where
  "negative_reply = ''RTSP/1.0 200 OK'' @ CRLF @ ''Content-Length: -40'' @ CRLF @ CRLF"

lemma negative_eval:
  "length negative_reply = 40" "str_find (CRLF @ CRLF) negative_reply = Some 36"
  "get_content_length negative_reply = -40" "parse_status_code negative_reply = 200"
  "str_find ''Session:'' negative_reply = None"
  by code_simp+

lemma negative_step:
  assumes "resp_buf st = negative_reply @ rest" and "req_method (current_request st) = GET_PARAMETER"
  shows "\<exists>st1. resp_step cfg st = Some (Continue st1) \<and> resp_buf st1 = resp_buf st \<and>
    current_request st1 = current_request st"
proof -
  have f: "str_find (CRLF @ CRLF) (negative_reply @ rest) = Some 36"
    using str_find_extend [OF negative_eval(2)] .
  have h: "take (36 + 4) (negative_reply @ rest) = negative_reply" using negative_eval(1) by simp
  have d: "hd (negative_reply @ rest) \<noteq> CHR ''$''" by (simp add: negative_reply_def)
  have t: "message_total 36 (-40) = 0" by (simp add: message_total_def)
  show ?thesis
    unfolding resp_step_def Let_def assms(1) using d
    by (simp only: if_False f h t option.case negative_eval) 
       (simp add: handle_response_def Let_def negative_eval assms parse_session_id_def)
qed


lemma negative_loop:
  "resp_buf st = negative_reply @ rest \<Longrightarrow> req_method (current_request st) = GET_PARAMETER \<Longrightarrow>
   resp_loop n cfg st = None"
proof (induction n arbitrary: st)
  case 0
  then show ?case by (simp add: negative_reply_def)
next
  case (Suc n)
  obtain st1 where "resp_step cfg st = Some (Continue st1)" "resp_buf st1 = resp_buf st"
    "current_request st1 = current_request st" using negative_step [OF Suc.prems] by blast
  with Suc show ?case by (simp add: negative_reply_def)
qed

section \<open>Properties\<close>

text \<open>A client for the examples.\<close>

definition example_client :: http_client where
  "example_client = initial_client (new_ctx (554, 0, 0)) GET_PARAMETER default_config (BufferPool 1500 2) PortPool"

lemma example_client_ok:
  "http_inv 0 example_client" "resp_buf example_client = []" "req_method (current_request example_client) = GET_PARAMETER"
proof -
  have "on_loan (BufferPool 1500 2) = 0"
    by (simp add: on_loan_def get_total_allocated_def get_available_count_def BufferPool_def)
  then show "http_inv 0 example_client"
    by (simp add: example_client_def initial_client_def http_inv_def owns_def)
qed (simp_all add: example_client_def initial_client_def)

text \<open>
  C12: Interleaved frames are delivered whatever the segmentation of the connection. When the bytes received are the encodings of the
  frames \<open>fs\<close> followed by an incomplete frame \<open>t\<close>, cut into chunks in any way, then reading them hands exactly these frames, in
  order, to \<open>handle_interleaved_packet\<close>, no access fails, and exactly \<open>t\<close> is kept for the next event.
\<close>

theorem interleaved_segmentation:
  assumes "http_inv k st" and "resp_buf st = []" and "concat chunks = encode_frames fs @ t" and "incomplete t"
    and "\<forall>f \<in> set fs. length (snd f) < 65536" and "length fs < n"
  shows "\<exists>st'. deliver_frames cfg fs st = Some st' \<and> http_inv k st' \<and>
    on_rtsp_readable n cfg chunks RecvWouldBlock st = Some (Some (st'\<lparr>resp_buf := t\<rparr>))"
proof -
  obtain m where n: "n = Suc m" using assms(6) by (cases n) auto
  have "st = st\<lparr>resp_buf := []\<rparr>" using assms(2) by simp
  moreover have "on_rtsp_readable (Suc m) cfg chunks RecvWouldBlock (st\<lparr>resp_buf := []\<rparr>) =
    (case deliver_frames cfg fs st of None \<Rightarrow> Some None
     | Some st' \<Rightarrow> on_rtsp_readable (Suc m) cfg [] RecvWouldBlock (st'\<lparr>resp_buf := t\<rparr>))"
    using assms n by (intro readable_frames) (auto simp: incomplete_def list_all_iff)
  ultimately show ?thesis using deliver_ok [OF assms(1), of cfg fs] n by auto
qed

definition example_frame :: "u8 \<times> u8 list" where
  "example_frame = (0, [0x80, 33, 0, 1, 0, 0, 0, 0, 0, 0, 0, 7, 0x47, 1])"

theorem interleaved_segmentation_witness:
  "\<exists>st'. on_rtsp_readable 2 default_config
       [take 3 (encode_frame example_frame), drop 3 (encode_frame example_frame) @ ''$'', string_of [1, 0]]
       RecvWouldBlock example_client = Some (Some st') \<and> resp_buf st' = ''$'' @ string_of [1, 0]"
proof -
  let ?f = example_frame
  have "concat [take 3 (encode_frame ?f), drop 3 (encode_frame ?f) @ ''$'', string_of [1, 0]] =
      encode_frames [?f] @ (''$'' @ string_of [1, 0])"
    by simp
  moreover have "incomplete (''$'' @ string_of [1, 0])" by (simp add: incomplete_def string_of_def)
  ultimately show ?thesis
    using interleaved_segmentation [OF example_client_ok(1,2), of _ "[?f]" "''$'' @ string_of [1, 0]" 2 default_config]
    by (fastforce simp: example_frame_def)
qed

text \<open>
  C25: The reading loop ends. As long as no message makes the loop see a negative \<open>Content-Length\<close> and the
  input has less than \<open>2\<^sup>6\<^sup>3\<close> bytes, \<open>on_rtsp_readable\<close> returns; one turn of the inner loop per byte of
  input is enough.
\<close>

theorem reading_terminates:
  assumes "lengths_ok (resp_buf st @ concat chunks)" and "length (resp_buf st @ concat chunks) < 2 ^ 63"
  shows "on_rtsp_readable (length (resp_buf st @ concat chunks)) cfg chunks fin st \<noteq> None"
  using assms by (intro readable_enough) auto

theorem reading_terminates_witness:
  "on_rtsp_readable 41 default_config [''RTSP/1.0 200 OK'' @ CRLF @ ''Content-Length: 3'' @ CRLF @ CRLF, ''xyz''] RecvEof
     example_client \<noteq> None"
proof -
  let ?cs = "[''RTSP/1.0 200 OK'' @ CRLF @ ''Content-Length: 3'' @ CRLF @ CRLF, ''xyz'']"
  have "lengths_ok (concat ?cs)" "length (concat ?cs) = 41" by code_simp+
  moreover have "(41 :: nat) < 2 ^ 63" by simp
  ultimately show ?thesis
    using reading_terminates [of example_client ?cs default_config RecvEof]
    by (simp only: example_client_ok(2) append_Nil simp_thms not_False_eq_True)
qed



end
