(* ===== verification/Regex.thy ===== *)
theory Regex
  imports Prelude
begin

text \<open>
  The part of \<open>std::regex\<close> (ECMAScript grammar) the proxy uses: compilation of a pattern text to a
  syntax tree, \<open>regex_search\<close> and \<open>regex_replace\<close>. Matching is backtracking: \<open>rmatch\<close> lists the
  ways a tree matches at a position in the order the engine tries them, and the engine takes
  the first. Assertions, back references and POSIX classes are outside the modelled grammar;
  a pattern that uses them is rejected like a malformed one.
\<close>

section \<open>Syntax trees and matching\<close>

datatype citem = CRange char char | CDigit bool | CWord bool | CSpace bool

datatype regex =
    REps
  | RChr char
  | RAny
  | RSet bool "citem list"
  | RSeq regex regex
  | RAlt regex regex
  | RStar bool regex
  | ROpt bool regex
  | RGrp nat regex
  | RBol
  | REol

definition is_word :: "char \<Rightarrow> bool" where
  "is_word c \<longleftrightarrow> c_isdigit c \<or> c = CHR ''_'' \<or>
     65 \<le> (of_char c :: nat) \<and> (of_char c :: nat) \<le> 90 \<or>
     97 \<le> (of_char c :: nat) \<and> (of_char c :: nat) \<le> 122"

fun citem_matches :: "citem \<Rightarrow> char \<Rightarrow> bool" where
  "citem_matches (CRange a b) c \<longleftrightarrow> (of_char a :: nat) \<le> of_char c \<and> (of_char c :: nat) \<le> of_char b"
| "citem_matches (CDigit b) c \<longleftrightarrow> c_isdigit c = b"
| "citem_matches (CWord b) c \<longleftrightarrow> is_word c = b"
| "citem_matches (CSpace b) c \<longleftrightarrow> c_isspace c = b"

definition set_matches :: "bool \<Rightarrow> citem list \<Rightarrow> char \<Rightarrow> bool" where
  "set_matches pos items c \<longleftrightarrow> list_ex (\<lambda>i. citem_matches i c) items = pos"

text \<open>A match state: whether the position is the start of the text, the rest of the text, and the
  captures, latest first.\<close>

type_synonym mst = "bool \<times> string \<times> (nat \<times> string) list"

definition rest_of :: "mst \<Rightarrow> string" where
  "rest_of st = fst (snd st)"

definition one_char :: "(char \<Rightarrow> bool) \<Rightarrow> mst \<Rightarrow> mst list" where
  "one_char P st = (case st of (b, c # cs, caps) \<Rightarrow> if P c then [(False, cs, caps)] else [] | _ \<Rightarrow> [])"

text \<open>A repetition stops when an iteration consumes nothing; the length of the rest bounds the
  number of iterations, so it is enough fuel.\<close>

fun star_iter :: "bool \<Rightarrow> (mst \<Rightarrow> mst list) \<Rightarrow> nat \<Rightarrow> mst \<Rightarrow> mst list" where
  "star_iter greedy f 0 st = [st]"
| "star_iter greedy f (Suc n) st =
     (let more = concat (map (star_iter greedy f n)
                   (filter (\<lambda>st'. length (rest_of st') < length (rest_of st)) (f st)))
      in if greedy then more @ [st] else st # more)"

primrec rmatch :: "regex \<Rightarrow> mst \<Rightarrow> mst list" where
  "rmatch REps st = [st]"
| "rmatch (RChr c) st = one_char (\<lambda>x. x = c) st"
| "rmatch RAny st = one_char (\<lambda>x. x \<noteq> LF \<and> x \<noteq> CR) st"
| "rmatch (RSet pos items) st = one_char (set_matches pos items) st"
| "rmatch (RSeq a b) st = concat (map (rmatch b) (rmatch a st))"
| "rmatch (RAlt a b) st = rmatch a st @ rmatch b st"
| "rmatch (RStar greedy r) st = star_iter greedy (rmatch r) (length (rest_of st)) st"
| "rmatch (ROpt greedy r) st = (if greedy then rmatch r st @ [st] else st # rmatch r st)"
| "rmatch (RGrp n r) st =
     map (\<lambda>(b, s, caps). (b, s, (n, take (length (rest_of st) - length s) (rest_of st)) # caps))
         (rmatch r st)"
| "rmatch RBol st = (if fst st then [st] else [])"
| "rmatch REol st = (if rest_of st = [] then [st] else [])"

section \<open>Search\<close>

record smatch =
  match_pos :: nat
  match_str :: string
  match_caps :: "(nat \<times> string) list"

definition match_at :: "regex \<Rightarrow> bool \<Rightarrow> string \<Rightarrow> (string \<times> (nat \<times> string) list) option" where
  "match_at r start s = (case rmatch r (start, s, []) of
      [] \<Rightarrow> None
    | (_, s', caps) # _ \<Rightarrow> Some (take (length s - length s') s, caps))"

fun search_from :: "regex \<Rightarrow> bool \<Rightarrow> string \<Rightarrow> smatch option" where
  "search_from r start [] =
     map_option (\<lambda>(m, caps). \<lparr>match_pos = 0, match_str = m, match_caps = caps\<rparr>) (match_at r start [])"
| "search_from r start (c # cs) =
     (case match_at r start (c # cs) of
        Some (m, caps) \<Rightarrow> Some \<lparr>match_pos = 0, match_str = m, match_caps = caps\<rparr>
      | None \<Rightarrow> map_option (\<lambda>sm. sm\<lparr>match_pos := Suc (match_pos sm)\<rparr>) (search_from r False cs))"

definition regex_search :: "regex \<Rightarrow> string \<Rightarrow> smatch option" where
  "regex_search r s = search_from r True s"

text \<open>\<open>m[n]\<close>: the text of a sub-match, empty when the group did not take part.\<close>

definition sub_match :: "smatch \<Rightarrow> nat \<Rightarrow> string" where
  "sub_match sm n = (if n = 0 then match_str sm
     else case map_of (match_caps sm) n of None \<Rightarrow> [] | Some s \<Rightarrow> s)"

section \<open>Replacement\<close>

text \<open>The format string of \<open>regex_replace\<close>: \<open>$$\<close>, \<open>$&\<close>, \<open>$`\<close>, \<open>$'\<close>, \<open>$n\<close> and \<open>$nn\<close>.\<close>

fun format_match :: "string \<Rightarrow> string \<Rightarrow> smatch \<Rightarrow> string \<Rightarrow> string" where
  "format_match pfx sfx sm (c # d # cs) =
     (if c \<noteq> CHR ''$'' then c # format_match pfx sfx sm (d # cs)
      else if d = CHR ''$'' then CHR ''$'' # format_match pfx sfx sm cs
      else if d = CHR ''&'' then match_str sm @ format_match pfx sfx sm cs
      else if d = CHR 0x60 then pfx @ format_match pfx sfx sm cs
      else if d = CHR 0x27 then sfx @ format_match pfx sfx sm cs
      else if c_isdigit d then
        (case cs of
           e # es \<Rightarrow> (if c_isdigit e
              then sub_match sm (10 * digit_val d + digit_val e) @ format_match pfx sfx sm es
              else sub_match sm (digit_val d) @ format_match pfx sfx sm cs)
         | [] \<Rightarrow> sub_match sm (digit_val d))
      else c # format_match pfx sfx sm (d # cs))"
| "format_match pfx sfx sm cs = cs"

text \<open>A match lies in the text.\<close>

lemma match_at_prefix [bounds]: "match_at r start s = Some (m, caps) \<Longrightarrow> prefix m s"
  by (auto simp: match_at_def take_is_prefix split: list.splits)

lemma search_from_bounds [bounds]:
  "search_from r start s = Some sm \<Longrightarrow>
     match_pos sm + length (match_str sm) \<le> length s \<and>
     match_str sm = take (length (match_str sm)) (drop (match_pos sm) s)"
proof (induction r start s arbitrary: sm rule: search_from.induct)
  case (1 r start)
  then show ?case by (auto dest: match_at_prefix)
next
  case (2 r start c cs)
  show ?case
  proof (cases "match_at r start (c # cs)")
    case None
    with 2 show ?thesis by fastforce
  next
    case (Some x)
    then obtain m caps where x: "x = (m, caps)" by (cases x)
    with Some have "prefix m (c # cs)" by (simp add: match_at_prefix)
    then obtain zs where "c # cs = m @ zs" by (auto simp: prefix_def)
    then have "length m \<le> length (c # cs)" "take (length m) (c # cs) = m" by simp_all
    moreover have "sm = \<lparr>match_pos = 0, match_str = m, match_caps = caps\<rparr>" using 2 Some x by simp
    ultimately show ?thesis by simp
  qed
qed

text \<open>\<open>regex_replace\<close>: the text between the matches is copied. After an empty match the iterator
  asks for a non-empty match at the same place (\<open>match_not_null | match_continuous\<close>) and
  otherwise moves on by one character, which is then part of the next match's prefix.\<close>

definition match_nonempty :: "regex \<Rightarrow> bool \<Rightarrow> string \<Rightarrow> (string \<times> (nat \<times> string) list) option" where
  "match_nonempty r start s =
     (case filter (\<lambda>st. length (rest_of st) < length s) (rmatch r (start, s, [])) of
        [] \<Rightarrow> None
      | (_, s', caps) # _ \<Rightarrow> Some (take (length s - length s') s, caps))"

lemma match_nonempty_length [bounds]:
  "match_nonempty r start s = Some (m, caps) \<Longrightarrow> m \<noteq> [] \<and> length m \<le> length s"
proof -
  assume a: "match_nonempty r start s = Some (m, caps)"
  then obtain b s' ts where f: "filter (\<lambda>st. length (rest_of st) < length s) (rmatch r (start, s, [])) = (b, s', caps) # ts"
    and m: "m = take (length s - length s') s"
    by (auto simp: match_nonempty_def split: list.splits)
  from f have "(b, s', caps) \<in> set (filter (\<lambda>st. length (rest_of st) < length s) (rmatch r (start, s, [])))"
    by simp
  then have "length s' < length s" by (simp add: rest_of_def)
  with m show ?thesis by auto
qed

function replace_from :: "regex \<Rightarrow> string \<Rightarrow> string \<Rightarrow> bool \<Rightarrow> string \<Rightarrow> string" where
  "replace_from r fmt pend start s =
     (case search_from r start s of
        None \<Rightarrow> pend @ s
      | Some sm \<Rightarrow>
          (let p = match_pos sm; n = length (match_str sm); pre = pend @ take p s;
               rest = drop (p + n) s;
               out = pre @ format_match pre rest sm fmt
           in if n = 0 then
                (case rest of [] \<Rightarrow> out
                 | c # cs \<Rightarrow>
                    (case match_nonempty r (start \<and> p = 0) rest of
                       None \<Rightarrow> out @ replace_from r fmt [c] False cs
                     | Some (m, caps) \<Rightarrow>
                         out @ format_match [] (drop (length m) rest)
                                 \<lparr>match_pos = 0, match_str = m, match_caps = caps\<rparr> fmt
                             @ replace_from r fmt [] False (drop (length m) rest)))
              else out @ replace_from r fmt [] False rest))"
  by pat_completeness auto
termination
proof (relation "measure (\<lambda>(r, fmt, pend, start, s). length s)", goal_cases)
  case 1
  show ?case by simp
next
  case (2 r fmt pend start s sm p n pre rest out c cs)
  then have "length (c # cs) \<le> length s" by (metis length_drop diff_le_self)
  then show ?case by simp
next
  case (3 r fmt pend start s sm p n pre rest out c cs x m caps)
  then have "m \<noteq> []" "length m \<le> length rest" "length rest \<le> length s"
    using match_nonempty_length [of r "start \<and> p = 0" rest m caps] by auto
  then show ?case by (cases m) auto
next
  case (4 r fmt pend start s sm p n pre rest out)
  then have "p + n \<le> length s" "n > 0" using search_from_bounds [of r start s sm] by auto
  then have "length s - (p + n) < length s" by linarith
  with 4 show ?case by simp
qed

declare replace_from.simps [simp del]

definition regex_replace :: "regex \<Rightarrow> string \<Rightarrow> string \<Rightarrow> string" where
  "regex_replace r fmt s = replace_from r fmt [] True s"

section \<open>Compilation\<close>

text \<open>
  The pattern text is read character by character. An open group is a frame: its number (none
  for the whole pattern and for \<open>(?:\<close>), the alternatives already complete, and the items of the
  current alternative, last first. \<open>quant\<close> says that the last item has just been quantified, so that
  a following question mark makes it lazy.
\<close>

type_synonym frame = "nat option \<times> regex list \<times> regex list"

datatype rmode =
    Normal
  | Escape
  | GroupOpen
  | GroupQuestion
  | Bracket bool bool "citem list" "char option" bool
      \<comment> \<open>first character seen, positive, items, pending single character, after a dash\<close>
  | BracketEscape bool bool "citem list" "char option" bool
  | Brace string

record rstate =
  outer :: "frame list"
  cur :: frame
  mode :: rmode
  groups :: nat
  quant :: bool

definition seq_of :: "regex list \<Rightarrow> regex" where
  "seq_of rs = (case rev rs of [] \<Rightarrow> REps | x # xs \<Rightarrow> foldl RSeq x xs)"

definition close_frame :: "frame \<Rightarrow> regex" where
  "close_frame f = (case f of (g, alts, items) \<Rightarrow>
     (let body = foldr RAlt (rev alts) (seq_of items)
      in case g of None \<Rightarrow> body | Some n \<Rightarrow> RGrp n body))"

definition add_item :: "regex \<Rightarrow> rstate \<Rightarrow> rstate" where
  "add_item r st = (case cur st of (g, alts, items) \<Rightarrow>
     st\<lparr>cur := (g, alts, r # items), mode := Normal, quant := False\<rparr>)"

text \<open>A quantifier needs an item that is not quantified yet.\<close>

definition quantify :: "(regex \<Rightarrow> regex) \<Rightarrow> rstate \<Rightarrow> rstate option" where
  "quantify f st = (case cur st of
      (g, alts, r # items) \<Rightarrow> (if quant st \<or> r = RBol then None
        else Some (st\<lparr>cur := (g, alts, f r # items), mode := Normal, quant := True\<rparr>))
    | _ \<Rightarrow> None)"

fun lazy_of :: "regex \<Rightarrow> regex" where
  "lazy_of (RStar _ r) = RStar False r"
| "lazy_of (ROpt _ r) = ROpt False r"
| "lazy_of (RSeq a b) = RSeq a (lazy_of b)"
| "lazy_of r = r"

text \<open>\<open>x{n}\<close>, \<open>x{n,}\<close> and \<open>x{n,m}\<close>.\<close>

fun opt_nest :: "nat \<Rightarrow> regex \<Rightarrow> regex" where
  "opt_nest 0 r = REps"
| "opt_nest (Suc n) r = ROpt True (RSeq r (opt_nest n r))"

fun seq_rep :: "nat \<Rightarrow> regex \<Rightarrow> regex \<Rightarrow> regex" where
  "seq_rep 0 r tail = tail"
| "seq_rep (Suc n) r tail = RSeq r (seq_rep n r tail)"

definition brace_quant :: "string \<Rightarrow> (regex \<Rightarrow> regex) option" where
  "brace_quant txt =
     (let lo = takeWhile c_isdigit txt; more = drop (length lo) txt in
      if lo = [] then None
      else if more = [] then Some (\<lambda>r. seq_rep (nat_of_digits lo) r REps)
      else if hd more \<noteq> CHR '','' then None
      else if tl more = [] then Some (\<lambda>r. seq_rep (nat_of_digits lo) r (RStar True r))
      else if list_all c_isdigit (tl more) \<and> nat_of_digits lo \<le> nat_of_digits (tl more) then
        Some (\<lambda>r. seq_rep (nat_of_digits lo) r
                    (opt_nest (nat_of_digits (tl more) - nat_of_digits lo) r))
      else None)"

definition esc_class :: "char \<Rightarrow> citem option" where
  "esc_class c = (if c = CHR ''d'' then Some (CDigit True) else if c = CHR ''D'' then Some (CDigit False)
     else if c = CHR ''w'' then Some (CWord True) else if c = CHR ''W'' then Some (CWord False)
     else if c = CHR ''s'' then Some (CSpace True) else if c = CHR ''S'' then Some (CSpace False)
     else None)"

definition esc_char :: "char \<Rightarrow> char option" where
  "esc_char c = (if c = CHR ''n'' then Some LF else if c = CHR ''r'' then Some CR
     else if c = CHR ''t'' then Some TAB else if c = CHR ''0'' then Some CHR 0x00
     else if c = CHR ''f'' then Some CHR 0x0C else if c = CHR ''v'' then Some CHR 0x0B
     else if is_word c then None else Some c)"

definition flush :: "char option \<Rightarrow> citem list \<Rightarrow> citem list" where
  "flush pend items = (case pend of None \<Rightarrow> items | Some c \<Rightarrow> CRange c c # items)"

text \<open>One more single character in a bracket expression: it may end a range.\<close>

definition bracket_char :: "bool \<Rightarrow> citem list \<Rightarrow> char option \<Rightarrow> bool \<Rightarrow> char \<Rightarrow> rmode option" where
  "bracket_char pos items pend dash c =
     (if dash then (case pend of
          Some a \<Rightarrow> (if (of_char a :: nat) \<le> of_char c
             then Some (Bracket True pos (CRange a c # items) None False) else None)
        | None \<Rightarrow> Some (Bracket True pos (CRange (CHR ''-'') (CHR ''-'') # items) (Some c) False))
      else Some (Bracket True pos (flush pend items) (Some c) False))"

definition normal_step :: "char \<Rightarrow> rstate \<Rightarrow> rstate option" where
  "normal_step c st =
     (if c = CHR 0x5C then Some (st\<lparr>mode := Escape\<rparr>)
      else if c = CHR ''('' then Some (st\<lparr>mode := GroupOpen\<rparr>)
      else if c = CHR '')'' then
        (case outer st of [] \<Rightarrow> None
         | f # fs \<Rightarrow> Some (add_item (close_frame (cur st)) (st\<lparr>outer := fs, cur := f\<rparr>)))
      else if c = CHR ''['' then Some (st\<lparr>mode := Bracket False True [] None False\<rparr>)
      else if c = CHR ''{'' then Some (st\<lparr>mode := Brace []\<rparr>)
      else if c = CHR ''|'' then
        (case cur st of (g, alts, items) \<Rightarrow>
           Some (st\<lparr>cur := (g, seq_of items # alts, []), quant := False\<rparr>))
      else if c = CHR ''*'' then quantify (RStar True) st
      else if c = CHR ''+'' then quantify (\<lambda>r. RSeq r (RStar True r)) st
      else if c = CHR ''?'' then
        (if quant st then (case cur st of (g, alts, r # items) \<Rightarrow>
             Some (st\<lparr>cur := (g, alts, lazy_of r # items), mode := Normal\<rparr>) | _ \<Rightarrow> None)
         else quantify (ROpt True) st)
      else if c = CHR ''.'' then Some (add_item RAny st)
      else if c = CHR ''^'' then Some (add_item RBol st)
      else if c = CHR ''$'' then Some (add_item REol st)
      else Some (add_item (RChr c) st))"

definition open_group :: "bool \<Rightarrow> rstate \<Rightarrow> rstate" where
  "open_group capturing st =
     (if capturing then st\<lparr>outer := cur st # outer st, cur := (Some (groups st + 1), [], []),
                           groups := groups st + 1, mode := Normal, quant := False\<rparr>
      else st\<lparr>outer := cur st # outer st, cur := (None, [], []), mode := Normal, quant := False\<rparr>)"

definition compile_step :: "char \<Rightarrow> rstate \<Rightarrow> rstate option" where
  "compile_step c st = (case mode st of
      Normal \<Rightarrow> normal_step c st
    | Escape \<Rightarrow> (case esc_class c of Some i \<Rightarrow> Some (add_item (RSet True [i]) st)
        | None \<Rightarrow> map_option (\<lambda>d. add_item (RChr d) st) (esc_char c))
    | GroupOpen \<Rightarrow> (if c = CHR ''?'' then Some (st\<lparr>mode := GroupQuestion\<rparr>)
        else normal_step c (open_group True st))
    | GroupQuestion \<Rightarrow> (if c = CHR '':'' then Some (open_group False st) else None)
    | Bracket seen pos items pend dash \<Rightarrow>
        (if \<not> seen \<and> pos \<and> c = CHR ''^'' then Some (st\<lparr>mode := Bracket False False [] None False\<rparr>)
         else if c = CHR '']'' then
           Some (add_item (RSet pos (flush pend (if dash then CRange (CHR ''-'') (CHR ''-'') # items
                                                 else items))) st)
         else if c = CHR 0x5C then Some (st\<lparr>mode := BracketEscape seen pos items pend dash\<rparr>)
         else if c = CHR ''['' then None
         else if c = CHR ''-'' \<and> \<not> dash \<and> pend \<noteq> None
           then Some (st\<lparr>mode := Bracket True pos items pend True\<rparr>)
         else map_option (\<lambda>m. st\<lparr>mode := m\<rparr>) (bracket_char pos items pend dash c))
    | BracketEscape seen pos items pend dash \<Rightarrow>
        (case esc_class c of
           Some i \<Rightarrow> (if dash then None
              else Some (st\<lparr>mode := Bracket True pos (i # flush pend items) None False\<rparr>))
         | None \<Rightarrow> (case esc_char c of None \<Rightarrow> None
              | Some d \<Rightarrow> map_option (\<lambda>m. st\<lparr>mode := m\<rparr>) (bracket_char pos items pend dash d)))
    | Brace txt \<Rightarrow>
        (if c = CHR ''}'' then
           (case brace_quant (rev txt) of None \<Rightarrow> None | Some f \<Rightarrow> quantify f st)
         else Some (st\<lparr>mode := Brace (c # txt)\<rparr>)))"

fun compile_run :: "string \<Rightarrow> rstate \<Rightarrow> rstate option" where
  "compile_run [] st = Some st"
| "compile_run (c # cs) st = Option.bind (compile_step c st) (compile_run cs)"

definition rstate0 :: rstate where
  "rstate0 = \<lparr>outer = [], cur = (None, [], []), mode = Normal, groups = 0, quant = False\<rparr>"

text \<open>\<open>std::regex re(pattern)\<close>; the number of groups comes with the tree.\<close>

definition regex_compile :: "string \<Rightarrow> cxx_error + (regex \<times> nat)" where
  "regex_compile pat = (case compile_run pat rstate0 of
      None \<Rightarrow> Inl RegexError
    | Some st \<Rightarrow> (if mode st = Normal \<and> outer st = []
        then Inr (close_frame (cur st), groups st) else Inl RegexError))"

end
