(* ===== verification/Url_Rewriter.thy ===== *)
theory Url_Rewriter
  imports Json Regex Inet
begin

text \<open>
  \<open>src/utils/url_rewriter.cpp\<close>: the rewriting of a request path into the upstream RTSP URL.
  The templates of the configuration are JSON values; the clock and time zone database behind
  \<open>strptime\<close>, \<open>mktime\<close>, \<open>localtime\<close>, \<open>gmtime\<close> and \<open>strftime\<close> belong to the system and are the argument
  \<open>clk\<close>. A \<open>std::regex_error\<close> is caught by \<open>rewrite_path\<close>; every other exception leaves it.
\<close>

section \<open>Operations\<close>

text \<open>
  One \<open>while ((pos = s.find(pat, pos)) != npos) { s.replace(pos, n, rep); pos += adv; }\<close> loop. The
  text before \<open>pos\<close> is final, so the loop works on the rest; a position past the end finds nothing.
  The test on the length holds for the four loops of the source (\<open>subst_loop_progress\<close>).
\<close>

function subst_loop :: "string \<Rightarrow> nat \<Rightarrow> string \<Rightarrow> nat \<Rightarrow> string \<Rightarrow> string" where
  "subst_loop pat n rep adv s =
     (case str_find pat s of
        None \<Rightarrow> s
      | Some i \<Rightarrow>
          (let t = rep @ drop (i + n) s in
           if length (drop adv t) < length s
           then take i s @ take adv t @ subst_loop pat n rep adv (drop adv t)
           else take i s @ t))"
  by pat_completeness auto
termination
  by (relation "measure (\<lambda>(pat, n, rep, adv, s). length s)") auto

declare subst_loop.simps [simp del]

definition simplifyToRegex :: "string \<Rightarrow> string" where
  "simplifyToRegex match_pattern =
     (let r1 = subst_loop ''{number}'' 8 [CHR ''('', CHR 0x5C, CHR ''d'', CHR ''+'', CHR '')''] 6 match_pattern;
          r2 = subst_loop ''{word}'' 7 [CHR ''('', CHR 0x5C, CHR ''w'', CHR ''+'', CHR '')''] 6 r1;
          r3 = subst_loop ''{any}'' 6 ''(.*?)'' 5 r2
      in subst_loop ''/'' 1 [CHR 0x5C, CHR ''/''] 2 r3)"

text \<open>The system's calendar: \<open>'t\<close> is \<open>struct tm\<close>; the format is the fixed one of the source.\<close>

record 't calendar =
  strptime :: "string \<Rightarrow> 't option"
  mktime :: "'t \<Rightarrow> int"
  localtime :: "int \<Rightarrow> 't"
  gmtime :: "int \<Rightarrow> 't"
  strftime :: "'t \<Rightarrow> string"

definition shiftTime :: "'t calendar \<Rightarrow> string \<Rightarrow> int \<Rightarrow> cxx_error + string" where
  "shiftTime clk time_str shift_hours =
     (if length time_str = 14 then
        (case strptime clk time_str of
           None \<Rightarrow> Inr time_str
         | Some tm \<Rightarrow> Inr (strftime clk (localtime clk (mktime clk tm + shift_hours * 3600))))
      else if length time_str \<le> 10 then
        throwing (stoll time_str)
          (\<lambda>ts. Inr (strftime clk (gmtime clk (ts + shift_hours * 3600))))
      else Inr time_str)"

definition str_replace :: "string \<Rightarrow> nat \<Rightarrow> nat \<Rightarrow> string \<Rightarrow> string" where
  "str_replace s pos n rep = take pos s @ rep @ drop (pos + n) s"

text \<open>The time shift of a matched interval. When the start time is not found in the match, which
  cannot happen since it is a part of it, \<open>npos + new_start.length()\<close> would wrap around.\<close>

definition shift_match :: "'t calendar \<Rightarrow> smatch \<Rightarrow> int \<Rightarrow> string \<Rightarrow> cxx_error + string" where
  "shift_match clk m shift_hours url =
     (let start_time = sub_match m 1; end_time = sub_match m 2; full = match_str m in
      throwing (shiftTime clk start_time shift_hours) (\<lambda>new_start.
      throwing (shiftTime clk end_time shift_hours) (\<lambda>new_end.
        (let pos1 = str_find start_time full;
             full1 = (case pos1 of None \<Rightarrow> full | Some p \<Rightarrow> str_replace full p (length start_time) new_start);
             from = (case pos1 of None \<Rightarrow> length new_start - 1 | Some p \<Rightarrow> p + length new_start);
             full2 = (case str_find_from end_time full1 from of None \<Rightarrow> full1
                      | Some p \<Rightarrow> str_replace full1 p (length end_time) new_end)
         in Inr (str_replace url (match_pos m) (length full) full2)))))"

text \<open>One template applied to the URL.\<close>

definition apply_template :: "'t calendar \<Rightarrow> json \<Rightarrow> string \<Rightarrow> cxx_error + string" where
  "apply_template clk obj url =
     throwing (throwing (at_const obj ''action'') get_string) (\<lambda>action.
     throwing (throwing (at_const obj ''match'') get_string) (\<lambda>match_pattern.
     throwing (regex_compile (simplifyToRegex match_pattern)) (\<lambda>(rgx, ngroups).
       if action = ''remove'' then Inr (regex_replace rgx [] url)
       else if action = ''replace'' then
         throwing (throwing (at_const obj ''replacement'') get_string)
           (\<lambda>replacement. Inr (regex_replace rgx replacement url))
       else if action = ''timeshift'' then
         throwing (throwing (at_const obj ''shift_hours'') get_int) (\<lambda>shift_hours.
           (case regex_search rgx url of
              None \<Rightarrow> Inr url
            | Some m \<Rightarrow> (if ngroups + 1 \<ge> 3 then shift_match clk m shift_hours url else Inr url)))
       else Inr url)))"

fun apply_templates :: "'t calendar \<Rightarrow> json list \<Rightarrow> string \<Rightarrow> cxx_error + string" where
  "apply_templates clk [] url = Inr url"
| "apply_templates clk (t # ts) url = throwing (apply_template clk t url) (apply_templates clk ts)"

text \<open>\<open>rewrite_path\<close>: the result flag with the output URL, which keeps its old value where the code does
  not assign it.\<close>

definition rewrite_path ::
  "'t calendar \<Rightarrow> json \<Rightarrow> string \<Rightarrow> string \<Rightarrow> cxx_error + (bool \<times> string)" where
  "rewrite_path clk templates url rtsp_url =
     (let is_tv = prefix ''/tv/'' url; is_rtp = prefix ''/rtp/'' url in
      if \<not> is_tv \<and> \<not> is_rtp then Inr (False, rtsp_url)
      else
        (case (if is_tv \<and> str_find ''?'' url \<noteq> None
               then apply_templates clk (elements templates) url else Inr url) of
           Inl RegexError \<Rightarrow> Inr (False, rtsp_url)
         | Inl e \<Rightarrow> Inl e
         | Inr processed_url \<Rightarrow>
             (if is_tv then
                (if length processed_url \<le> 4 then Inr (False, rtsp_url)
                 else Inr (True, ''rtsp://'' @ drop 4 processed_url))
              else
                (if length processed_url \<le> 5 then Inr (False, rtsp_url)
                 else Inr (True, ''rtsp://'' @ drop 5 processed_url)))))"

text \<open>\<open>split\<close>: the loop over \<open>find\<close>; \<open>join\<close>.\<close>

function split_loop :: "string \<Rightarrow> char \<Rightarrow> nat \<Rightarrow> string list" where
  "split_loop s d start =
     (case str_find_from [d] s start of
        None \<Rightarrow> [drop start s]
      | Some e \<Rightarrow> take (e - start) (drop start s) # split_loop s d (e + 1))"
  by pat_completeness auto
termination
  by (relation "measure (\<lambda>(s, d, start). Suc (length s) - start)")
     (auto dest!: str_find_from_bound)

declare split_loop.simps [simp del]

definition split_url :: "string \<Rightarrow> char \<Rightarrow> string list" where
  "split_url s d = split_loop s d 0"

definition join_loop :: "string list \<Rightarrow> string \<Rightarrow> string" where
  "join_loop parts delim =
     snd (foldl (\<lambda>(i, r) p. (Suc i, (if i \<noteq> 0 then r @ delim else r) @ p)) (0 :: nat, []) parts)"

section \<open>Splitting and joining\<close>

lemma str_find_from_drop:
  "start \<le> length s \<Longrightarrow> str_find_from [d] s start = map_option ((+) start) (str_find [d] (drop start s))"
  by (simp add: str_find_from_def)

lemma str_split_find:
  "str_split d s = (case str_find [d] s of None \<Rightarrow> [s] | Some i \<Rightarrow> take i s # str_split d (drop (Suc i) s))"
proof (cases "str_find [d] s")
  case None
  then have "d \<notin> set s" by simp
  with None show ?thesis by (simp add: str_split_single del: str_find_char_None)
next
  case (Some i)
  then have p: "prefix [d] (drop i s)" and n: "\<forall>j<i. \<not> prefix [d] (drop j s)" and "i \<le> length s"
    by (auto simp: str_find_Some_iff)
  from p obtain ys where ys: "drop i s = d # ys" by (auto simp: prefix_def)
  have s: "s = take i s @ d # ys" using ys by (metis append_take_drop_id)
  have "d \<notin> set (take i s)"
  proof
    assume "d \<in> set (take i s)"
    then obtain j where "j < i" "j < length s" "s ! j = d" by (auto simp: in_set_conv_nth)
    then have "prefix [d] (drop j s)" by (simp add: Cons_nth_drop_Suc [symmetric])
    with n \<open>j < i\<close> show False by simp
  qed
  moreover have "drop (Suc i) s = ys" using ys by (metis drop_Suc tl_drop list.sel(3))
  ultimately show ?thesis using Some s str_split_append [of d "take i s" ys] by simp
qed

lemma split_loop_correct: "start \<le> length s \<Longrightarrow> split_loop s d start = str_split d (drop start s)"
proof (induction s d start rule: split_loop.induct)
  case (1 s d start)
  show ?case
  proof (cases "str_find [d] (drop start s)")
    case None
    with 1 show ?thesis
      by (simp add: split_loop.simps [of s d start] str_find_from_drop str_split_find
          del: str_find_char_None)
  next
    case (Some i)
    with 1(2) have f: "str_find_from [d] s start = Some (start + i)" by (simp add: str_find_from_drop)
    then have "start + i + 1 \<le> length s" using str_find_from_bound [OF f] by simp
    with 1(1) [OF f] have "split_loop s d (start + i + 1) = str_split d (drop (start + i + 1) s)" by simp
    with f Some show ?thesis
      by (simp add: split_loop.simps [of s d start] str_split_find [of d "drop start s"] add.commute)
  qed
qed

lemma split_url_correct: "split_url s d = str_split d s"
  by (simp add: split_url_def split_loop_correct)

lemma join_loop_aux:
  "0 < i \<Longrightarrow>
   snd (foldl (\<lambda>(i, r) p. (Suc i, (if 0 < i then r @ delim else r) @ p)) (i, r) parts) =
     r @ concat (map (\<lambda>p. delim @ p) parts)"
  by (induction parts arbitrary: i r) auto

lemma str_join_concat: "str_join delim (p # ps) = p @ concat (map (\<lambda>p. delim @ p) ps)"
  by (induction ps arbitrary: p) auto

lemma join_loop_correct: "join_loop parts delim = str_join delim parts"
  by (cases parts) (simp_all add: join_loop_def join_loop_aux str_join_concat)

section \<open>Placeholders\<close>

text \<open>The length test of \<open>subst_loop\<close> always holds for the loops of the source.\<close>

lemma subst_loop_progress:
  assumes "str_find pat s = Some i" and "pat \<noteq> []" and "length rep \<le> adv" and "0 < n"
  shows "length (drop adv (rep @ drop (i + n) s)) < length s"
proof -
  have "0 < length s" using str_find_bound [OF assms(1)] assms(2) by (cases s) auto
  then have "length s - (i + n) < length s" using assms(4) by linarith
  then show ?thesis using assms(3) by simp
qed

lemma subst_loop_none: "str_find pat s = None \<Longrightarrow> subst_loop pat n rep adv s = s"
  by (simp add: subst_loop.simps)

lemma str_find_hd_None: "pat \<noteq> [] \<Longrightarrow> hd pat \<notin> set s \<Longrightarrow> str_find pat s = None"
proof (induction s)
  case (Cons c s)
  then have "\<not> prefix pat (c # s)" by (cases pat) auto
  with Cons show ?case by simp
qed simp

lemma str_find_hd_skip:
  assumes "pat \<noteq> []" and "hd pat \<notin> set xs"
  shows "str_find pat (xs @ ys) = map_option ((+) (length xs)) (str_find pat ys)"
proof (rule str_find_skip)
  fix j assume "j < length xs"
  then have "drop j (xs @ ys) = xs ! j # drop (Suc j) xs @ ys"
    by (simp add: Cons_nth_drop_Suc [symmetric])
  moreover have "xs ! j \<noteq> hd pat" using assms(2) \<open>j < length xs\<close> by (metis nth_mem)
  ultimately show "\<not> prefix pat (drop j (xs @ ys))" using assms(1) by (cases pat) auto
qed

text \<open>The last loop escapes the slashes.\<close>

definition escape_slashes :: "string \<Rightarrow> string" where
  "escape_slashes s = concat (map (\<lambda>c. if c = CHR ''/'' then [CHR 0x5C, CHR ''/''] else [c]) s)"

lemma escape_slashes_simps [simp]:
  "escape_slashes [] = []"
  "escape_slashes (c # s) = (if c = CHR ''/'' then [CHR 0x5C, CHR ''/''] else [c]) @ escape_slashes s"
  "escape_slashes (s @ t) = escape_slashes s @ escape_slashes t"
  by (simp_all add: escape_slashes_def)

lemma escape_slashes_none: "CHR ''/'' \<notin> set s \<Longrightarrow> escape_slashes s = s"
  by (induction s) auto

lemma subst_slash: "subst_loop ''/'' 1 [CHR 0x5C, CHR ''/''] 2 s = escape_slashes s"
proof (induction "length s" arbitrary: s rule: less_induct)
  case less
  show ?case
  proof (cases "str_find ''/'' s")
    case None
    then have "CHR ''/'' \<notin> set s" by simp
    with None show ?thesis
      by (simp add: subst_loop.simps [of _ _ _ _ s] escape_slashes_none del: str_find_char_None)
  next
    case (Some i)
    then obtain ys where i: "i < length s" and ys: "drop i s = CHR ''/'' # ys"
      and n: "\<forall>j<i. \<not> prefix ''/'' (drop j s)"
      using str_find_bound [OF Some] by (auto simp: str_find_Some_iff prefix_def)
    have "CHR ''/'' \<notin> set (take i s)"
    proof
      assume "CHR ''/'' \<in> set (take i s)"
      then obtain j where "j < i" "s ! j = CHR ''/''" by (auto simp: in_set_conv_nth)
      with i n show False by (auto simp: Cons_nth_drop_Suc [symmetric])
    qed
    moreover have d: "drop (Suc i) s = ys" using ys by (metis drop_Suc tl_drop list.sel(3))
    moreover have "subst_loop ''/'' 1 [CHR 0x5C, CHR ''/''] 2 ys = escape_slashes ys"
      using d i by (intro less) auto
    moreover have "s = take i s @ CHR ''/'' # ys" using ys by (metis append_take_drop_id)
    then have "escape_slashes s = escape_slashes (take i s) @ [CHR 0x5C, CHR ''/''] @ escape_slashes ys"
      by (metis escape_slashes_simps(2,3))
    moreover have "length ys < length s" using d i by auto
    then have "subst_loop ''/'' 1 [CHR 0x5C, CHR ''/''] 2 s =
        take i s @ [CHR 0x5C, CHR ''/''] @ subst_loop ''/'' 1 [CHR 0x5C, CHR ''/''] 2 ys"
      using Some d by (subst subst_loop.simps) (simp add: Let_def numeral_2_eq_2)
    ultimately show ?thesis by (simp add: escape_slashes_none)
  qed
qed

lemma simplifyToRegex_no_brace: "CHR ''{'' \<notin> set s \<Longrightarrow> simplifyToRegex s = escape_slashes s"
  by (simp add: simplifyToRegex_def Let_def subst_loop_none str_find_hd_None subst_slash [simplified])

lemma subst_loop_once:
  assumes "pat \<noteq> []" and "hd pat \<notin> set a" and "hd pat \<notin> set (drop (adv - length rep) (drop n (pat @ b)))"
    and "length rep \<le> adv" and "0 < n"
  shows "subst_loop pat n rep adv (a @ pat @ b) = a @ rep @ drop n (pat @ b)"
proof -
  have f: "str_find pat (a @ pat @ b) = Some (length a)"
    using assms(1,2) by (simp add: str_find_hd_skip)
  define t where "t = rep @ drop n (pat @ b)"
  have d: "rep @ drop (length a + n) (a @ pat @ b) = t" by (simp add: t_def)
  have "subst_loop pat n rep adv (a @ pat @ b) = a @ take adv t @ subst_loop pat n rep adv (drop adv t)"
    using f subst_loop_progress [OF f assms(1,4,5)] d
    by (subst subst_loop.simps) (simp only: option.case Let_def if_True, simp)
  moreover have "subst_loop pat n rep adv (drop adv t) = drop adv t"
    using assms by (intro subst_loop_none str_find_hd_None) (auto simp: t_def)
  ultimately have "subst_loop pat n rep adv (a @ pat @ b) = a @ t" by simp
  then show ?thesis unfolding t_def .
qed

section \<open>Literal patterns\<close>

definition rx_special :: string where
  "rx_special = CHR 0x5C # ''()[]{}|*+?.^$''"

text \<open>Every occurrence of a text replaced, from left to right.\<close>

function replace_all :: "string \<Rightarrow> string \<Rightarrow> string \<Rightarrow> string" where
  "replace_all pat rep s = (if pat = [] then s else
     (case str_find pat s of None \<Rightarrow> s
      | Some i \<Rightarrow> take i s @ rep @ replace_all pat rep (drop (i + length pat) s)))"
  by pat_completeness auto
termination
proof (relation "measure (\<lambda>(pat, rep, s). length s)", goal_cases)
  case (2 pat rep s i)
  then have "i + length pat \<le> length s" using str_find_bound by blast
  moreover have "0 < length pat" using 2 by simp
  ultimately have "length s - (i + length pat) < length s" by linarith
  then show ?case by simp
qed simp

declare replace_all.simps [simp del]

definition literal :: "string \<Rightarrow> regex" where
  "literal s = seq_of (rev (map RChr s))"

definition eat :: "string \<Rightarrow> mst \<Rightarrow> mst list" where
  "eat cs st = (case st of (b, s, caps) \<Rightarrow>
     if prefix cs s then [(b \<and> cs = [], drop (length cs) s, caps)] else [])"

lemma eat_Nil: "concat (map (eat []) xs) = xs"
  by (induction xs) (auto simp: eat_def)

lemma eat_Cons: "concat (map (eat cs) (one_char (\<lambda>x. x = c) st)) = eat (c # cs) st"
  by (cases st; cases "fst (snd st)") (auto simp: one_char_def eat_def)

lemma rmatch_seq_chars: "rmatch (foldl RSeq r (map RChr cs)) st = concat (map (eat cs) (rmatch r st))"
proof (induction cs arbitrary: r)
  case Nil
  then show ?case by (simp add: eat_Nil)
next
  case (Cons c cs)
  have "concat (map (eat cs) (concat (map (one_char (\<lambda>x. x = c)) xs))) = concat (map (eat (c # cs)) xs)"
    for xs by (induction xs) (simp_all add: eat_Cons)
  moreover have "rmatch (RChr c) = one_char (\<lambda>x. x = c)" by (rule ext) simp
  ultimately show ?case using Cons.IH [of "RSeq r (RChr c)"] by simp
qed

lemma rmatch_literal: "rmatch (literal cs) st = eat cs st"
proof (cases cs)
  case Nil
  then show ?thesis by (cases st) (simp add: literal_def seq_of_def eat_def)
next
  case (Cons c cs')
  then show ?thesis by (simp add: literal_def seq_of_def rmatch_seq_chars eat_Cons)
qed

lemma match_at_literal:
  "match_at (literal cs) start s = (if prefix cs s then Some (cs, []) else None)"
  by (auto simp: match_at_def rmatch_literal eat_def prefix_def)

lemma search_from_literal:
  "search_from (literal cs) start s =
     map_option (\<lambda>i. \<lparr>match_pos = i, match_str = cs, match_caps = []\<rparr>) (str_find cs s)"
  by (induction s arbitrary: start) (simp_all add: match_at_literal option.map_comp comp_def)

lemma format_plain: "CHR ''$'' \<notin> set fmt \<Longrightarrow> format_match pfx sfx sm fmt = fmt"
proof (induction fmt)
  case (Cons c fmt)
  then show ?case by (cases fmt) auto
qed simp

lemma replace_from_literal:
  assumes "pat \<noteq> []" and "CHR ''$'' \<notin> set rep"
  shows "replace_from (literal pat) rep pend start s = pend @ replace_all pat rep s"
proof (induction "length s" arbitrary: s pend start rule: less_induct)
  case less
  show ?case
  proof (cases "str_find pat s")
    case None
    with assms(1) show ?thesis
      by (simp add: replace_from.simps [of _ _ _ _ s] replace_all.simps [of _ _ s] search_from_literal)
  next
    case (Some i)
    have "0 < length pat" using assms(1) by simp
    with str_find_bound [OF Some] have "length s - (i + length pat) < length s" by linarith
    then have "replace_from (literal pat) rep [] False (drop (i + length pat) s) =
        [] @ replace_all pat rep (drop (i + length pat) s)" by (intro less) simp
    with Some assms show ?thesis
      by (simp add: replace_from.simps [of _ _ _ _ s] replace_all.simps [of _ _ s]
          search_from_literal format_plain Let_def)
  qed
qed

lemma regex_replace_literal:
  "pat \<noteq> [] \<Longrightarrow> CHR ''$'' \<notin> set rep \<Longrightarrow> regex_replace (literal pat) rep s = replace_all pat rep s"
  by (simp add: regex_replace_def replace_from_literal)

text \<open>Compiling a text without special characters, slashes escaped, gives its literal.\<close>

lemma compile_literal_char:
  assumes "c \<notin> set rx_special" and "mode st = Normal" and "cur st = (None, [], items)"
  shows "compile_run (escape_slashes [c] @ cs) st =
    compile_run cs (st\<lparr>cur := (None, [], RChr c # items), mode := Normal, quant := False\<rparr>)"
  using assms
  by (auto simp: compile_step_def normal_step_def add_item_def rx_special_def esc_class_def esc_char_def
      is_word_def c_isdigit_def)

lemma compile_literal:
  assumes "set s \<inter> set rx_special = {}" and "mode st = Normal" and "cur st = (None, [], items)" and "\<not> quant st"
  shows "compile_run (escape_slashes s) st = Some (st\<lparr>cur := (None, [], rev (map RChr s) @ items)\<rparr>)"
  using assms
proof (induction s arbitrary: st items)
  case (Cons c s)
  have "compile_run (escape_slashes [c] @ escape_slashes s) st =
      compile_run (escape_slashes s) (st\<lparr>cur := (None, [], RChr c # items), mode := Normal, quant := False\<rparr>)"
    by (rule compile_literal_char) (use Cons.prems in auto)
  also have "\<dots> = Some (st\<lparr>cur := (None, [], RChr c # items), mode := Normal, quant := False\<rparr>
      \<lparr>cur := (None, [], rev (map RChr s) @ RChr c # items)\<rparr>)"
    by (rule Cons.IH) (use Cons.prems in auto)
  finally show ?case using Cons.prems by simp
qed simp

lemma regex_compile_literal:
  assumes "set s \<inter> set rx_special = {}"
  shows "regex_compile (simplifyToRegex s) = Inr (literal s, 0)"
proof -
  have "CHR ''{'' \<notin> set s" using assms by (auto simp: rx_special_def)
  moreover have "compile_run (escape_slashes s) rstate0 = Some (rstate0\<lparr>cur := (None, [], rev (map RChr s) @ [])\<rparr>)"
    by (rule compile_literal) (use assms in \<open>auto simp: rstate0_def\<close>)
  ultimately show ?thesis
    by (simp add: regex_compile_def simplifyToRegex_no_brace literal_def close_frame_def rstate0_def)
qed

section \<open>Templates\<close>

text \<open>A template with a literal pattern.\<close>

lemma apply_template_replace:
  assumes "set pat \<inter> set rx_special = {}" and "pat \<noteq> []" and "CHR ''$'' \<notin> set rep"
    and "at_const obj ''action'' = Inr (JStr ''replace'')" and "at_const obj ''match'' = Inr (JStr pat)"
    and "at_const obj ''replacement'' = Inr (JStr rep)"
  shows "apply_template clk obj url = Inr (replace_all pat rep url)"
  using assms by (simp add: apply_template_def get_string_def regex_compile_literal regex_replace_literal)

lemma apply_template_remove:
  assumes "set pat \<inter> set rx_special = {}" and "pat \<noteq> []"
    and "at_const obj ''action'' = Inr (JStr ''remove'')" and "at_const obj ''match'' = Inr (JStr pat)"
  shows "apply_template clk obj url = Inr (replace_all pat [] url)"
  using assms by (simp add: apply_template_def get_string_def regex_compile_literal regex_replace_literal)

definition replace_obj :: "string \<times> string \<Rightarrow> json" where
  "replace_obj t = JObj [(''action'', JStr ''replace''), (''match'', JStr (fst t)), (''replacement'', JStr (snd t))]"

definition literal_rule :: "string \<times> string \<Rightarrow> bool" where
  "literal_rule t \<longleftrightarrow> fst t \<noteq> [] \<and> set (fst t) \<inter> set rx_special = {} \<and> CHR ''$'' \<notin> set (snd t)"

lemma apply_templates_replace:
  "list_all literal_rule rules \<Longrightarrow>
   apply_templates clk (map replace_obj rules) url = Inr (fold (\<lambda>t. replace_all (fst t) (snd t)) rules url)"
proof (induction rules arbitrary: url)
  case (Cons t rules)
  then have "apply_template clk (replace_obj t) url = Inr (replace_all (fst t) (snd t) url)"
    by (intro apply_template_replace) (auto simp: replace_obj_def at_const_def literal_rule_def)
  with Cons show ?case by simp
qed simp

section \<open>Properties\<close>

text \<open>A live path needs no template: \<open>/rtp/\<close> followed by a non-empty rest, and \<open>/tv/\<close> followed by a
  non-empty rest without a query, become \<open>rtsp://\<close> followed by that rest, whatever templates are configured; the
  bare prefixes and every other path are refused and leave the output untouched.\<close>

theorem rewrite_path_live:
  assumes "rest \<noteq> []" and "CHR ''?'' \<notin> set live"  and "live \<noteq> []"
    and "\<not> prefix ''/tv/'' other" and "\<not> prefix ''/rtp/'' other"
  shows "rewrite_path clk templates (''/rtp/'' @ rest) out = Inr (True, ''rtsp://'' @ rest) \<and>
         rewrite_path clk templates (''/tv/'' @ live) out = Inr (True, ''rtsp://'' @ live) \<and>
         rewrite_path clk templates ''/rtp/'' out = Inr (False, out) \<and>
         rewrite_path clk templates ''/tv/'' out = Inr (False, out) \<and>
         rewrite_path clk templates other out = Inr (False, out)"
proof -
  have "str_find ''?'' (''/tv/'' @ live) = None" using assms(2) by (subst str_find_char_None) auto
  with assms show ?thesis by (simp add: rewrite_path_def Let_def)
qed

definition utc :: "int calendar" where
  "utc = \<lparr>strptime = (\<lambda>s. case stoll s of Inr t \<Rightarrow> Some t | _ \<Rightarrow> None), mktime = id, localtime = id,
          gmtime = id, strftime = to_string_int\<rparr>"

theorem rewrite_path_live_witness:
  "rewrite_path utc JNull ''/rtp/10.0.0.1:554/ch1?x=1'' [] = Inr (True, ''rtsp://10.0.0.1:554/ch1?x=1'') \<and>
   rewrite_path utc JNull ''/tv/10.0.0.1/ch1'' [] = Inr (True, ''rtsp://10.0.0.1/ch1'') \<and>
   rewrite_path utc JNull ''/admin'' [] = Inr (False, [])"
  using rewrite_path_live [of "''10.0.0.1:554/ch1?x=1''" "''10.0.0.1/ch1''" "''/admin''" utc JNull "[]"] by simp



text \<open>The placeholder \<open>{number}\<close> becomes the group \<open>(\d+)\<close> and the text around it is kept. The
  placeholders \<open>{word}\<close> and \<open>{any}\<close>, whose loops replace one character too many, also swallow the character
  that follows them.\<close>

theorem placeholder_expansion:
  assumes "CHR ''{'' \<notin> set a" and "CHR ''{'' \<notin> set b" and "c \<noteq> CHR ''{''"
  shows "simplifyToRegex (a @ ''{number}'' @ b) =
           escape_slashes a @ [CHR ''('', CHR 0x5C, CHR ''d'', CHR ''+'', CHR '')''] @ escape_slashes b \<and>
         simplifyToRegex (a @ ''{word}'' @ c # b) =
           escape_slashes a @ [CHR ''('', CHR 0x5C, CHR ''w'', CHR ''+'', CHR '')''] @ escape_slashes b \<and>
         simplifyToRegex (a @ ''{any}'' @ c # b) = escape_slashes a @ ''(.*?)'' @ escape_slashes b"
proof (intro conjI)
  let ?d = "[CHR ''('', CHR 0x5C, CHR ''d'', CHR ''+'', CHR '')'']"
  let ?w = "[CHR ''('', CHR 0x5C, CHR ''w'', CHR ''+'', CHR '')'']"
  have "subst_loop ''{number}'' 8 ?d 6 (a @ ''{number}'' @ b) = a @ ?d @ b"
    using subst_loop_once [of "''{number}''" a 6 ?d 8 b] assms by (auto dest: in_set_dropD)
  then show "simplifyToRegex (a @ ''{number}'' @ b) = escape_slashes a @ ?d @ escape_slashes b"
    using assms by (simp add: simplifyToRegex_def Let_def subst_loop_none str_find_hd_None subst_slash [simplified])
  have "subst_loop ''{word}'' 7 ?w 6 (a @ ''{word}'' @ c # b) = a @ ?w @ b"
    using subst_loop_once [of "''{word}''" a 6 ?w 7 "c # b"] assms by (auto dest: in_set_dropD)
  moreover have "subst_loop ''{number}'' 8 ?d 6 (a @ ''{word}'' @ c # b) = a @ ''{word}'' @ c # b"
    using assms by (intro subst_loop_none) (auto simp: str_find_hd_skip str_find_hd_None)
  ultimately show "simplifyToRegex (a @ ''{word}'' @ c # b) = escape_slashes a @ ?w @ escape_slashes b"
    using assms by (simp add: simplifyToRegex_def Let_def subst_loop_none str_find_hd_None subst_slash [simplified])
  have "subst_loop ''{any}'' 6 ''(.*?)'' 5 (a @ ''{any}'' @ c # b) = a @ ''(.*?)'' @ b"
    using subst_loop_once [of "''{any}''" a 5 "''(.*?)''" 6 "c # b"] assms by (auto dest: in_set_dropD)
  moreover have "subst_loop ''{number}'' 8 ?d 6 (a @ ''{any}'' @ c # b) = a @ ''{any}'' @ c # b"
    using assms by (intro subst_loop_none) (auto simp: str_find_hd_skip str_find_hd_None)
  moreover have "subst_loop ''{word}'' 7 ?w 6 (a @ ''{any}'' @ c # b) = a @ ''{any}'' @ c # b"
    using assms by (intro subst_loop_none) (auto simp: str_find_hd_skip str_find_hd_None)
  ultimately show "simplifyToRegex (a @ ''{any}'' @ c # b) = escape_slashes a @ ''(.*?)'' @ escape_slashes b"
    by (simp add: simplifyToRegex_def Let_def subst_slash [simplified])
qed

theorem placeholder_expansion_witness:
  "simplifyToRegex ''/{number}_Uni.sdp'' =
     [CHR 0x5C, CHR ''/'', CHR ''('', CHR 0x5C, CHR ''d'', CHR ''+'', CHR '')''] @ ''_Uni.sdp'' \<and>
   simplifyToRegex ''id={word}&x'' = ''id='' @ [CHR ''('', CHR 0x5C, CHR ''w'', CHR ''+'', CHR '')''] @ ''x''"
  using placeholder_expansion [of "''/''" "''_Uni.sdp''" "CHR ''a''"]
    placeholder_expansion [of "''id=''" "''x''" "CHR ''&''"] by simp

text \<open>The rules of \<open>config.json\<close>.\<close>

definition shipped_templates :: json where
  "shipped_templates = JArr [
     JObj [(''action'', JStr ''remove''), (''match'', JStr ''/{number}_Uni.sdp'')],
     JObj [(''action'', JStr ''replace''), (''match'', JStr ''/iptv/import''), (''replacement'', JStr ''/iptv'')],
     JObj [(''action'', JStr ''replace''), (''match'', JStr ''tvdr={number}-{number}''),
           (''replacement'', JStr ''tvdr={number}GMT-{number}GMT'')],
     JObj [(''action'', JStr ''timeshift''), (''match'', JStr ''tvdr={number}GMT-{number}GMT''), (''shift_hours'', JInt (-8))]]"

text \<open>The rule that is meant to complete the times of a replay URL destroys them. A replacement is not expanded like a
  pattern, so with the rules of the shipped configuration the placeholders reach the server in place of the two times, and
  the time shift that follows finds no digits to shift, whatever the clock.\<close>

theorem shipped_replay_rule:
  "rewrite_path clk shipped_templates ''/tv/h?tvdr=20-21'' [] = Inr (True, ''rtsp://h?tvdr={number}GMT-{number}GMT'')"
  by code_simp

end
