(* ===== verification/Request_Parser.thy ===== *)
theory Request_Parser
  imports Url_Rewriter
begin

text \<open>
  \<open>src/protocol/request_parser.cpp\<close>: the first line of an HTTP or RTSP request, the query parameters, the
  check of the access token and the resolution of the upstream URL. The token of \<open>ServerConfig\<close> and the
  templates of \<open>URLRewriter\<close> are arguments.
\<close>

section \<open>Operations\<close>

record RequestInfo =
  request_method :: string
  raw_uri :: string
  version :: string
  clean_uri :: string
  upstream_url :: string
  params :: "string \<rightharpoonup> string"
  is_authorized :: bool
  is_http :: bool

definition empty_info :: RequestInfo where
  "empty_info = \<lparr>request_method = [], raw_uri = [], version = [], clean_uri = [], upstream_url = [],
                 params = Map.empty, is_authorized = False, is_http = True\<rparr>"

text \<open>\<open>stream >> word\<close>: the word, empty when the stream is exhausted, and the rest.\<close>

definition next_word :: "string \<Rightarrow> string \<times> string" where
  "next_word s = (let t = dropWhile c_isspace s
     in (takeWhile (\<lambda>c. \<not> c_isspace c) t, dropWhile (\<lambda>c. \<not> c_isspace c) t))"

definition split_params :: "string \<Rightarrow> char \<Rightarrow> string list" where
  "split_params s d = split_loop s d 0"

text \<open>The loop over the parameters: the information so far and the parameters kept.\<close>

fun scan_params :: "string \<Rightarrow> string list \<Rightarrow> RequestInfo \<Rightarrow> string list \<Rightarrow> RequestInfo \<times> string list" where
  "scan_params server_token [] info kept = (info, kept)"
| "scan_params server_token (p # ps) info kept =
     (case str_find ''='' p of
        None \<Rightarrow> scan_params server_token ps info (kept @ [p])
      | Some eq_pos \<Rightarrow>
          (let key = take eq_pos p; val = drop (eq_pos + 1) p;
               info1 = info\<lparr>params := (params info)(key \<mapsto> val)\<rparr>
           in if key = ''token'' then
                scan_params server_token ps
                  (if val = server_token then info1\<lparr>is_authorized := True\<rparr> else info1) kept
              else scan_params server_token ps info1 (kept @ [p])))"

definition parse_query :: "string \<Rightarrow> RequestInfo \<Rightarrow> RequestInfo" where
  "parse_query server_token info =
     (case str_find ''?'' (raw_uri info) of
        None \<Rightarrow> info
      | Some qpos \<Rightarrow>
          (let query_str = drop (qpos + 1) (raw_uri info); base_uri = take qpos (raw_uri info);
               (info1, filtered) = scan_params server_token (split_params query_str (CHR ''&'')) info []
           in info1\<lparr>clean_uri := base_uri @
                (if filtered = [] then [] else ''?'' @ join_loop filtered ''&'')\<rparr>))"

text \<open>The last part of \<open>parse\<close>: the path from \<open>/rtp/\<close> or else \<open>/tv/\<close> on is rewritten.\<close>

definition resolve_path :: "'t calendar \<Rightarrow> json \<Rightarrow> RequestInfo \<Rightarrow> cxx_error + RequestInfo" where
  "resolve_path clk templates info =
     (let path_start = (case str_find ''/rtp/'' (clean_uri info) of
            None \<Rightarrow> str_find ''/tv/'' (clean_uri info) | Some i \<Rightarrow> Some i)
      in case path_start of
           None \<Rightarrow> Inr info
         | Some i \<Rightarrow>
             throwing (rewrite_path clk templates (drop i (clean_uri info)) (upstream_url info))
               (\<lambda>(ok, url). Inr (info\<lparr>upstream_url := url\<rparr>)))"

definition parse_request :: "string \<Rightarrow> 't calendar \<Rightarrow> json \<Rightarrow> string \<Rightarrow> cxx_error + RequestInfo" where
  "parse_request server_token clk templates request_data =
     (let (w1, r1) = next_word request_data; (w2, r2) = next_word r1; (w3, r3) = next_word r2;
          info0 = empty_info\<lparr>request_method := w1, raw_uri := w2, version := w3\<rparr>
      in if w3 = [] then Inr info0
         else resolve_path clk templates
                (parse_query server_token
                  (info0\<lparr>is_http := prefix ''HTTP/'' w3, is_authorized := (server_token = []),
                         clean_uri := w2\<rparr>)))"

section \<open>Parameters\<close>

lemma split_params_correct: "split_params s d = str_split d s"
  by (simp add: split_params_def split_loop_correct)

definition is_token :: "string \<Rightarrow> bool" where
  "is_token p \<longleftrightarrow> prefix ''token='' p"

lemma find_eq_token:
  "(str_find ''='' p = Some i \<and> take i p = ''token'') \<longleftrightarrow> is_token p \<and> i = 5"
proof
  assume a: "str_find ''='' p = Some i \<and> take i p = ''token''"
  then have "i \<le> length p" and "prefix ''='' (drop i p)" by (simp_all add: str_find_Some_iff)
  moreover from a \<open>i \<le> length p\<close> have "i = 5" using length_take [of i p] by simp
  ultimately show "is_token p \<and> i = 5"
    using a append_take_drop_id [of i p] by (auto simp: is_token_def prefix_def)
next
  assume "is_token p \<and> i = 5"
  then obtain r where p: "p = ''token'' @ CHR ''='' # r" and i: "i = 5" by (auto simp: is_token_def prefix_def)
  have "str_find ''='' p = Some (length ''token'')" unfolding p by (rule str_find_char_first) simp
  then show "str_find ''='' p = Some i \<and> take i p = ''token''" using p i by simp
qed

lemma token_value: "is_token p \<Longrightarrow> drop 6 p = tok \<longleftrightarrow> p = ''token='' @ tok"
  by (auto simp: is_token_def prefix_def)

text \<open>One parameter: kept unless it is a token; the flag is raised by the right token.\<close>

lemma scan_params_step:
  "\<exists>m. scan_params tok (p # ps) info kept =
     scan_params tok ps
       (info\<lparr>params := m, is_authorized := is_authorized info \<or> ''token='' @ tok = p\<rparr>)
       (if is_token p then kept else kept @ [p])"
proof (cases "str_find ''='' p")
  case None
  then have "\<not> is_token p" using find_eq_token [of p 5] by (auto simp del: str_find_char_None)
  moreover from this have "p \<noteq> ''token='' @ tok" by (auto simp: is_token_def)
  ultimately show ?thesis using None
    by (intro exI [of _ "params info"], cases info) (auto simp del: str_find_char_None)
next
  case (Some i)
  show ?thesis
  proof (cases "take i p = ''token''")
    case True
    with Some find_eq_token [of p i] have "is_token p" "i = 5" by auto
    with Some True token_value [of p tok] show ?thesis
      by (intro exI [of _ "(params info)(''token'' \<mapsto> drop 6 p)"], cases info) (auto simp: Let_def)
  next
    case False
    with Some find_eq_token [of p i] have n: "\<not> is_token p" using find_eq_token [of p 5] by auto
    then have "p \<noteq> ''token='' @ tok" by (auto simp: is_token_def)
    with Some False n show ?thesis
      by (intro exI [of _ "(params info)(take i p \<mapsto> drop (i + 1) p)"], cases info) (auto simp: Let_def)
  qed
qed

lemma scan_params_correct:
  "\<exists>m. scan_params tok ps info kept =
     (info\<lparr>params := m, is_authorized := is_authorized info \<or> ''token='' @ tok \<in> set ps\<rparr>,
      kept @ filter (\<lambda>p. \<not> is_token p) ps)"
proof (induction ps arbitrary: info kept)
  case Nil
  show ?case by (intro exI [of _ "params info"]) simp
next
  case (Cons p ps)
  obtain m where m: "scan_params tok (p # ps) info kept =
     scan_params tok ps (info\<lparr>params := m, is_authorized := is_authorized info \<or> ''token='' @ tok = p\<rparr>)
       (if is_token p then kept else kept @ [p])"
    using scan_params_step by blast
  obtain m' where "scan_params tok ps (info\<lparr>params := m, is_authorized := is_authorized info \<or> ''token='' @ tok = p\<rparr>)
       (if is_token p then kept else kept @ [p]) =
     (info\<lparr>params := m', is_authorized := (is_authorized info \<or> ''token='' @ tok = p) \<or> ''token='' @ tok \<in> set ps\<rparr>,
      (if is_token p then kept else kept @ [p]) @ filter (\<lambda>p. \<not> is_token p) ps)"
    using Cons.IH [of "info\<lparr>params := m, is_authorized := is_authorized info \<or> ''token='' @ tok = p\<rparr>"
        "if is_token p then kept else kept @ [p]"] by auto
  with m show ?case by (intro exI [of _ m']) auto
qed

text \<open>What the parser makes of a URI: the parameters of the query and the URI without the tokens.\<close>

definition uri_params :: "string \<Rightarrow> string list" where
  "uri_params uri = (case str_find ''?'' uri of None \<Rightarrow> [] | Some q \<Rightarrow> str_split (CHR ''&'') (drop (q + 1) uri))"

definition without_tokens :: "string \<Rightarrow> string" where
  "without_tokens uri = (case str_find ''?'' uri of None \<Rightarrow> uri
     | Some q \<Rightarrow> take q uri @
         (let ps = filter (\<lambda>p. \<not> is_token p) (str_split (CHR ''&'') (drop (q + 1) uri))
          in if ps = [] then [] else ''?'' @ str_join ''&'' ps))"

lemma parse_query_correct:
  assumes "clean_uri info = raw_uri info"
  shows "\<exists>m. parse_query tok info =
    info\<lparr>clean_uri := without_tokens (raw_uri info), params := m,
         is_authorized := is_authorized info \<or> ''token='' @ tok \<in> set (uri_params (raw_uri info))\<rparr>"
proof (cases "str_find ''?'' (raw_uri info)")
  case None
  with assms show ?thesis
    by (intro exI [of _ "params info"])
       (simp add: parse_query_def without_tokens_def uri_params_def del: str_find_char_None)
next
  case (Some q)
  obtain m where "scan_params tok (str_split (CHR ''&'') (drop (q + 1) (raw_uri info))) info [] =
     (info\<lparr>params := m, is_authorized := is_authorized info \<or>
         ''token='' @ tok \<in> set (str_split (CHR ''&'') (drop (q + 1) (raw_uri info)))\<rparr>,
      filter (\<lambda>p. \<not> is_token p) (str_split (CHR ''&'') (drop (q + 1) (raw_uri info))))"
    using scan_params_correct [of tok _ info "[]"] by force
  with Some show ?thesis
    by (intro exI [of _ m])
       (simp add: parse_query_def without_tokens_def uri_params_def split_params_correct join_loop_correct)
qed

section \<open>The request line\<close>

definition word_ok :: "string \<Rightarrow> bool" where
  "word_ok w \<longleftrightarrow> w \<noteq> [] \<and> list_all (\<lambda>c. \<not> c_isspace c) w"

lemma next_word_append:
  assumes "word_ok w" and "rest = [] \<or> c_isspace (hd rest)"
  shows "next_word (w @ rest) = (w, rest)"
proof -
  from assms(1) obtain c w' where w: "w = c # w'" "\<not> c_isspace c" "\<forall>c \<in> set w. \<not> c_isspace c"
    by (cases w) (auto simp: word_ok_def list_all_iff)
  then have d: "dropWhile c_isspace (w @ rest) = w @ rest" by simp
  have "takeWhile (\<lambda>c. \<not> c_isspace c) rest = []" "dropWhile (\<lambda>c. \<not> c_isspace c) rest = rest"
    using assms(2) by (cases rest; simp)+
  with w(3) show ?thesis
    unfolding next_word_def Let_def d by (simp add: takeWhile_append dropWhile_append)
qed

lemma next_word_blank: "c_isspace b \<Longrightarrow> next_word (b # s) = next_word s"
  by (simp add: next_word_def)

definition request_line :: "string \<Rightarrow> string \<Rightarrow> string \<Rightarrow> string \<Rightarrow> string" where
  "request_line m uri v rest = m @ '' '' @ uri @ '' '' @ v @ CRLF @ rest"

lemma request_line_words:
  assumes "word_ok m" and "word_ok uri" and "word_ok v"
  shows "next_word (request_line m uri v rest) = (m, '' '' @ uri @ '' '' @ v @ CRLF @ rest) \<and>
    next_word ('' '' @ uri @ '' '' @ v @ CRLF @ rest) = (uri, '' '' @ v @ CRLF @ rest) \<and>
    next_word ('' '' @ v @ CRLF @ rest) = (v, CRLF @ rest)"
proof -
  have b: "c_isspace (CHR '' '')" "c_isspace CR" by (simp_all add: c_isspace_def)
  show ?thesis
    unfolding request_line_def using assms b
    by (simp add: next_word_append next_word_blank)
qed

text \<open>The request up to the resolution of the upstream URL.\<close>

lemma parse_request_line:
  assumes "word_ok m" and "word_ok uri" and "word_ok v"
  obtains mp where
    "parse_request tok clk templates (request_line m uri v rest) =
       resolve_path clk templates
         \<lparr>request_method = m, raw_uri = uri, version = v, clean_uri = without_tokens uri, upstream_url = [],
          params = mp, is_authorized = (tok = [] \<or> ''token='' @ tok \<in> set (uri_params uri)),
          is_http = prefix ''HTTP/'' v\<rparr>"
proof -
  have v: "v \<noteq> []" using assms(3) by (simp add: word_ok_def)
  let ?info = "\<lparr>request_method = m, raw_uri = uri, version = v, clean_uri = uri, upstream_url = [],
      params = Map.empty, is_authorized = (tok = []), is_http = prefix ''HTTP/'' v\<rparr>"
  obtain mp where q: "parse_query tok ?info = ?info\<lparr>clean_uri := without_tokens uri, params := mp,
      is_authorized := tok = [] \<or> ''token='' @ tok \<in> set (uri_params uri)\<rparr>"
    using parse_query_correct [of ?info tok] by auto
  have "parse_request tok clk templates (request_line m uri v rest) =
      resolve_path clk templates (parse_query tok ?info)"
    using v request_line_words [OF assms, of rest] by (simp add: parse_request_def Let_def empty_info_def)
  with q show ?thesis by (intro that [of mp]) simp
qed

lemma resolve_path_fields:
  "resolve_path clk templates info = Inr info' \<Longrightarrow> \<exists>url. info' = info\<lparr>upstream_url := url\<rparr>"
  by (cases info) (auto simp: resolve_path_def Let_def throwing_Inr split: option.splits)

lemma rewrite_path_total: "templates = JNull \<Longrightarrow> \<exists>r. rewrite_path clk templates url out = Inr r"
  by (auto simp: rewrite_path_def Let_def elements_def)

section \<open>The upstream URL\<close>

text \<open>Whether an occurrence is the first one does not depend on the text after it.\<close>

lemma str_find_local:
  assumes "str_find pat (pre @ pat @ x) = Some (length pre)"
  shows "str_find pat (pre @ pat @ y) = Some (length pre)"
proof -
  have "\<not> prefix pat (drop j (pre @ pat @ y))" if "j < length pre" for j
  proof
    assume "prefix pat (drop j (pre @ pat @ y))"
    then have "take (length pat) (drop j (pre @ pat @ y)) = pat" by (metis append_eq_conv_conj prefix_def)
    with that have "take (length pat) (drop j (pre @ pat @ x)) = pat" by simp
    then have "prefix pat (drop j (pre @ pat @ x))" by (metis take_is_prefix)
    with assms that show False by (auto simp: str_find_Some_iff)
  qed
  then show ?thesis by (auto simp: str_find_Some_iff)
qed

lemma without_tokens_append:
  assumes "CHR ''?'' \<notin> set a"
  shows "without_tokens (a @ b) = a @ without_tokens b"
proof (cases "str_find ''?'' b")
  case None
  with assms have "str_find ''?'' (a @ b) = None" by simp
  with None show ?thesis by (simp add: without_tokens_def del: str_find_char_None)
next
  case (Some q)
  with assms have "str_find ''?'' (a @ b) = Some (length a + q)" by (simp add: str_find_char_skip)
  with Some show ?thesis by (simp add: without_tokens_def)
qed

lemma without_tokens_hd:
  assumes "s \<noteq> []" and "hd s \<noteq> CHR ''?''"
  shows "without_tokens s \<noteq> []"
proof -
  obtain c t where "s = [c] @ t" using assms(1) by (cases s) auto
  moreover from this assms(2) have "CHR ''?'' \<notin> set [c]" by simp
  ultimately show ?thesis using without_tokens_append [of "[c]" t] by auto
qed

text \<open>A request for a live stream.\<close>

lemma live_request:
  assumes "word_ok m" and "word_ok uri" and "word_ok v" and "uri = pre @ ''/rtp/'' @ target"
    and "str_find ''/rtp/'' uri = Some (length pre)" and "CHR ''?'' \<notin> set pre"
    and "target \<noteq> []" and "hd target \<noteq> CHR ''?''"
  shows "\<exists>info. parse_request tok clk templates (request_line m uri v rest) = Inr info \<and>
    upstream_url info = ''rtsp://'' @ without_tokens target \<and> raw_uri info = uri"
proof -
  have w: "without_tokens uri = pre @ ''/rtp/'' @ without_tokens target"
  proof -
    have "CHR ''?'' \<notin> set (pre @ ''/rtp/'')" using assms(6) by simp
    from without_tokens_append [OF this, of target] show ?thesis unfolding assms(4) by simp
  qed
  have "str_find ''/rtp/'' (without_tokens uri) = Some (length pre)"
    unfolding w by (rule str_find_local [OF assms(5) [unfolded assms(4)]])
  moreover have "rewrite_path clk templates (''/rtp/'' @ without_tokens target) [] =
      Inr (True, ''rtsp://'' @ without_tokens target)"
    using without_tokens_hd [OF assms(7,8)] by (simp add: rewrite_path_def Let_def)
  moreover obtain mp where "parse_request tok clk templates (request_line m uri v rest) =
       resolve_path clk templates
         \<lparr>request_method = m, raw_uri = uri, version = v, clean_uri = without_tokens uri, upstream_url = [],
          params = mp, is_authorized = (tok = [] \<or> ''token='' @ tok \<in> set (uri_params uri)),
          is_http = prefix ''HTTP/'' v\<rparr>"
    using parse_request_line [OF assms(1-3)] by metis
  ultimately show ?thesis using w by (simp add: resolve_path_def Let_def)
qed

section \<open>Properties\<close>

text \<open>C10: a request is authorised exactly when no token is configured or one of the parameters of the
  query is \<open>token=\<close> followed by the configured token; the URI passed on is the request URI with every \<open>token\<close>
  parameter removed and all other parameters kept in order, so a token is never forwarded.\<close>

theorem request_authorization:
  assumes "word_ok m" and "word_ok uri" and "word_ok v"
    and "parse_request tok clk templates (request_line m uri v rest) = Inr info"
  shows "(is_authorized info \<longleftrightarrow> tok = [] \<or> ''token='' @ tok \<in> set (uri_params uri)) \<and>
    clean_uri info = without_tokens uri \<and>
    request_method info = m \<and> raw_uri info = uri \<and> (is_http info \<longleftrightarrow> prefix ''HTTP/'' v)"
proof -
  obtain mp where "parse_request tok clk templates (request_line m uri v rest) =
       resolve_path clk templates
         \<lparr>request_method = m, raw_uri = uri, version = v, clean_uri = without_tokens uri, upstream_url = [],
          params = mp, is_authorized = (tok = [] \<or> ''token='' @ tok \<in> set (uri_params uri)),
          is_http = prefix ''HTTP/'' v\<rparr>"
    using parse_request_line [OF assms(1-3)] by metis
  with assms(4) show ?thesis by (auto dest!: resolve_path_fields)
qed

lemma spec_values:
  "uri_params ''/rtp/h/a?x=1&token=k&y=2'' = [''x=1'', ''token=k'', ''y=2''] \<and>
   without_tokens ''/rtp/h/a?x=1&token=k&y=2'' = ''/rtp/h/a?x=1&y=2''"
  by code_simp

lemma witness_request:
  "word_ok ''GET'' \<and> word_ok ''/rtp/h/a?x=1&token=k&y=2'' \<and> word_ok ''HTTP/1.1'' \<and>
   (\<exists>info. parse_request ''k'' utc JNull (request_line ''GET'' ''/rtp/h/a?x=1&token=k&y=2'' ''HTTP/1.1'' []) = Inr info)"
proof -
  have w: "word_ok ''GET''" "word_ok ''/rtp/h/a?x=1&token=k&y=2''" "word_ok ''HTTP/1.1''" by code_simp+
  obtain r where "rewrite_path utc JNull ''/rtp/h/a?x=1&y=2'' [] = Inr r"
    using rewrite_path_total by blast
  moreover have "str_find ''/rtp/'' ''/rtp/h/a?x=1&y=2'' = Some 0" by simp
  ultimately show ?thesis
    using w spec_values
    by (intro conjI; (simp; fail)?)
       (rule parse_request_line [OF w, of "''k''" utc JNull "[]"], cases r, simp add: Let_def resolve_path_def)
qed

theorem request_authorization_witness:
  "\<exists>info. parse_request ''k'' utc JNull (request_line ''GET'' ''/rtp/h/a?x=1&token=k&y=2'' ''HTTP/1.1'' []) = Inr info \<and>
     is_authorized info \<and> clean_uri info = ''/rtp/h/a?x=1&y=2''"
proof -
  obtain info where i: "parse_request ''k'' utc JNull (request_line ''GET'' ''/rtp/h/a?x=1&token=k&y=2'' ''HTTP/1.1'' []) = Inr info"
    using witness_request by blast
  with request_authorization [of "''GET''" "''/rtp/h/a?x=1&token=k&y=2''" "''HTTP/1.1''" "''k''" utc JNull "[]" info]
    witness_request spec_values show ?thesis by auto
qed

text \<open>A request for a live stream resolves. When the first \<open>/rtp/\<close> of the URI is followed by a
  non-empty target, the upstream URL is \<open>rtsp://\<close> with that target, tokens removed from its query, whatever
  precedes \<open>/rtp/\<close> (nothing for HTTP, the address of the proxy for RTSP) and whatever the templates.\<close>

theorem request_upstream_live:
  assumes "word_ok m" and "word_ok uri" and "word_ok v" and "uri = pre @ ''/rtp/'' @ target"
    and "str_find ''/rtp/'' uri = Some (length pre)" and "CHR ''?'' \<notin> set pre"
    and "target \<noteq> []" and "hd target \<noteq> CHR ''?''"
  shows "\<exists>info. parse_request tok clk templates (request_line m uri v rest) = Inr info \<and>
    upstream_url info = ''rtsp://'' @ without_tokens target"
  using live_request [OF assms] by blast

theorem request_upstream_live_witness:
  "\<exists>info. parse_request ''k'' utc JNull (request_line ''DESCRIBE'' ''rtsp://p:8554/rtp/h/a?token=k&y=2'' ''RTSP/1.0'' []) = Inr info \<and>
     upstream_url info = ''rtsp://h/a?y=2''"
proof -
  have "word_ok ''DESCRIBE''" "word_ok ''rtsp://p:8554/rtp/h/a?token=k&y=2''" "word_ok ''RTSP/1.0''"
    "str_find ''/rtp/'' ''rtsp://p:8554/rtp/h/a?token=k&y=2'' = Some (length ''rtsp://p:8554'')"
    "without_tokens ''h/a?token=k&y=2'' = ''h/a?y=2''"
    by code_simp+
  note ok = this
  have "\<exists>info. parse_request ''k'' utc JNull (request_line ''DESCRIBE'' ''rtsp://p:8554/rtp/h/a?token=k&y=2'' ''RTSP/1.0'' []) = Inr info \<and>
     upstream_url info = ''rtsp://'' @ without_tokens ''h/a?token=k&y=2''"
    by (rule request_upstream_live [OF ok(1-3) _ ok(4)]) simp_all
  then show ?thesis unfolding ok(5) by simp
qed

end
