(* ===== verification/Rtsp_Client.thy ===== *)
theory Rtsp_Client
  imports Client_Base Request_Parser
begin

text \<open>
  \<open>src/clients/rtsp_to_rtsp_client.cpp\<close>: the man in the middle between an RTSP client and a server. Requests are
  forwarded with their URI and \<open>Transport\<close> header rewritten, answers with the addresses of the server replaced by those of the
  proxy, and RTP and RTCP packets in both directions, over UDP or interleaved. The record has the members of the
  class; \<open>mout\<close> collects the effects in program order. A handler throws (an uncaught C++ exception) or performs an
  access outside a block (\<^term>\<open>UndefinedBehaviour\<close>) as \<^term>\<open>Inl\<close>. Logging is left out; \<open>getsockname\<close>, \<open>recv\<close>, \<open>recvfrom\<close> and \<open>send\<close>
  are inputs.
\<close>

section \<open>State\<close>

datatype mitm_state = WAIT_UPSTREAM_CONNECT | IDLE | WAIT_STUN | WAIT_UPSTREAM_RESP | STREAMING

record RtspMitmConfig =
  cfg_ctx :: rtspCtx
  cfg_proxy_uri_prefix :: string
  cfg_upstream_uri_base :: string

record rtsp_client =
  client_addr :: sockaddr
  local_rtp_us_port :: u16
  local_rtcp_us_port :: u16
  local_rtp_ds_port :: u16
  local_rtcp_ds_port :: u16
  client_rtp_addr :: sockaddr
  client_rtcp_addr :: sockaddr
  srv_rtp_addr :: sockaddr
  srv_rtcp_addr :: sockaddr
  mstate :: mitm_state
  is_downstream_tcp :: bool
  ds_interleaved_rtp :: u8
  ds_interleaved_rtcp :: u8
  is_upstream_tcp :: bool
  us_interleaved_rtp :: u8
  us_interleaved_rtcp :: u8
  retried_with_tcp :: bool
  last_setup_req :: string
  mctx :: rtspCtx
  downstream_recv_buf :: string
  upstream_recv_buf :: string
  to_upstream_q :: "string list"
  to_downstream_q :: "packet list"
  upstream_send_offset :: nat
  relay_ready :: bool
  closed :: bool
  pending_play :: bool
  proxy_uri_prefix :: string
  upstream_uri_base :: string
  mlocal_ip :: string
  mlocal_tcp_port :: u16
  ds_transport_protocol :: string
  nat_wan_port_us :: u16
  pending_setup_req :: string
  mwait :: bool
  mblocks :: buffer_pool
  mports :: port_pool
  mcallback :: bool
  mout :: "effect list"

definition put :: "effect \<Rightarrow> rtsp_client \<Rightarrow> rtsp_client" where
  "put e st = st\<lparr>mout := mout st @ [e]\<rparr>"

text \<open>An access outside a block has no defined result.\<close>

definition checked :: "'a option \<Rightarrow> cxx_error + 'a" where
  "checked r = (case r of None \<Rightarrow> Inl UndefinedBehaviour | Some x \<Rightarrow> Inr x)"

section \<open>Text of messages\<close>

text \<open>\<open>s.replace(s.find(pat), pat.size(), new)\<close> when the pattern occurs.\<close>

definition replace_first :: "string \<Rightarrow> string \<Rightarrow> string \<Rightarrow> string" where
  "replace_first pat new s = (case str_find pat s of None \<Rightarrow> s
     | Some p \<Rightarrow> take p s @ new @ drop (p + length pat) s)"

definition replace_header :: "string \<Rightarrow> string \<Rightarrow> string \<Rightarrow> string" where
  "replace_header msg header_name new_value =
     (case str_find (to_lower header_name @ '':'') (to_lower msg) of
        None \<Rightarrow> msg
      | Some pos \<Rightarrow>
          (case str_find_from CRLF msg pos of
             None \<Rightarrow> msg
           | Some e \<Rightarrow> take pos msg @ header_name @ '': '' @ new_value @ drop e msg))"

text \<open>The regular expressions of the class. They are fixed texts that compile.\<close>

definition fixed_regex :: "string \<Rightarrow> regex" where
  "fixed_regex pat = (case regex_compile pat of Inl _ \<Rightarrow> REps | Inr (r, _) \<Rightarrow> r)"

definition client_port_re :: regex where
  "client_port_re = fixed_regex (''client_port=('' @ [CHR 0x5C] @ ''d+)-('' @ [CHR 0x5C] @ ''d+)'')"

definition interleaved_re :: regex where
  "interleaved_re = fixed_regex (''interleaved=('' @ [CHR 0x5C] @ ''d+)-('' @ [CHR 0x5C] @ ''d+)'')"

definition server_port_re :: regex where
  "server_port_re = fixed_regex (''server_port=('' @ [CHR 0x5C] @ ''d+)-('' @ [CHR 0x5C] @ ''d+)'')"

definition cp_re :: regex where
  "cp_re = fixed_regex (''client_port='' @ [CHR 0x5C] @ ''d+-'' @ [CHR 0x5C] @ ''d+'')"

definition int_re :: regex where
  "int_re = fixed_regex (''interleaved='' @ [CHR 0x5C] @ ''d+-'' @ [CHR 0x5C] @ ''d+;?'')"

definition src_re :: regex where
  "src_re = fixed_regex ''source=[0-9.]+''"

definition ip_re :: regex where
  "ip_re = fixed_regex ''IP4 [0-9.]+''"

text \<open>Two numbers of a match, \<open>static_cast<uint16_t>(std::stoi(m[1]))\<close> and the same for \<open>m[2]\<close>.\<close>

definition two_ports :: "smatch \<Rightarrow> cxx_error + (u16 \<times> u16)" where
  "two_ports m = throwing (stoi (sub_match m 1)) (\<lambda>a. throwing (stoi (sub_match m 2)) (\<lambda>b.
     Inr (of_int a, of_int b)))"

definition extract_client_port :: "string \<Rightarrow> cxx_error + (u16 \<times> u16) option" where
  "extract_client_port req =
     (let transport = extract_header_value req ''Transport'' in
      if transport = [] then Inr None
      else case regex_search client_port_re transport of
             None \<Rightarrow> Inr None
           | Some m \<Rightarrow> throwing (two_ports m) (\<lambda>p. Inr (Some p)))"

text \<open>The channels are assigned one after the other, \<open>static_cast<uint8_t>(std::stoi(...))\<close>.\<close>

definition extract_interleaved_channels :: "string \<Rightarrow> cxx_error + (u8 \<times> u8) option" where
  "extract_interleaved_channels req =
     (let transport = extract_header_value req ''Transport'' in
      if transport = [] then Inr None
      else case regex_search interleaved_re transport of
             None \<Rightarrow> Inr None
           | Some m \<Rightarrow> throwing (stoi (sub_match m 1)) (\<lambda>a. throwing (stoi (sub_match m 2)) (\<lambda>b.
               Inr (Some (of_int a, of_int b)))))"

definition rewrite_request_for_upstream :: "rtsp_client \<Rightarrow> string \<Rightarrow> string" where
  "rewrite_request_for_upstream st req =
     (if proxy_uri_prefix st = [] then req
      else case str_find CRLF req of
        None \<Rightarrow> req
      | Some crlf \<Rightarrow>
          (let first_line = take crlf req; rest = drop crlf req in
           case str_find '' '' first_line of
             None \<Rightarrow> req
           | Some sp1 \<Rightarrow>
               (case str_find_from '' '' first_line (sp1 + 1) of
                  None \<Rightarrow> req
                | Some sp2 \<Rightarrow>
                    (let verb = take sp1 first_line;
                         uri = take (sp2 - sp1 - 1) (drop (sp1 + 1) first_line);
                         rtsp_ver = drop (sp2 + 1) first_line;
                         uri1 = (if prefix (proxy_uri_prefix st) uri
                                 then upstream_uri_base st @ drop (length (proxy_uri_prefix st)) uri
                                 else uri)
                     in verb @ '' '' @ uri1 @ '' '' @ rtsp_ver @ rest))))"

text \<open>\<open>patch_transport_for_upstream\<close>: also remembers the protocol the client asked for. \<open>back()\<close> of an empty string is
  undefined.\<close>

definition patch_transport_for_upstream ::
  "server_config \<Rightarrow> string \<Rightarrow> rtsp_client \<Rightarrow> cxx_error + (string \<times> rtsp_client)" where
  "patch_transport_for_upstream cfg req st0 =
     (let transport = extract_header_value req ''Transport'' in
      if transport = [] then Inr (req, st0)
      else
        (let st = st0\<lparr>ds_transport_protocol :=
               (if str_contains ''MP2T/RTP/UDP'' transport then ''MP2T/RTP/UDP''
                else if str_contains ''RTP/AVP/TCP'' transport then ''RTP/AVP/TCP'' else ''RTP/AVP'')\<rparr>
         in if nat_zte cfg then
              Inr (replace_header req ''Transport''
                (''MP2T/RTP/UDP;unicast;client_address='' @ mlocal_ip st @ '';client_port='' @
                 to_string (unat (local_rtp_us_port st)) @ ''-'' @ to_string (unat (local_rtcp_us_port st)) @ '';mode=PLAY''), st)
            else
              (let (rtp, rtcp) = (if nat_stun cfg \<and> nat_wan_port_us st \<noteq> 0
                     then (nat_wan_port_us st, nat_wan_port_us st + 1)
                     else (local_rtp_us_port st, local_rtcp_us_port st));
                   ports = to_string (unat rtp) @ ''-'' @ to_string (unat rtcp)
               in if str_contains ''RTP/AVP/TCP'' transport \<or> str_contains ''interleaved='' transport then
                    (let t1 = replace_first ''RTP/AVP/TCP'' ''RTP/AVP'' transport; t2 = regex_replace int_re [] t1
                     in if t2 = [] then Inl UndefinedBehaviour
                        else
                          (let t3 = (if last t2 = CHR '';'' then butlast t2 else t2)
                           in Inr (replace_header req ''Transport'' (t3 @ '';client_port='' @ ports), st)))
                  else Inr (replace_header req ''Transport'' (regex_replace cp_re (''client_port='' @ ports) transport), st))))"

definition patch_transport_for_upstream_tcp :: "string \<Rightarrow> string" where
  "patch_transport_for_upstream_tcp req =
     (if extract_header_value req ''Transport'' = [] then req
      else replace_header req ''Transport'' ''RTP/AVP/TCP;unicast;interleaved=0-1'')"

section \<open>Sending to the server\<close>

definition mitm_send_rtp_trigger :: "rtsp_client \<Rightarrow> rtsp_client" where
  "mitm_send_rtp_trigger st =
     (if snd (srv_rtp_addr st) = 0 then st
      else (let st1 = put (SendUdp RtpUp [0] (srv_rtp_addr st)) st
            in if snd (srv_rtcp_addr st1) \<noteq> 0 then put (SendUdp RtcpUp [0] (srv_rtcp_addr st1)) st1 else st1))"

definition mitm_send_zte_heartbeat :: "server_config \<Rightarrow> rtsp_client \<Rightarrow> rtsp_client" where
  "mitm_send_zte_heartbeat cfg st =
     (if \<not> nat_zte cfg then st
      else put (SendUdp RtpUp (zte_payload (mlocal_ip st) (local_rtp_us_port st) (mlocal_tcp_port st)) (srv_rtp_addr st)) st)"

text \<open>Opening the path through a NAT, unless the media come over TCP.\<close>

definition punch :: "server_config \<Rightarrow> rtsp_client \<Rightarrow> rtsp_client" where
  "punch cfg st = (if is_upstream_tcp st then st
     else if nat_zte cfg then mitm_send_zte_heartbeat cfg st else mitm_send_rtp_trigger st)"

section \<open>Answers for the client\<close>

text \<open>\<open>while (transport.find(";;") != npos) ...\<close>\<close>

function collapse_semicolons :: "string \<Rightarrow> string" where
  "collapse_semicolons s =
     (case str_find '';;'' s of None \<Rightarrow> s | Some _ \<Rightarrow> collapse_semicolons (replace_first '';;'' '';'' s))"
  by pat_completeness auto
termination
proof (relation "measure length", goal_cases)
  case (2 s p)
  then show ?case using str_find_bound [of "'';;''" s p] by (simp add: replace_first_def)
qed simp

declare collapse_semicolons.simps [simp del]

text \<open>The server ports of the answer become the addresses of the server; \<open>inet_pton\<close> leaves an address alone when it
  fails.\<close>

definition learn_server_ports :: "server_config \<Rightarrow> string \<Rightarrow> rtsp_client \<Rightarrow> cxx_error + rtsp_client" where
  "learn_server_ports cfg transport st =
     (case regex_search server_port_re transport of
        None \<Rightarrow> Inr st
      | Some m \<Rightarrow> throwing (two_ports m) (\<lambda>(srv_rtp, srv_rtcp).
          (let ip = (\<lambda>old. case inet_pton (server_ip (mctx st)) of Some a \<Rightarrow> a | None \<Rightarrow> fst old)
           in Inr (punch cfg (st\<lparr>srv_rtp_addr := (ip (srv_rtp_addr st), srv_rtp),
                                srv_rtcp_addr := (ip (srv_rtcp_addr st), srv_rtcp)\<rparr>)))))"

definition client_transport :: "rtsp_client \<Rightarrow> string \<Rightarrow> string" where
  "client_transport st transport =
     (if is_downstream_tcp st then
        (let t1 = (if str_contains ''RTP/AVP/TCP'' transport then transport
                   else replace_first ''RTP/AVP'' ''RTP/AVP/TCP'' transport);
             t2 = collapse_semicolons (regex_replace server_port_re [] (regex_replace cp_re [] t1));
             t3 = (if t2 \<noteq> [] \<and> last t2 = CHR '';'' then butlast t2 else t2)
         in if str_contains ''interleaved='' t3 then t3
            else t3 @ '';interleaved='' @ to_string (unat (ds_interleaved_rtp st)) @ ''-'' @
                 to_string (unat (ds_interleaved_rtcp st)))
      else
        regex_replace server_port_re
          (''server_port='' @ to_string (unat (local_rtp_ds_port st)) @ ''-'' @ to_string (unat (local_rtcp_ds_port st)))
          (regex_replace cp_re
            (''client_port='' @ to_string (unat (snd (client_rtp_addr st))) @ ''-'' @
             to_string (unat (snd (client_rtcp_addr st)))) transport))"

text \<open>The lambda \<open>patch_uri_header\<close>. \<open>substr(7, ...)\<close> throws on a match of less than seven characters.\<close>

definition patch_uri_header :: "regex \<Rightarrow> sockaddr \<Rightarrow> string \<Rightarrow> string \<Rightarrow> cxx_error + string" where
  "patch_uri_header uri_re proxy h_name result =
     (let val = extract_header_value result h_name in
      if val = [] then Inr result
      else case regex_search uri_re val of
        None \<Rightarrow> Inr result
      | Some m \<Rightarrow>
          (let matched = match_str m in
           if length matched < 7 then Inl OutOfRange
           else
             (let host_port = (if length matched < 8 then drop 7 matched else take (length matched - 8) (drop 7 matched));
                  replacement = ''rtsp://'' @ inet_ntop (fst proxy) @ '':'' @ to_string (unat (snd proxy)) @ ''/'' @
                    host_port @ ''/''
              in Inr (replace_header result h_name (regex_replace uri_re replacement val)))))"

definition patch_sdp :: "sockaddr \<Rightarrow> string \<Rightarrow> string" where
  "patch_sdp proxy result =
     (case str_find (CRLF @ CRLF) result of
        None \<Rightarrow> result
      | Some p \<Rightarrow>
          (let headers = take (p + 4) result; body = drop (p + 4) result in
           if body \<noteq> [] \<and> str_contains ''application/sdp'' headers then
             (let body1 = regex_replace ip_re (''IP4 '' @ inet_ntop (fst proxy)) body
              in replace_header (headers @ body1) ''Content-Length'' (to_string (length body1)))
           else result))"

definition patch_response_for_client ::
  "server_config \<Rightarrow> sockaddr \<Rightarrow> string \<Rightarrow> rtsp_client \<Rightarrow> cxx_error + (string \<times> rtsp_client)" where
  "patch_response_for_client cfg proxy resp st0 =
     throwing
       (let transport0 = extract_header_value resp ''Transport'' in
        if transport0 = [] then Inr (resp, st0)
        else
          (let transport = (if ds_transport_protocol st0 \<noteq> []
                  then replace_first ''MP2T/RTP/UDP'' (ds_transport_protocol st0) transport0 else transport0)
           in throwing (learn_server_ports cfg transport st0) (\<lambda>st.
                Inr (replace_header resp ''Transport''
                  (regex_replace src_re (''source='' @ inet_ntop (fst proxy)) (client_transport st transport)), st))))
       (\<lambda>(result, st).
          throwing (regex_compile (''rtsp://'' @ server_ip (mctx st) @ ''(:[0-9]+)?/'')) (\<lambda>(uri_re, _).
          throwing (patch_uri_header uri_re proxy ''Content-Base'' result) (\<lambda>r1.
          throwing (patch_uri_header uri_re proxy ''RTP-Info'' r1) (\<lambda>r2.
            Inr (patch_sdp proxy r2, st)))))"

section \<open>Construction and destruction\<close>

definition close_all :: "rtsp_client \<Rightarrow> rtsp_client" where
  "close_all st = (if closed st then st
     else (let st1 = st\<lparr>closed := True\<rparr> in if mcallback st1 then put ClosedCallback st1 else st1))"

definition on_downstream_closed :: "rtsp_client \<Rightarrow> rtsp_client" where
  "on_downstream_closed st = close_all st"

definition initial_mitm ::
  "server_config \<Rightarrow> sockaddr \<Rightarrow> RtspMitmConfig \<Rightarrow> buffer_pool \<Rightarrow> port_pool \<Rightarrow> rtsp_client" where
  "initial_mitm cfg addr config bp pp =
     \<lparr>client_addr = addr, local_rtp_us_port = 0, local_rtcp_us_port = 0, local_rtp_ds_port = 0, local_rtcp_ds_port = 0,
      client_rtp_addr = (0, 0), client_rtcp_addr = (0, 0), srv_rtp_addr = (0, 0), srv_rtcp_addr = (0, 0),
      mstate = WAIT_UPSTREAM_CONNECT, is_downstream_tcp = False, ds_interleaved_rtp = 0, ds_interleaved_rtcp = 1,
      is_upstream_tcp = False, us_interleaved_rtp = 0, us_interleaved_rtcp = 1, retried_with_tcp = False,
      last_setup_req = [], mctx = cfg_ctx config, downstream_recv_buf = [], upstream_recv_buf = [], to_upstream_q = [],
      to_downstream_q = [], upstream_send_offset = 0, relay_ready = False, closed = False, pending_play = False,
      proxy_uri_prefix = cfg_proxy_uri_prefix config, upstream_uri_base = cfg_upstream_uri_base config,
      mlocal_ip = [], mlocal_tcp_port = 0, ds_transport_protocol = [], nat_wan_port_us = 0, pending_setup_req = [],
      mwait = pipeline_reset (pipe_cfg cfg), mblocks = bp, mports = pp, mcallback = False, mout = []\<rparr>"

definition connect_upstream :: "server_config \<Rightarrow> sys_answers \<Rightarrow> rtsp_client \<Rightarrow> cxx_error + rtsp_client" where
  "connect_upstream cfg a st =
     (case create_nonblocking_tcp a (server_ip (mctx st)) (server_rtsp_port (mctx st)) (mitm_upstream_interface cfg) of
        (fd, target, left) \<Rightarrow>
          (if fd < 0 then
             Inl (RuntimeError (''Failed to connect to upstream '' @ server_ip (mctx st) @ '':'' @
                    to_string (unat (server_rtsp_port (mctx st)))))
           else Inr ((put (Watch UpstreamSock [EPOLLOUT]) st)\<lparr>mstate := WAIT_UPSTREAM_CONNECT\<rparr>)))"

definition RTSPToRtspClient ::
  "server_config \<Rightarrow> sys_answers \<Rightarrow> sockaddr \<Rightarrow> RtspMitmConfig \<Rightarrow> string \<Rightarrow> buffer_pool \<Rightarrow> port_pool \<Rightarrow>
   cxx_error + rtsp_client" where
  "RTSPToRtspClient cfg a addr config first_request bp pp =
     (let st = (put (Unwatch DownstreamSock) (initial_mitm cfg addr config bp pp))\<lparr>downstream_recv_buf := first_request\<rparr>
      in connect_upstream cfg a (put (Watch DownstreamSock [EPOLLRDHUP, EPOLLHUP, EPOLLERR]) st))"

definition mitm_set_on_closed_callback :: "rtsp_client \<Rightarrow> rtsp_client" where
  "mitm_set_on_closed_callback st = st\<lparr>mcallback := True\<rparr>"

definition destroy_rtsp_client :: "rtsp_client \<Rightarrow> rtsp_client" where
  "destroy_rtsp_client st =
     (let give = (\<lambda>p pp. if p \<noteq> 0 then release_pair (unat p) pp else pp)
      in st\<lparr>mblocks := fold (\<lambda>p. release (pkt_data p)) (to_downstream_q st) (mblocks st), to_downstream_q := [],
            mports := give (local_rtp_ds_port st) (give (local_rtp_us_port st) (mports st))\<rparr>)"

text \<open>\<open>init_relay_sockets\<close> with the answers for the two pairs of sockets.\<close>

definition init_relay_sockets ::
  "server_config \<Rightarrow> (nat \<Rightarrow> sys_answers \<times> sys_answers) \<Rightarrow> (nat \<Rightarrow> sys_answers \<times> sys_answers) \<Rightarrow> rtsp_client \<Rightarrow>
   bool \<times> rtsp_client" where
  "init_relay_sockets cfg env_us env_ds st =
     (case bind_udp_pair_from_pool env_us (mitm_upstream_interface cfg)
             \<lparr>rtp_fd = -1, rtcp_fd = -1, rtp_port = unat (local_rtp_us_port st), ports = mports st, open_fds = []\<rparr> of
        (rc1, ps1) \<Rightarrow>
          (let st1 = st\<lparr>local_rtp_us_port := of_nat (rtp_port ps1), mports := ports ps1\<rparr> in
           if rc1 < 0 then (False, st1)
           else
             (let st2 = st1\<lparr>local_rtcp_us_port := local_rtp_us_port st1 + 1\<rparr> in
              case bind_udp_pair_from_pool env_ds []
                     \<lparr>rtp_fd = -1, rtcp_fd = -1, rtp_port = unat (local_rtp_ds_port st2), ports = mports st2, open_fds = []\<rparr> of
                (rc2, ps2) \<Rightarrow>
                  (let st3 = st2\<lparr>local_rtp_ds_port := of_nat (rtp_port ps2), mports := ports ps2\<rparr> in
                   if rc2 < 0 then (False, st3)
                   else (True, put (Watch RtcpDown [EPOLLIN]) (put (Watch RtpDown [EPOLLIN])
                          (put (Watch RtcpUp [EPOLLIN]) (put (Watch RtpUp [EPOLLIN])
                            (st3\<lparr>local_rtcp_ds_port := local_rtp_ds_port st3 + 1\<rparr>)))))))))"

definition mitm_init_timer_fd :: "rtsp_client \<Rightarrow> rtsp_client" where
  "mitm_init_timer_fd st = put (Watch TimerFd [EPOLLIN]) (put (StartTimer 20) st)"

section \<open>Media\<close>

text \<open>\<open>send_interleaved_downstream\<close>: a frame in a block of its own. A block of less than four bytes cannot hold one.\<close>

definition send_interleaved_downstream :: "u8 \<Rightarrow> u8 list \<Rightarrow> rtsp_client \<Rightarrow> cxx_error + rtsp_client" where
  "send_interleaved_downstream channel dat st =
     (if closed st then Inr st
      else
        (let bsize = get_buffer_size (mblocks st) in
         if bsize < 4 then Inl UndefinedBehaviour
         else
           (let len = (if length dat + 4 > bsize then bsize - 4 else length dat) in
            case acquire (mblocks st) of (buf0, bp) \<Rightarrow>
              throwing (checked (wr buf0 0 ([0x24, channel] @ htons (of_nat len) @ take len dat))) (\<lambda>buf.
                case push_bounded 2048 (Packet buf (len + 4) 0) (to_downstream_q st) bp of (q, bp1) \<Rightarrow>
                  Inr (put (Watch DownstreamSock [EPOLLRDHUP, EPOLLHUP, EPOLLERR, EPOLLIN, EPOLLOUT])
                         (put (EstDown (len + 4)) (st\<lparr>mblocks := bp1, to_downstream_q := q\<rparr>)))))))"

text \<open>An RTP packet of the server in a block: through the pipeline and on to the client. \<open>est\<close> says whether the bandwidth estimator
  counts what goes out over UDP.\<close>

definition relay_rtp :: "server_config \<Rightarrow> bool \<Rightarrow> u8 list \<Rightarrow> nat \<Rightarrow> rtsp_client \<Rightarrow> cxx_error + rtsp_client" where
  "relay_rtp cfg est buf n st =
     throwing (checked (process (pipe_cfg cfg) (mwait st) buf n)) (\<lambda>r.
       (let st1 = st\<lparr>mwait := waiting r\<rparr>; back = (\<lambda>s. s\<lparr>mblocks := release (out_buf r) (mblocks s)\<rparr>);
            dat = take (out_len r) (out_buf r); n1 = out_len r
        in if \<not> forward r then Inr (back st1)
           else if n1 > 0 \<and> is_downstream_tcp st1 then
             throwing (send_interleaved_downstream (ds_interleaved_rtp st1) dat st1) (\<lambda>st2. Inr (back st2))
           else if n1 > 0 \<and> snd (client_rtp_addr st1) \<noteq> 0 then
             (let st2 = put (SendUdp RtpDown dat (client_rtp_addr st1)) st1;
                  st3 = (if est then put (EstDown n1) st2 else st2)
              in Inr (back (put (AddDown n1) st3)))
           else Inr (back st1)))"

text \<open>The loop of \<open>handle_rtp_from_upstream\<close> over the datagrams \<open>recvfrom\<close> delivers. An empty datagram ends it.\<close>

fun rtp_up_loop :: "server_config \<Rightarrow> u8 list list \<Rightarrow> rtsp_client \<Rightarrow> cxx_error + rtsp_client" where
  "rtp_up_loop cfg [] st = (case acquire (mblocks st) of (buf, bp) \<Rightarrow> Inr (st\<lparr>mblocks := release buf bp\<rparr>))"
| "rtp_up_loop cfg (d # ds) st =
     (case acquire (mblocks st) of (buf0, bp) \<Rightarrow>
        (let n = min (length d) (get_buffer_size bp); buf = fill buf0 d; st1 = st\<lparr>mblocks := bp\<rparr> in
         if n = 0 then Inr (st1\<lparr>mblocks := release buf bp\<rparr>)
         else throwing (relay_rtp cfg True buf n (put (AddUp n) (put (EstUp n) st1))) (rtp_up_loop cfg ds)))"

definition process_pending_setup :: "server_config \<Rightarrow> rtsp_client \<Rightarrow> cxx_error + rtsp_client" where
  "process_pending_setup cfg st =
     (let req = pending_setup_req st; st1 = st\<lparr>pending_setup_req := [], last_setup_req := req\<rparr>
      in throwing (patch_transport_for_upstream cfg req st1) (\<lambda>(req1, st2).
           Inr (put (Watch UpstreamSock [EPOLLIN, EPOLLOUT])
                  (st2\<lparr>to_upstream_q := to_upstream_q st2 @ [rewrite_request_for_upstream st2 req1]\<rparr>))))"

definition handle_rtp_from_upstream :: "server_config \<Rightarrow> u8 list list \<Rightarrow> rtsp_client \<Rightarrow> cxx_error + rtsp_client" where
  "handle_rtp_from_upstream cfg ds st =
     (if nat_stun cfg \<and> mstate st = WAIT_STUN then
        (case acquire (mblocks st) of (buf0, bp) \<Rightarrow>
           (let d = (case ds of [] \<Rightarrow> [] | d # _ \<Rightarrow> d); n = min (length d) (get_buffer_size bp); buf = fill buf0 d;
                st1 = st\<lparr>mblocks := bp\<rparr>; back = (\<lambda>s. s\<lparr>mblocks := release buf (mblocks s)\<rparr>)
            in if n = 0 then Inr (back st1)
               else
                 throwing (checked (extract_stun_mapping_from_response buf n)) (\<lambda>m.
                   (let wan = (case m of Some (ip, wport) \<Rightarrow> wport | None \<Rightarrow> local_rtp_us_port st1)
                    in throwing (process_pending_setup cfg (st1\<lparr>nat_wan_port_us := wan, mstate := IDLE\<rparr>)) (\<lambda>st2.
                         Inr (back st2))))))
      else rtp_up_loop cfg ds st)"

text \<open>\<open>handle_rtcp_from_upstream\<close>.\<close>

fun handle_rtcp_from_upstream :: "u8 list list \<Rightarrow> rtsp_client \<Rightarrow> cxx_error + rtsp_client" where
  "handle_rtcp_from_upstream [] st = (case acquire (mblocks st) of (buf, bp) \<Rightarrow> Inr (st\<lparr>mblocks := release buf bp\<rparr>))"
| "handle_rtcp_from_upstream (d # ds) st =
     (case acquire (mblocks st) of (buf0, bp) \<Rightarrow>
        (let n = min (length d) (get_buffer_size bp); buf = fill buf0 d; st1 = st\<lparr>mblocks := bp\<rparr>;
             back = (\<lambda>s. s\<lparr>mblocks := release buf (mblocks s)\<rparr>)
         in if n = 0 then Inr (back st1)
            else
              (let st2 = put (AddUp n) (put (EstUp n) st1) in
               if is_downstream_tcp st2 then
                 throwing (send_interleaved_downstream (ds_interleaved_rtcp st2) (take n buf) st2) (\<lambda>st3.
                   handle_rtcp_from_upstream ds (back st3))
               else if snd (client_rtcp_addr st2) \<noteq> 0 then
                 handle_rtcp_from_upstream ds
                   (back (put (AddDown n) (put (EstDown n) (put (SendUdp RtcpDown (take n buf) (client_rtcp_addr st2)) st2))))
               else handle_rtcp_from_upstream ds (back st2))))"

definition handle_interleaved_from_client :: "u8 \<Rightarrow> u8 list \<Rightarrow> rtsp_client \<Rightarrow> rtsp_client" where
  "handle_interleaved_from_client channel dat st =
     (if channel = ds_interleaved_rtp st then
        (if snd (srv_rtp_addr st) \<noteq> 0
         then put (AddUp (length dat)) (put (SendUdp RtpUp dat (srv_rtp_addr st)) st) else st)
      else if channel = ds_interleaved_rtcp st then
        (if snd (srv_rtcp_addr st) \<noteq> 0
         then put (AddUp (length dat)) (put (SendUdp RtcpUp dat (srv_rtcp_addr st)) st) else st)
      else st)"

definition handle_interleaved_from_upstream ::
  "server_config \<Rightarrow> u8 \<Rightarrow> u8 list \<Rightarrow> rtsp_client \<Rightarrow> cxx_error + rtsp_client" where
  "handle_interleaved_from_upstream cfg channel dat st =
     (if channel = us_interleaved_rtp st then
        (let st1 = put (AddUp (length dat)) (put (EstUp (length dat)) st) in
         case acquire (mblocks st1) of (buf0, bp) \<Rightarrow>
           (let n = min (length dat) (get_buffer_size bp)
            in throwing (checked (wr buf0 0 (take n dat))) (\<lambda>buf. relay_rtp cfg False buf n (st1\<lparr>mblocks := bp\<rparr>))))
      else if channel = us_interleaved_rtcp st then
        (let st1 = put (EstUp (length dat)) st in
         if is_downstream_tcp st1 then send_interleaved_downstream (ds_interleaved_rtcp st1) dat st1
         else if snd (client_rtcp_addr st1) \<noteq> 0 then
           Inr (put (AddUp (length dat)) (put (SendUdp RtcpDown dat (client_rtcp_addr st1)) st1))
         else Inr st1)
      else Inr st)"

text \<open>\<open>handle_rtp_from_client\<close> and \<open>handle_rtcp_from_client\<close>: datagrams with their source. Only the address of the client is
  accepted, and its port is remembered.\<close>

fun handle_rtp_from_client :: "(sockaddr \<times> u8 list) list \<Rightarrow> rtsp_client \<Rightarrow> rtsp_client" where
  "handle_rtp_from_client [] st = (case acquire (mblocks st) of (buf, bp) \<Rightarrow> st\<lparr>mblocks := release buf bp\<rparr>)"
| "handle_rtp_from_client ((src, d) # ds) st =
     (case acquire (mblocks st) of (buf0, bp) \<Rightarrow>
        (let n = min (length d) (get_buffer_size bp); buf = fill buf0 d; st1 = st\<lparr>mblocks := bp\<rparr>;
             back = (\<lambda>s. s\<lparr>mblocks := release buf (mblocks s)\<rparr>)
         in if n = 0 then back st1
            else if fst src = fst (client_addr st1) then
              (let st2 = (if snd (client_rtp_addr st1) \<noteq> snd src
                          then st1\<lparr>client_rtp_addr := (fst (client_rtp_addr st1), snd src)\<rparr> else st1);
                   st3 = (if snd (srv_rtp_addr st2) \<noteq> 0
                          then put (AddUp n) (put (SendUdp RtpUp (take n buf) (srv_rtp_addr st2)) st2) else st2)
               in handle_rtp_from_client ds (back st3))
            else handle_rtp_from_client ds (back st1)))"

fun handle_rtcp_from_client :: "(sockaddr \<times> u8 list) list \<Rightarrow> rtsp_client \<Rightarrow> rtsp_client" where
  "handle_rtcp_from_client [] st = (case acquire (mblocks st) of (buf, bp) \<Rightarrow> st\<lparr>mblocks := release buf bp\<rparr>)"
| "handle_rtcp_from_client ((src, d) # ds) st =
     (case acquire (mblocks st) of (buf0, bp) \<Rightarrow>
        (let n = min (length d) (get_buffer_size bp); buf = fill buf0 d; st1 = st\<lparr>mblocks := bp\<rparr>;
             back = (\<lambda>s. s\<lparr>mblocks := release buf (mblocks s)\<rparr>)
         in if n = 0 then back st1
            else if fst src = fst (client_addr st1) then
              (let st2 = (if snd (client_rtcp_addr st1) \<noteq> snd src
                          then st1\<lparr>client_rtcp_addr := (fst (client_rtcp_addr st1), snd src)\<rparr> else st1);
                   st3 = (if snd (srv_rtcp_addr st2) \<noteq> 0
                          then put (AddUp n) (put (SendUdp RtcpUp (take n buf) (srv_rtcp_addr st2)) st2) else st2)
               in handle_rtcp_from_client ds (back st3))
            else handle_rtcp_from_client ds (back st1)))"

section \<open>Requests of the client\<close>

text \<open>How the client wants its media, from the \<open>Transport\<close> header of a SETUP request.\<close>

definition note_transport :: "string \<Rightarrow> rtsp_client \<Rightarrow> cxx_error + rtsp_client" where
  "note_transport req st =
     throwing (extract_interleaved_channels req) (\<lambda>ch.
       case ch of
         Some (rtp, rtcp) \<Rightarrow> Inr (st\<lparr>ds_interleaved_rtp := rtp, ds_interleaved_rtcp := rtcp, is_downstream_tcp := True\<rparr>)
       | None \<Rightarrow>
           (let st1 = st\<lparr>is_downstream_tcp := False\<rparr> in
            throwing (extract_client_port req) (\<lambda>ports.
              case ports of
                Some (crtp, crtcp) \<Rightarrow>
                  Inr (st1\<lparr>client_rtp_addr := (fst (client_addr st1), crtp),
                          client_rtcp_addr := (fst (client_addr st1), crtcp)\<rparr>)
              | None \<Rightarrow> Inr st1)))"

text \<open>A SETUP request up to the rewriting of its \<open>Transport\<close> header: the loop goes on with the patched request, or stops to wait for
  the answer of the STUN server, or the handler returns because no sockets could be had.\<close>

definition prepare_setup ::
  "server_config \<Rightarrow> (nat \<Rightarrow> sys_answers \<times> sys_answers) \<Rightarrow> (nat \<Rightarrow> sys_answers \<times> sys_answers) \<Rightarrow> string \<Rightarrow> rtsp_client \<Rightarrow>
   cxx_error + (string \<times> rtsp_client) step" where
  "prepare_setup cfg env_us env_ds req st =
     throwing (note_transport req st) (\<lambda>st1.
       (case (if relay_ready st1 then (True, st1) else init_relay_sockets cfg env_us env_ds st1) of
          (False, st2) \<Rightarrow> Inr (Return (req, close_all st2))
        | (True, st2) \<Rightarrow>
            (let st3 = st2\<lparr>relay_ready := True\<rparr> in
             if nat_stun cfg then
               Inr (Break (req, (put StunRequest st3)\<lparr>mstate := WAIT_STUN, pending_setup_req := req\<rparr>))
             else
               throwing (patch_transport_for_upstream cfg req (st3\<lparr>last_setup_req := req\<rparr>)) (\<lambda>p. Inr (Continue p)))))"

text \<open>The last part of the loop body: the request is queued for the server.\<close>

definition forward_request :: "bool \<Rightarrow> string \<Rightarrow> rtsp_client \<Rightarrow> rtsp_client" where
  "forward_request is_play req st =
     put (Watch UpstreamSock [EPOLLIN, EPOLLOUT])
       (st\<lparr>pending_play := is_play, to_upstream_q := to_upstream_q st @ [rewrite_request_for_upstream st req]\<rparr>)"

fun after_setup :: "bool \<Rightarrow> (string \<times> rtsp_client) step \<Rightarrow> rtsp_client step" where
  "after_setup is_play (Return (req, st)) = Return st"
| "after_setup is_play (Break (req, st)) = Break st"
| "after_setup is_play (Continue (req, st)) = Continue (forward_request is_play req st)"

definition down_turn ::
  "server_config \<Rightarrow> (nat \<Rightarrow> sys_answers \<times> sys_answers) \<Rightarrow> (nat \<Rightarrow> sys_answers \<times> sys_answers) \<Rightarrow> rtsp_client \<Rightarrow>
   cxx_error + rtsp_client step" where
  "down_turn cfg env_us env_ds st =
     (let s = downstream_recv_buf st in
      if hd s = CHR ''$'' then
        (if length s < 4 then Inr (Break st)
         else
           (let len = frame_len s in
            if length s < len + 4 then Inr (Break st)
            else
              (let st1 = handle_interleaved_from_client (of_nat (of_char (s ! 1))) (bytes_of (take len (drop 4 s))) st
               in Inr (Continue (st1\<lparr>downstream_recv_buf := drop (4 + len) s\<rparr>)))))
      else
        (case str_find (CRLF @ CRLF) s of
           None \<Rightarrow> Inr (Break st)
         | Some e \<Rightarrow>
             (let req = take (e + 4) s; st1 = st\<lparr>downstream_recv_buf := drop (e + 4) s\<rparr>; is_play = prefix ''PLAY '' req in
              if prefix ''SETUP '' req then
                throwing (prepare_setup cfg env_us env_ds req st1) (\<lambda>r. Inr (after_setup is_play r))
              else Inr (Continue (forward_request is_play req st1)))))"

text \<open>The loop with fuel: \<^term>\<open>None\<close> when the fuel is used up.\<close>

fun down_loop ::
  "nat \<Rightarrow> server_config \<Rightarrow> (nat \<Rightarrow> sys_answers \<times> sys_answers) \<Rightarrow> (nat \<Rightarrow> sys_answers \<times> sys_answers) \<Rightarrow> rtsp_client \<Rightarrow>
   (cxx_error + rtsp_client) option" where
  "down_loop 0 cfg env_us env_ds st = (if downstream_recv_buf st = [] then Some (Inr st) else None)"
| "down_loop (Suc n) cfg env_us env_ds st =
     (if downstream_recv_buf st = [] then Some (Inr st)
      else case down_turn cfg env_us env_ds st of
             Inl e \<Rightarrow> Some (Inl e)
           | Inr (Break st1) \<Rightarrow> Some (Inr st1)
           | Inr (Return st1) \<Rightarrow> Some (Inr st1)
           | Inr (Continue st1) \<Rightarrow> down_loop n cfg env_us env_ds st1)"

datatype recv_result = Received string | NotReceived recv_end

definition on_downstream_readable ::
  "nat \<Rightarrow> server_config \<Rightarrow> (nat \<Rightarrow> sys_answers \<times> sys_answers) \<Rightarrow> (nat \<Rightarrow> sys_answers \<times> sys_answers) \<Rightarrow> recv_result \<Rightarrow>
   rtsp_client \<Rightarrow> (cxx_error + rtsp_client) option" where
  "on_downstream_readable fuel cfg env_us env_ds r st =
     (case r of
        NotReceived RecvWouldBlock \<Rightarrow> Some (Inr st)
      | NotReceived _ \<Rightarrow> Some (Inr (on_downstream_closed st))
      | Received chunk \<Rightarrow>
          down_loop fuel cfg env_us env_ds (st\<lparr>downstream_recv_buf := downstream_recv_buf st @ chunk\<rparr>))"

section \<open>Sending\<close>

text \<open>The loop of \<open>on_downstream_writable\<close>. A \<open>send\<close> that takes nothing counts as a failure.\<close>

fun mitm_drain :: "send_result list \<Rightarrow> rtsp_client \<Rightarrow> rtsp_client \<times> bool" where
  "mitm_drain [] st = (st, False)"
| "mitm_drain (r # rs) st =
     (case to_downstream_q st of
        [] \<Rightarrow> (st, False)
      | p # q \<Rightarrow>
          (case r of
             SendWouldBlock \<Rightarrow> (st, False)
           | SendError \<Rightarrow> (st, True)
           | Sent n0 \<Rightarrow>
               (let n = min n0 (pkt_length p - pkt_offset p) in
                if n = 0 then (st, True)
                else
                  (let st1 = put (AddDown n) (put (SendTcp DownstreamSock (string_of (take n (remaining p)))) st);
                       p1 = p\<lparr>pkt_offset := pkt_offset p + n\<rparr>
                   in mitm_drain rs
                        (if pkt_offset p1 = pkt_length p1
                         then st1\<lparr>mblocks := release (pkt_data p1) (mblocks st1), to_downstream_q := q\<rparr>
                         else st1\<lparr>to_downstream_q := p1 # q\<rparr>)))))"

definition on_downstream_writable :: "send_result list \<Rightarrow> rtsp_client \<Rightarrow> rtsp_client" where
  "on_downstream_writable rs st =
     (case mitm_drain rs st of (st1, failed) \<Rightarrow>
        if failed then on_downstream_closed st1
        else if to_downstream_q st1 = []
          then put (Watch DownstreamSock [EPOLLRDHUP, EPOLLHUP, EPOLLERR, EPOLLIN]) st1
          else st1)"

text \<open>The loop of \<open>on_upstream_writable\<close>.\<close>

fun up_drain :: "send_result list \<Rightarrow> rtsp_client \<Rightarrow> rtsp_client \<times> bool" where
  "up_drain [] st = (st, False)"
| "up_drain (r # rs) st =
     (case to_upstream_q st of
        [] \<Rightarrow> (st, False)
      | msg # q \<Rightarrow>
          (case r of
             SendWouldBlock \<Rightarrow> (st, False)
           | SendError \<Rightarrow> (st, True)
           | Sent n0 \<Rightarrow>
               (let n = min n0 (length msg - upstream_send_offset st) in
                if n = 0 then (st, True)
                else
                  (let st1 = (put (SendTcp UpstreamSock (take n (drop (upstream_send_offset st) msg))) st)
                         \<lparr>upstream_send_offset := upstream_send_offset st + n\<rparr>
                   in up_drain rs
                        (if upstream_send_offset st1 = length msg
                         then st1\<lparr>to_upstream_q := q, upstream_send_offset := 0, mstate := WAIT_UPSTREAM_RESP\<rparr>
                         else st1)))))"

text \<open>The connection is there: the first request is queued.\<close>

definition upstream_connected :: "sockaddr option \<Rightarrow> rtsp_client \<Rightarrow> rtsp_client" where
  "upstream_connected sockname st0 =
     (let st = st0\<lparr>mstate := IDLE\<rparr>;
          st1 = (case sockname of Some (a, p) \<Rightarrow> st\<lparr>mlocal_ip := inet_ntop a, mlocal_tcp_port := p\<rparr> | None \<Rightarrow> st);
          st2 = (if downstream_recv_buf st1 \<noteq> []
                 then st1\<lparr>to_upstream_q := to_upstream_q st1 @ [rewrite_request_for_upstream st1 (downstream_recv_buf st1)],
                         downstream_recv_buf := []\<rparr>
                 else st1)
      in put (Watch DownstreamSock [EPOLLRDHUP, EPOLLHUP, EPOLLERR, EPOLLIN]) st2)"

definition on_upstream_writable ::
  "bool \<Rightarrow> sockaddr option \<Rightarrow> send_result list \<Rightarrow> rtsp_client \<Rightarrow> rtsp_client" where
  "on_upstream_writable so_ok sockname rs st =
     (if mstate st = WAIT_UPSTREAM_CONNECT \<and> \<not> so_ok then close_all st
      else
        (case up_drain rs (if mstate st = WAIT_UPSTREAM_CONNECT then upstream_connected sockname st else st) of
           (st1, failed) \<Rightarrow>
             if failed then close_all st1
             else put (Watch UpstreamSock ([EPOLLIN, EPOLLRDHUP, EPOLLHUP, EPOLLERR] @
                        (if to_upstream_q st1 \<noteq> [] then [EPOLLOUT] else []))) st1))"

section \<open>Answers of the server\<close>

text \<open>\<open>size_t total = end + 4 + body_len\<close>, modulo \<open>2\<^sup>6\<^sup>4\<close>; a value that does not parse counts as no body.\<close>

definition body_len :: "string \<Rightarrow> nat" where
  "body_len header =
     (let cl_val = extract_header_value header ''Content-Length''
      in if cl_val = [] then 0 else case stoul cl_val of Inl _ \<Rightarrow> 0 | Inr v \<Rightarrow> unat v)"

definition response_total :: "nat \<Rightarrow> string \<Rightarrow> nat" where
  "response_total e s = (e + 4 + body_len (take (e + 4) s)) mod 2 ^ 64"

text \<open>The answer to PLAY starts the stream.\<close>

definition start_streaming :: "server_config \<Rightarrow> int \<Rightarrow> rtsp_client \<Rightarrow> rtsp_client" where
  "start_streaming cfg status st =
     (if status = 200 \<and> pending_play st then
        punch cfg ((mitm_init_timer_fd (st\<lparr>pending_play := False, mwait := pipeline_reset (pipe_cfg cfg)\<rparr>))
                     \<lparr>mstate := STREAMING\<rparr>)
      else st)"

text \<open>The answer is copied to a block, whatever its length, and queued.\<close>

definition queue_response :: "string \<Rightarrow> rtsp_client \<Rightarrow> cxx_error + rtsp_client" where
  "queue_response resp st =
     (case acquire (mblocks st) of (buf0, bp) \<Rightarrow>
        throwing (checked (wr buf0 0 (bytes_of resp))) (\<lambda>buf.
          Inr (put (Watch DownstreamSock [EPOLLRDHUP, EPOLLHUP, EPOLLERR, EPOLLOUT, EPOLLIN])
                 (st\<lparr>mblocks := bp, to_downstream_q := to_downstream_q st @ [Packet buf (length resp) 0]\<rparr>))))"

definition handle_upstream_response ::
  "server_config \<Rightarrow> sockaddr \<Rightarrow> bool \<Rightarrow> sockaddr option \<Rightarrow> send_result list \<Rightarrow> string \<Rightarrow> rtsp_client \<Rightarrow>
   cxx_error + rtsp_client" where
  "handle_upstream_response cfg proxy so_ok sockname rs resp st0 =
     (if str_contains (''CSeq: 99'' @ CRLF) resp then Inr st0
      else
        (let st = st0\<lparr>mctx := snd (parse_session_id resp (mctx st0))\<rparr>; status = parse_status_code resp in
         if status = 461 \<and> \<not> retried_with_tcp st \<and> last_setup_req st \<noteq> [] then
           (let st1 = st\<lparr>retried_with_tcp := True\<rparr>;
                retry_req = rewrite_request_for_upstream st1 (patch_transport_for_upstream_tcp (last_setup_req st1))
            in Inr (on_upstream_writable so_ok sockname rs (st1\<lparr>to_upstream_q := to_upstream_q st1 @ [retry_req]\<rparr>)))
         else
           throwing
             (if status = 200 \<and> str_contains ''interleaved='' resp then
                throwing (extract_interleaved_channels resp) (\<lambda>ch.
                  Inr (case ch of Some (rtp, rtcp) \<Rightarrow>
                         st\<lparr>us_interleaved_rtp := rtp, us_interleaved_rtcp := rtcp, is_upstream_tcp := True\<rparr>
                       | None \<Rightarrow> st))
              else Inr st)
             (\<lambda>st1. throwing (patch_response_for_client cfg proxy resp st1) (\<lambda>(resp1, st2).
                queue_response resp1 (start_streaming cfg status st2)))))"

definition up_turn ::
  "server_config \<Rightarrow> sockaddr \<Rightarrow> bool \<Rightarrow> sockaddr option \<Rightarrow> send_result list \<Rightarrow> rtsp_client \<Rightarrow> cxx_error + rtsp_client step" where
  "up_turn cfg proxy so_ok sockname rs st =
     (let s = upstream_recv_buf st in
      if hd s = CHR ''$'' then
        (if length s < 4 then Inr (Break st)
         else
           (let len = frame_len s in
            if length s < len + 4 then Inr (Break st)
            else
              throwing (handle_interleaved_from_upstream cfg (of_nat (of_char (s ! 1))) (bytes_of (take len (drop 4 s))) st)
                (\<lambda>st1. Inr (Continue (st1\<lparr>upstream_recv_buf := drop (4 + len) s\<rparr>)))))
      else
        (case str_find (CRLF @ CRLF) s of
           None \<Rightarrow> Inr (Break st)
         | Some e \<Rightarrow>
             (let total = response_total e s in
              if length s < total then Inr (Break st)
              else
                throwing (handle_upstream_response cfg proxy so_ok sockname rs (take total s)
                            (st\<lparr>upstream_recv_buf := drop total s\<rparr>))
                  (\<lambda>st1. Inr (Continue st1)))))"

fun up_loop ::
  "nat \<Rightarrow> server_config \<Rightarrow> sockaddr \<Rightarrow> bool \<Rightarrow> sockaddr option \<Rightarrow> send_result list \<Rightarrow> rtsp_client \<Rightarrow>
   (cxx_error + rtsp_client) option" where
  "up_loop 0 cfg proxy so_ok sockname rs st = (if upstream_recv_buf st = [] then Some (Inr st) else None)"
| "up_loop (Suc n) cfg proxy so_ok sockname rs st =
     (if upstream_recv_buf st = [] then Some (Inr st)
      else case up_turn cfg proxy so_ok sockname rs st of
             Inl e \<Rightarrow> Some (Inl e)
           | Inr (Break st1) \<Rightarrow> Some (Inr st1)
           | Inr (Return st1) \<Rightarrow> Some (Inr st1)
           | Inr (Continue st1) \<Rightarrow> up_loop n cfg proxy so_ok sockname rs st1)"

definition on_upstream_readable ::
  "nat \<Rightarrow> server_config \<Rightarrow> sockaddr \<Rightarrow> bool \<Rightarrow> sockaddr option \<Rightarrow> send_result list \<Rightarrow> recv_result \<Rightarrow> rtsp_client \<Rightarrow>
   (cxx_error + rtsp_client) option" where
  "on_upstream_readable fuel cfg proxy so_ok sockname rs r st =
     (case r of
        NotReceived RecvWouldBlock \<Rightarrow> Some (Inr st)
      | NotReceived _ \<Rightarrow> Some (Inr (close_all st))
      | Received chunk \<Rightarrow>
          up_loop fuel cfg proxy so_ok sockname rs (st\<lparr>upstream_recv_buf := upstream_recv_buf st @ chunk\<rparr>))"

section \<open>Events\<close>

definition mitm_handle_timer :: "rtsp_client \<Rightarrow> rtsp_client" where
  "mitm_handle_timer st =
     (let ka = ''GET_PARAMETER '' @ rtsp_url (mctx st) @ '' RTSP/1.0'' @ CRLF @ ''CSeq: 99'' @ CRLF @
               ''Session: '' @ session_id (mctx st) @ CRLF @ CRLF
      in put (Watch UpstreamSock [EPOLLIN, EPOLLOUT]) (st\<lparr>to_upstream_q := to_upstream_q st @ [ka]\<rparr>))"

definition handle_downstream ::
  "nat \<Rightarrow> server_config \<Rightarrow> (nat \<Rightarrow> sys_answers \<times> sys_answers) \<Rightarrow> (nat \<Rightarrow> sys_answers \<times> sys_answers) \<Rightarrow>
   epoll_flag list \<Rightarrow> recv_result \<Rightarrow> send_result list \<Rightarrow> rtsp_client \<Rightarrow> (cxx_error + rtsp_client) option" where
  "handle_downstream fuel cfg env_us env_ds ev r rs st =
     (if EPOLLHUP \<in> set ev \<or> EPOLLRDHUP \<in> set ev \<or> EPOLLERR \<in> set ev then Some (Inr (on_downstream_closed st))
      else
        (case (if EPOLLIN \<in> set ev then on_downstream_readable fuel cfg env_us env_ds r st else Some (Inr st)) of
           Some (Inr st1) \<Rightarrow> Some (Inr (if EPOLLOUT \<in> set ev then on_downstream_writable rs st1 else st1))
         | other \<Rightarrow> other))"

definition handle_upstream ::
  "nat \<Rightarrow> server_config \<Rightarrow> sockaddr \<Rightarrow> bool \<Rightarrow> sockaddr option \<Rightarrow> send_result list \<Rightarrow> send_result list \<Rightarrow>
   epoll_flag list \<Rightarrow> recv_result \<Rightarrow> rtsp_client \<Rightarrow> (cxx_error + rtsp_client) option" where
  "handle_upstream fuel cfg proxy so_ok sockname rs rs' ev r st =
     (let st1 = (if EPOLLOUT \<in> set ev then on_upstream_writable so_ok sockname rs st else st) in
      case (if EPOLLIN \<in> set ev then on_upstream_readable fuel cfg proxy so_ok sockname rs' r st1 else Some (Inr st1)) of
        Some (Inr st2) \<Rightarrow>
          Some (Inr (if EPOLLHUP \<in> set ev \<or> EPOLLRDHUP \<in> set ev \<or> EPOLLERR \<in> set ev then close_all st2 else st2))
      | other \<Rightarrow> other)"

section \<open>Resolution of the upstream server\<close>

definition resolve_upstream ::
  "string \<Rightarrow> 't calendar \<Rightarrow> json \<Rightarrow> u16 \<times> u16 \<times> u16 \<Rightarrow> string \<Rightarrow> cxx_error + RtspMitmConfig" where
  "resolve_upstream token clk templates junk first_request =
     throwing (parse_request token clk templates first_request) (\<lambda>info.
       if upstream_url info = [] then Inl (RuntimeError ''Failed to resolve upstream URL from request.'')
       else
         (case parse_url (upstream_url info) ((new_ctx junk)\<lparr>rtsp_url := upstream_url info\<rparr>) of
            (rc, ctx) \<Rightarrow>
              (if rc \<noteq> 0 then Inl (RuntimeError (''Failed to parse resolved RTSP URL: '' @ upstream_url info))
               else Inr \<lparr>cfg_ctx = ctx,
                         cfg_proxy_uri_prefix =
                           (case str_find (path ctx) (raw_uri info) of None \<Rightarrow> [] | Some p \<Rightarrow> take p (raw_uri info)),
                         cfg_upstream_uri_base = ''rtsp://'' @ server_ip ctx @ '':'' @ to_string (unat (server_rtsp_port ctx))\<rparr>)))"

end
