(* ===== verification/Rtsp_Session.thy ===== *)
theory Rtsp_Session
  imports Rtsp_Client
begin

text \<open>
  Properties of a session of the man in the middle (\<open>Rtsp_Client\<close>) over whole runs of its handlers: the blocks of the
  pool are accounted for, and media and requests are relayed in order.
\<close>

section \<open>What the steps keep\<close>

text \<open>The part of the state the data path owns. Rewriting and forwarding of messages leave it alone.\<close>

definition same_media :: "rtsp_client \<Rightarrow> rtsp_client \<Rightarrow> bool" where
  "same_media st st' \<longleftrightarrow> to_downstream_q st' = to_downstream_q st \<and> mblocks st' = mblocks st"

lemma same_media_refl [simp, intro]: "same_media st st"
  by (simp add: same_media_def)

lemma same_media_trans: "same_media a b \<Longrightarrow> same_media b c \<Longrightarrow> same_media a c"
  by (simp add: same_media_def)

lemma put_sel [simp]:
  "to_downstream_q (put e st) = to_downstream_q st" "mblocks (put e st) = mblocks st" "closed (put e st) = closed st"
  "mwait (put e st) = mwait st" "is_downstream_tcp (put e st) = is_downstream_tcp st"
  "client_rtp_addr (put e st) = client_rtp_addr st" "client_rtcp_addr (put e st) = client_rtcp_addr st"
  "srv_rtp_addr (put e st) = srv_rtp_addr st" "srv_rtcp_addr (put e st) = srv_rtcp_addr st"
  "client_addr (put e st) = client_addr st" "ds_interleaved_rtp (put e st) = ds_interleaved_rtp st"
  "ds_interleaved_rtcp (put e st) = ds_interleaved_rtcp st" "upstream_recv_buf (put e st) = upstream_recv_buf st"
  "downstream_recv_buf (put e st) = downstream_recv_buf st" "to_upstream_q (put e st) = to_upstream_q st"
  "upstream_send_offset (put e st) = upstream_send_offset st" "mstate (put e st) = mstate st" "mctx (put e st) = mctx st"
  "mcallback (put e st) = mcallback st" "retried_with_tcp (put e st) = retried_with_tcp st"
  "last_setup_req (put e st) = last_setup_req st" "proxy_uri_prefix (put e st) = proxy_uri_prefix st"
  "upstream_uri_base (put e st) = upstream_uri_base st"
  "pending_play (put e st) = pending_play st" "is_upstream_tcp (put e st) = is_upstream_tcp st"
  "mout (put e st) = mout st @ [e]"
  by (simp_all add: put_def)

lemma same_media_put [simp]: "same_media st (put e st') \<longleftrightarrow> same_media st st'"
  by (simp add: same_media_def)

lemma same_media_punch: "same_media st (punch cfg st)"
  by (simp add: same_media_def punch_def mitm_send_zte_heartbeat_def mitm_send_rtp_trigger_def Let_def)

lemma same_media_close [simp]: "same_media st (close_all st)"
  by (simp add: same_media_def close_all_def Let_def)

lemma same_media_learn: "learn_server_ports cfg t st = Inr st' \<Longrightarrow> same_media st st'"
  using same_media_punch
  by (auto simp: learn_server_ports_def throwing_Inr same_media_def Let_def split: option.splits prod.splits)

lemma same_media_patch_response: "patch_response_for_client cfg proxy resp st = Inr (r, st') \<Longrightarrow> same_media st st'"
  by (auto simp: patch_response_for_client_def throwing_Inr Let_def dest: same_media_learn split: if_splits)

lemma same_media_patch_transport: "patch_transport_for_upstream cfg req st = Inr (r, st') \<Longrightarrow> same_media st st'"
  by (auto simp: patch_transport_for_upstream_def Let_def same_media_def split: if_splits prod.splits)

lemma same_media_pending: "process_pending_setup cfg st = Inr st' \<Longrightarrow> same_media st st'"
  by (auto simp: process_pending_setup_def throwing_Inr Let_def same_media_def dest: same_media_patch_transport)

lemma same_media_note: "note_transport req st = Inr st' \<Longrightarrow> same_media st st'"
  by (auto simp: note_transport_def throwing_Inr Let_def same_media_def split: option.splits)

lemma same_media_relay_sockets: "init_relay_sockets cfg env_us env_ds st = (ok, st') \<Longrightarrow> same_media st st'"
  by (auto simp: init_relay_sockets_def Let_def same_media_def split: prod.splits if_splits)

lemma same_media_forward_request [simp]: "same_media st (forward_request b req st)"
  by (simp add: forward_request_def same_media_def)

fun setup_state :: "(string \<times> rtsp_client) step \<Rightarrow> rtsp_client" where
  "setup_state (Break p) = snd p"
| "setup_state (Continue p) = snd p"
| "setup_state (Return p) = snd p"

fun turn_state :: "rtsp_client step \<Rightarrow> rtsp_client" where
  "turn_state (Break s) = s"
| "turn_state (Continue s) = s"
| "turn_state (Return s) = s"

lemma same_media_prepare:
  assumes "prepare_setup cfg env_us env_ds req st = Inr r"
  shows "same_media st (setup_state r)"
proof -
  obtain st1 where st1: "note_transport req st = Inr st1" "same_media st st1"
    using assms same_media_note by (auto simp: prepare_setup_def throwing_Inr)
  obtain ok st2 where st2: "(if relay_ready st1 then (True, st1) else init_relay_sockets cfg env_us env_ds st1) = (ok, st2)"
    by (cases "if relay_ready st1 then (True, st1) else init_relay_sockets cfg env_us env_ds st1")
  then have m2: "same_media st1 st2" using same_media_relay_sockets by (auto split: if_splits)
  have m3: "same_media st2 st3" if "patch_transport_for_upstream cfg req (st2\<lparr>relay_ready := True, last_setup_req := req\<rparr>) = Inr (x, st3)" for x st3
    using same_media_patch_transport [OF that] by (simp add: same_media_def)
  have "same_media st2 (setup_state r)"
  proof (cases ok)
    case False
    with assms st1(1) st2 have "r = Return (req, close_all st2)" by (simp add: prepare_setup_def)
    then show ?thesis by simp
  next
    case True
    show ?thesis
    proof (cases "nat_stun cfg")
      case s: True
      with True assms st1(1) st2 show ?thesis by (auto simp: prepare_setup_def Let_def same_media_def)
    next
      case False
      with True assms st1(1) st2 m3 show ?thesis by (auto simp: prepare_setup_def Let_def throwing_Inr)
    qed
  qed
  with st1(2) m2 show ?thesis by (blast intro: same_media_trans)
qed

lemma same_media_from_client [simp]: "same_media st (handle_interleaved_from_client ch dat st)"
  by (simp add: handle_interleaved_from_client_def)

lemma same_media_down_turn:
  assumes "down_turn cfg env_us env_ds st = Inr r"
  shows "same_media st (turn_state r)"
proof -
  have client: "same_media st ((handle_interleaved_from_client ch dat st)\<lparr>downstream_recv_buf := x\<rparr>)" for ch dat x
    using same_media_from_client [of st ch dat] by (simp add: same_media_def)
  have fwd: "same_media st (forward_request b q (st\<lparr>downstream_recv_buf := x\<rparr>))" for b q x
    using same_media_forward_request [of "st\<lparr>downstream_recv_buf := x\<rparr>" b q] by (simp add: same_media_def)
  have prep: "same_media st (setup_state r1)" if "prepare_setup cfg env_us env_ds q (st\<lparr>downstream_recv_buf := x\<rparr>) = Inr r1" for q x r1
    using same_media_prepare [OF that] by (simp add: same_media_def)
  have fwd2: "same_media st (forward_request b q st2)" if "same_media st st2" for b q st2
    using that by (rule same_media_trans) simp
  have after: "same_media st (turn_state (after_setup b r1))" if "same_media st (setup_state r1)" for b r1
    using that fwd2 by (cases "(b, r1)" rule: after_setup.cases) auto
  show ?thesis
    using assms client fwd
    by (auto simp: down_turn_def Let_def throwing_Inr split: if_splits option.splits dest!: prep intro!: after)
qed

lemma same_media_down_loop:
  "down_loop n cfg env_us env_ds st = Some (Inr st') \<Longrightarrow> same_media st st'"
proof (induction n arbitrary: st)
  case 0
  then show ?case by (auto split: if_splits)
next
  case (Suc n)
  show ?case
  proof (cases "downstream_recv_buf st = []")
    case False
    with Suc.prems obtain r where r: "down_turn cfg env_us env_ds st = Inr r" by (auto split: sum.splits)
    from same_media_down_turn [OF r] show ?thesis
      using Suc False r by (cases r) (auto intro: same_media_trans)
  qed (use Suc.prems in auto)
qed

lemma same_media_downstream_readable:
  "on_downstream_readable n cfg env_us env_ds r st = Some (Inr st') \<Longrightarrow> same_media st st'"
  using same_media_down_loop [of n cfg env_us env_ds "st\<lparr>downstream_recv_buf := downstream_recv_buf st @ x\<rparr>" st' for x]
  by (auto simp: on_downstream_readable_def on_downstream_closed_def same_media_def [of "st\<lparr>downstream_recv_buf := z\<rparr>" for z]
      same_media_def [symmetric] split: recv_result.splits recv_end.splits)

lemma same_media_up_drain: "same_media st (fst (up_drain rs st))"
proof (induction rs arbitrary: st)
  case (Cons r rs)
  have "same_media st (fst (up_drain rs x))" if "same_media st x" for x
    using that Cons.IH by (rule same_media_trans)
  then show ?case by (auto simp: Let_def same_media_def split: list.split send_result.split)
qed simp

lemma same_media_connected: "same_media st (upstream_connected sn st)"
  by (simp add: upstream_connected_def same_media_def Let_def split: option.split prod.split)

lemma same_media_upstream_writable: "same_media st (on_upstream_writable ok sn rs st)"
proof -
  have "same_media st (fst (up_drain rs (if mstate st = WAIT_UPSTREAM_CONNECT then upstream_connected sn st else st)))"
    using same_media_up_drain same_media_trans [OF same_media_connected same_media_up_drain] by simp
  then show ?thesis
    by (auto simp: on_upstream_writable_def split: prod.split intro: same_media_trans)
qed

lemma same_media_start [simp]: "same_media st (start_streaming cfg status st)"
  using same_media_punch [of "(mitm_init_timer_fd (st\<lparr>pending_play := False, mwait := w\<rparr>))\<lparr>mstate := STREAMING\<rparr>" cfg for w]
  by (simp add: start_streaming_def same_media_def mitm_init_timer_fd_def)

section \<open>Blocks\<close>

text \<open>The queue to the client owns its blocks, and a block holds the header of a frame. \<open>k\<close> blocks are lent elsewhere.\<close>

definition mitm_inv :: "nat \<Rightarrow> rtsp_client \<Rightarrow> bool" where
  "mitm_inv k st \<longleftrightarrow> owns k (to_downstream_q st) (mblocks st) \<and> 4 \<le> get_buffer_size (mblocks st)"

lemma mitm_inv_same: "mitm_inv k st \<Longrightarrow> same_media st st' \<Longrightarrow> mitm_inv k st'"
  by (simp add: mitm_inv_def same_media_def)

lemma mitm_inv_put [simp]: "mitm_inv k (put e st) = mitm_inv k st"
  by (simp add: mitm_inv_def)

lemma mitm_inv_acquire:
  assumes "mitm_inv k st" and "acquire (mblocks st) = (buf, bp)"
  shows "mitm_inv (Suc k) (st\<lparr>mblocks := bp\<rparr>) \<and> length buf = get_buffer_size bp \<and> length buf = get_buffer_size (mblocks st)"
  using assms owns_acquire [of k "to_downstream_q st" "mblocks st" buf bp] by (simp add: mitm_inv_def)

lemma mitm_inv_release:
  assumes "mitm_inv (Suc k) st" and "length buf = get_buffer_size (mblocks st)"
  shows "mitm_inv k (st\<lparr>mblocks := release buf (mblocks st)\<rparr>)"
  using assms owns_release [of k "to_downstream_q st" "mblocks st" buf] by (simp add: mitm_inv_def)

lemma mitm_inv_release_acquired:
  assumes "mitm_inv k st" and "acquire (mblocks st) = (buf, bp)" and "length b = length buf"
  shows "mitm_inv k (st\<lparr>mblocks := release b bp\<rparr>)"
  using mitm_inv_release [of k "st\<lparr>mblocks := bp\<rparr>" b] mitm_inv_acquire [OF assms(1,2)] assms(3) by simp

lemma send_interleaved_ok:
  assumes "mitm_inv k st"
  shows "\<exists>st'. send_interleaved_downstream ch dat st = Inr st' \<and> mitm_inv k st' \<and>
    get_buffer_size (mblocks st') = get_buffer_size (mblocks st)"
proof (cases "closed st")
  case True
  with assms show ?thesis by (simp add: send_interleaved_downstream_def)
next
  case False
  let ?b = "get_buffer_size (mblocks st)"
  let ?len = "if length dat + 4 > ?b then ?b - 4 else length dat"
  obtain buf0 bp where acq: "acquire (mblocks st) = (buf0, bp)" by (cases "acquire (mblocks st)")
  have o: "owns (Suc k) (to_downstream_q st) bp" "length buf0 = ?b" "get_buffer_size bp = ?b" "4 \<le> ?b"
    using assms owns_acquire [of k "to_downstream_q st" "mblocks st" buf0 bp] acq by (simp_all add: mitm_inv_def)
  let ?dat = "[0x24, ch] @ htons (of_nat ?len) @ take ?len dat"
  have l: "length ?dat = ?len + 4" "?len + 4 \<le> ?b" using o(4) by auto
  then obtain buf where w: "wr buf0 0 ?dat = Some buf" using wr_ok [of 0 ?dat buf0] o(2) by auto
  have "pkt_ok (get_buffer_size bp) (Packet buf (?len + 4) 0)"
    using wr_length [OF w] o l by (simp add: pkt_ok_def Packet_def)
  moreover obtain q bp1 where q: "push_bounded 2048 (Packet buf (?len + 4) 0) (to_downstream_q st) bp = (q, bp1)"
    by (cases "push_bounded 2048 (Packet buf (?len + 4) 0) (to_downstream_q st) bp")
  ultimately have "owns k q bp1" "get_buffer_size bp1 = ?b" using push_bounded_owns [OF q o(1)] o by auto
  with False o w q acq show ?thesis
    by (auto simp: send_interleaved_downstream_def Let_def checked_def mitm_inv_def)
qed

lemma relay_rtp_ok:
  assumes "mitm_inv (Suc k) st" and "length buf = get_buffer_size (mblocks st)" and "n \<le> length buf"
  shows "\<exists>st'. relay_rtp cfg est buf n st = Inr st' \<and> mitm_inv k st'"
proof -
  obtain r where r: "process (pipe_cfg cfg) (mwait st) buf n = Some r" "length (out_buf r) = length buf"
    using process_safe [OF assms(3), of "pipe_cfg cfg" "mwait st"] by blast
  let ?st = "st\<lparr>mwait := waiting r\<rparr>"
  have inv: "mitm_inv (Suc k) ?st" using assms(1) by (simp add: mitm_inv_def)
  have rel: "mitm_inv k (s\<lparr>mblocks := release (out_buf r) (mblocks s)\<rparr>)"
    if "mitm_inv (Suc k) s" "get_buffer_size (mblocks s) = get_buffer_size (mblocks st)" for s
    using mitm_inv_release [OF that(1)] that(2) r(2) assms(2) by simp
  obtain st2 where s: "send_interleaved_downstream (ds_interleaved_rtp ?st) (take (out_len r) (out_buf r)) ?st = Inr st2"
    "mitm_inv (Suc k) st2" "get_buffer_size (mblocks st2) = get_buffer_size (mblocks st)"
    using send_interleaved_ok [OF inv] by (metis rtsp_client.select_convs(36) rtsp_client.surjective rtsp_client.update_convs(35))
  show ?thesis
    using r(1) s rel [OF s(2,3)] rel [OF inv] rel [of "put a ?st" for a] rel [of "put a (put b ?st)" for a b]
      rel [of "put a (put b (put c ?st))" for a b c] inv
    by (simp add: relay_rtp_def checked_def Let_def)
qed

lemma rtp_up_loop_ok: "mitm_inv k st \<Longrightarrow> \<exists>st'. rtp_up_loop cfg ds st = Inr st' \<and> mitm_inv k st'"
proof (induction ds arbitrary: st)
  case Nil
  then show ?case
    using mitm_inv_release_acquired [of k st] by (cases "acquire (mblocks st)") simp
next
  case (Cons d ds)
  obtain buf bp where acq: "acquire (mblocks st) = (buf, bp)" by (cases "acquire (mblocks st)")
  note a = mitm_inv_acquire [OF Cons.prems acq]
  let ?n = "min (length d) (get_buffer_size bp)"
  let ?st = "put (AddUp ?n) (put (EstUp ?n) (st\<lparr>mblocks := bp\<rparr>))"
  obtain st1 where "relay_rtp cfg True (fill buf d) ?n ?st = Inr st1" "mitm_inv k st1"
    using relay_rtp_ok [of k ?st "fill buf d" ?n cfg True] a by auto
  then show ?case
    using Cons.IH [of st1] mitm_inv_release_acquired [OF Cons.prems acq, of "fill buf d"] acq by (simp add: Let_def)
qed

lemma rtp_from_upstream_inv:
  assumes "mitm_inv k st" and "handle_rtp_from_upstream cfg ds st = Inr st'"
  shows "mitm_inv k st'"
proof (cases "nat_stun cfg \<and> mstate st = WAIT_STUN")
  case False
  with assms rtp_up_loop_ok [OF assms(1), of cfg ds] show ?thesis by (auto simp: handle_rtp_from_upstream_def)
next
  case True
  obtain buf bp where acq: "acquire (mblocks st) = (buf, bp)" by (cases "acquire (mblocks st)")
  let ?d = "case ds of [] \<Rightarrow> [] | d # _ \<Rightarrow> d"
  show ?thesis
  proof (cases "min (length ?d) (get_buffer_size bp) = 0")
    case n: True
    with True acq assms show ?thesis
      using mitm_inv_release_acquired [OF assms(1) acq, of "fill buf ?d"] by (simp add: handle_rtp_from_upstream_def)
  next
    case False
    with True acq assms(2) obtain wan st2 where st2:
      "process_pending_setup cfg (st\<lparr>mblocks := bp, nat_wan_port_us := wan, mstate := IDLE\<rparr>) = Inr st2"
      "st' = st2\<lparr>mblocks := release (fill buf ?d) (mblocks st2)\<rparr>"
      by (auto simp: handle_rtp_from_upstream_def Let_def throwing_Inr)
    have "mitm_inv (Suc k) st2" "get_buffer_size (mblocks st2) = length buf"
      using same_media_pending [OF st2(1)] mitm_inv_acquire [OF assms(1) acq] by (simp_all add: mitm_inv_def same_media_def)
    then show ?thesis unfolding st2(2) by (intro mitm_inv_release) simp_all
  qed
qed

lemma rtcp_from_upstream_ok: "mitm_inv k st \<Longrightarrow> \<exists>st'. handle_rtcp_from_upstream ds st = Inr st' \<and> mitm_inv k st'"
proof (induction ds arbitrary: st)
  case Nil
  then show ?case
    using mitm_inv_release_acquired [of k st] by (cases "acquire (mblocks st)") simp
next
  case (Cons d ds)
  obtain buf bp where acq: "acquire (mblocks st) = (buf, bp)" by (cases "acquire (mblocks st)")
  note a = mitm_inv_acquire [OF Cons.prems acq]
  let ?n = "min (length d) (get_buffer_size bp)" and ?buf = "fill buf d"
  let ?st = "put (AddUp ?n) (put (EstUp ?n) (st\<lparr>mblocks := bp\<rparr>))"
  have inv: "mitm_inv (Suc k) ?st" "get_buffer_size (mblocks ?st) = length ?buf" using a by simp_all
  have rel: "mitm_inv k (s\<lparr>mblocks := release ?buf (mblocks s)\<rparr>)"
    if "mitm_inv (Suc k) s" "get_buffer_size (mblocks s) = length ?buf" for s
    using mitm_inv_release [OF that(1)] that(2) by simp
  obtain st3 where s: "send_interleaved_downstream (ds_interleaved_rtcp ?st) (take ?n ?buf) ?st = Inr st3" "mitm_inv (Suc k) st3"
    "get_buffer_size (mblocks st3) = length ?buf"
    using send_interleaved_ok [OF inv(1)] inv(2) by metis
  show ?case
    using Cons.IH [OF rel [OF s(2,3)]] Cons.IH [OF rel [OF inv]]
      Cons.IH [OF rel [of "put x (put y (put z ?st))" for x y z]] inv s(1)
      mitm_inv_release_acquired [OF Cons.prems acq, of ?buf] acq
    by (simp add: Let_def)
qed

lemma rtp_from_client_inv: "mitm_inv k st \<Longrightarrow> mitm_inv k (handle_rtp_from_client ds st)"
proof (induction ds arbitrary: st)
  case Nil
  then show ?case using mitm_inv_release_acquired [of k st] by (cases "acquire (mblocks st)") simp
next
  case (Cons x ds)
  obtain src d where x: "x = (src, d)" by (cases x)
  obtain buf bp where acq: "acquire (mblocks st) = (buf, bp)" by (cases "acquire (mblocks st)")
  have "mitm_inv k (s\<lparr>mblocks := release (fill buf d) bp\<rparr>)" if "to_downstream_q s = to_downstream_q st" for s
    using mitm_inv_release_acquired [OF Cons.prems acq, of "fill buf d"] that by (simp add: mitm_inv_def)
  then show ?case using acq x by (auto simp: Let_def intro!: Cons.IH)
qed

lemma rtcp_from_client_inv: "mitm_inv k st \<Longrightarrow> mitm_inv k (handle_rtcp_from_client ds st)"
proof (induction ds arbitrary: st)
  case Nil
  then show ?case using mitm_inv_release_acquired [of k st] by (cases "acquire (mblocks st)") simp
next
  case (Cons x ds)
  obtain src d where x: "x = (src, d)" by (cases x)
  obtain buf bp where acq: "acquire (mblocks st) = (buf, bp)" by (cases "acquire (mblocks st)")
  have "mitm_inv k (s\<lparr>mblocks := release (fill buf d) bp\<rparr>)" if "to_downstream_q s = to_downstream_q st" for s
    using mitm_inv_release_acquired [OF Cons.prems acq, of "fill buf d"] that by (simp add: mitm_inv_def)
  then show ?case using acq x by (auto simp: Let_def intro!: Cons.IH)
qed

lemma from_upstream_tcp_ok:
  assumes "mitm_inv k st"
  shows "\<exists>st'. handle_interleaved_from_upstream cfg ch dat st = Inr st' \<and> mitm_inv k st'"
proof -
  obtain buf bp where acq: "acquire (mblocks st) = (buf, bp)" by (cases "acquire (mblocks st)")
  note a = mitm_inv_acquire [OF assms acq]
  let ?n = "min (length dat) (get_buffer_size bp)"
  let ?st = "put (AddUp (length dat)) (put (EstUp (length dat)) st)"
  obtain b where w: "wr buf 0 (take ?n dat) = Some b" using wr_ok [of 0 "take ?n dat" buf] a by auto
  have "length b = length buf" using wr_length [OF w] .
  then obtain st1 where r: "relay_rtp cfg False b ?n (?st\<lparr>mblocks := bp\<rparr>) = Inr st1" "mitm_inv k st1"
    using relay_rtp_ok [of k "?st\<lparr>mblocks := bp\<rparr>" b ?n cfg False] a by (auto simp: mitm_inv_def)
  obtain st2 where "send_interleaved_downstream (ds_interleaved_rtcp st) dat (put (EstUp (length dat)) st) = Inr st2"
    "mitm_inv k st2" using send_interleaved_ok [of k "put (EstUp (length dat)) st"] assms by auto
  with r w acq assms show ?thesis
    by (simp add: handle_interleaved_from_upstream_def Let_def checked_def)
qed

lemma queue_response_ok:
  assumes "mitm_inv k st"
  shows "if length resp \<le> get_buffer_size (mblocks st)
    then \<exists>st'. queue_response resp st = Inr st' \<and> mitm_inv k st' \<and>
      pending (to_downstream_q st') = pending (to_downstream_q st) @ bytes_of resp
    else queue_response resp st = Inl UndefinedBehaviour"
proof -
  obtain buf bp where acq: "acquire (mblocks st) = (buf, bp)" by (cases "acquire (mblocks st)")
  note a = mitm_inv_acquire [OF assms acq]
  show ?thesis
  proof (cases "length resp \<le> get_buffer_size (mblocks st)")
    case False
    with acq a show ?thesis by (simp add: queue_response_def checked_def wr_def)
  next
    case True
    with a obtain b where w: "wr buf 0 (bytes_of resp) = Some b" using wr_ok [of 0 "bytes_of resp" buf] by auto
    have "pkt_ok (get_buffer_size bp) (Packet b (length resp) 0)"
      using wr_length [OF w] a True by (simp add: pkt_ok_def Packet_def)
    then have "owns k (to_downstream_q st @ [Packet b (length resp) 0]) bp"
      using a by (intro owns_push) (simp_all add: mitm_inv_def)
    moreover have "remaining (Packet b (length resp) 0) = bytes_of resp"
      using w by (auto simp: remaining_def Packet_def wr_def split: if_splits)
    ultimately show ?thesis using True acq w a by (simp add: queue_response_def checked_def mitm_inv_def)
  qed
qed

text \<open>What becomes of a message of the server: an answer to a keep-alive is dropped, a refused SETUP is sent again for TCP, and
  everything else is rewritten and queued for the client.\<close>

lemma upstream_response_cases:
  assumes "handle_upstream_response cfg proxy so_ok sn rs resp st = Inr st'"
  obtains (dropped) "st' = st"
  | (retry) q where "st' = on_upstream_writable so_ok sn rs
      (st\<lparr>mctx := snd (parse_session_id resp (mctx st)), retried_with_tcp := True, to_upstream_q := q\<rparr>)"
  | (answer) st1 r1 st2 where
      "st1 = st\<lparr>mctx := snd (parse_session_id resp (mctx st))\<rparr> \<or>
       (\<exists>x y. st1 = st\<lparr>mctx := snd (parse_session_id resp (mctx st)), us_interleaved_rtp := x, us_interleaved_rtcp := y,
                       is_upstream_tcp := True\<rparr>)"
      "patch_response_for_client cfg proxy resp st1 = Inr (r1, st2)"
      "queue_response r1 (start_streaming cfg (parse_status_code resp) st2) = Inr st'"
proof -
  let ?st = "st\<lparr>mctx := snd (parse_session_id resp (mctx st))\<rparr>"
  let ?retry = "parse_status_code resp = 461 \<and> \<not> retried_with_tcp ?st \<and> last_setup_req ?st \<noteq> []"
  consider "str_contains (''CSeq: 99'' @ CRLF) resp"
    | "\<not> str_contains (''CSeq: 99'' @ CRLF) resp" ?retry | "\<not> str_contains (''CSeq: 99'' @ CRLF) resp" "\<not> ?retry" by blast
  then show thesis
  proof cases
    case 1
    with assms show ?thesis by (intro dropped) (simp add: handle_upstream_response_def)
  next
    case 2
    let ?st1 = "?st\<lparr>retried_with_tcp := True\<rparr>"
    let ?q = "rewrite_request_for_upstream ?st1 (patch_transport_for_upstream_tcp (last_setup_req ?st1))"
    have "st' = on_upstream_writable so_ok sn rs (?st1\<lparr>to_upstream_q := to_upstream_q ?st1 @ [?q]\<rparr>)"
      using 2 assms unfolding handle_upstream_response_def Let_def by (simp only: if_False if_True simp_thms sum.inject)
    then show ?thesis by (rule retry)
  next
    case 3
    then obtain st1 r1 st2 where
      a: "(if parse_status_code resp = 200 \<and> str_contains ''interleaved='' resp then
            throwing (extract_interleaved_channels resp) (\<lambda>ch.
              Inr (case ch of Some (rtp, rtcp) \<Rightarrow>
                     ?st\<lparr>us_interleaved_rtp := rtp, us_interleaved_rtcp := rtcp, is_upstream_tcp := True\<rparr>
                   | None \<Rightarrow> ?st))
          else Inr ?st) = Inr st1"
      and b: "patch_response_for_client cfg proxy resp st1 = Inr (r1, st2)"
      and c: "queue_response r1 (start_streaming cfg (parse_status_code resp) st2) = Inr st'"
      using assms unfolding handle_upstream_response_def Let_def
      by (simp only: if_False simp_thms throwing_Inr split_paired_Ex prod.case) blast
    have "st1 = ?st \<or> (\<exists>x y. st1 = ?st\<lparr>us_interleaved_rtp := x, us_interleaved_rtcp := y, is_upstream_tcp := True\<rparr>)"
      using a by (auto simp: throwing_Inr split: if_splits option.splits)
    from this b c show ?thesis by (rule answer)
  qed
qed

lemma response_inv:
  assumes "mitm_inv k st" and "handle_upstream_response cfg proxy so_ok sn rs resp st = Inr st'"
  shows "mitm_inv k st'"
  using assms(2)
proof (cases rule: upstream_response_cases)
  case (retry q)
  let ?st = "st\<lparr>mctx := snd (parse_session_id resp (mctx st)), retried_with_tcp := True, to_upstream_q := q\<rparr>"
  have "mitm_inv k ?st" using assms(1) by (simp add: mitm_inv_def)
  then show ?thesis unfolding retry by (rule mitm_inv_same) (rule same_media_upstream_writable)
next
  case (answer st1 r1 st2)
  have "same_media st st1" using answer(1) by (auto simp: same_media_def)
  then have "same_media st (start_streaming cfg (parse_status_code resp) st2)"
    using same_media_patch_response [OF answer(2)] same_media_start by (blast intro: same_media_trans)
  with assms(1) have "mitm_inv k (start_streaming cfg (parse_status_code resp) st2)" by (rule mitm_inv_same)
  from queue_response_ok [OF this, of r1] answer(3) show ?thesis by (auto split: if_splits)
qed (use assms(1) in simp)

lemma up_turn_inv:
  assumes "mitm_inv k st" and "up_turn cfg proxy so_ok sn rs st = Inr r"
  shows "mitm_inv k (turn_state r)"
proof -
  have m: "mitm_inv k (s\<lparr>upstream_recv_buf := x\<rparr>) = mitm_inv k s" for s x by (simp add: mitm_inv_def)
  have "mitm_inv k st1" if "handle_interleaved_from_upstream cfg ch dat st = Inr st1" for ch dat st1
    using from_upstream_tcp_ok [OF assms(1), of cfg ch dat] that by auto
  moreover have "mitm_inv k st1" if "handle_upstream_response cfg proxy so_ok sn rs x (st\<lparr>upstream_recv_buf := y\<rparr>) = Inr st1" for x y st1
    using response_inv [OF _ that] assms(1) m by simp
  ultimately show ?thesis
    using assms by (auto simp: up_turn_def Let_def throwing_Inr m split: if_splits option.splits)
qed

lemma up_loop_inv:
  "up_loop n cfg proxy so_ok sn rs st = Some (Inr st') \<Longrightarrow> mitm_inv k st \<Longrightarrow> mitm_inv k st'"
proof (induction n arbitrary: st)
  case 0
  then show ?case by (auto split: if_splits)
next
  case (Suc n)
  show ?case
  proof (cases "upstream_recv_buf st = []")
    case False
    with Suc.prems obtain r where r: "up_turn cfg proxy so_ok sn rs st = Inr r" by (auto split: sum.splits)
    from up_turn_inv [OF Suc.prems(2) r] show ?thesis using Suc False r by (cases r) auto
  qed (use Suc.prems in auto)
qed

lemma upstream_readable_inv:
  assumes "on_upstream_readable n cfg proxy so_ok sn rs r st = Some (Inr st')" and "mitm_inv k st"
  shows "mitm_inv k st'"
proof (cases r)
  case (Received c)
  with assms up_loop_inv [of n cfg proxy so_ok sn rs "st\<lparr>upstream_recv_buf := upstream_recv_buf st @ c\<rparr>" st' k]
  show ?thesis by (simp add: on_upstream_readable_def mitm_inv_def)
next
  case (NotReceived e)
  with assms show ?thesis
    by (cases e) (auto simp: on_upstream_readable_def intro: mitm_inv_same)
qed

text \<open>The bytes for the client: those sent, then those queued.\<close>

fun tcp_sent :: "sock_role \<Rightarrow> effect list \<Rightarrow> u8 list" where
  "tcp_sent r [] = []"
| "tcp_sent r (SendTcp r' s # es) = (if r = r' then bytes_of s else []) @ tcp_sent r es"
| "tcp_sent r (_ # es) = tcp_sent r es"

lemma tcp_sent_append [simp]: "tcp_sent r (a @ b) = tcp_sent r a @ tcp_sent r b"
  by (induction r a rule: tcp_sent.induct) simp_all

definition client_stream :: "rtsp_client \<Rightarrow> u8 list" where
  "client_stream st = tcp_sent DownstreamSock (mout st) @ pending (to_downstream_q st)"

lemma mitm_drain_ok:
  assumes "mitm_inv k st" and "mitm_drain rs st = (st', failed)"
  shows "mitm_inv k st' \<and> client_stream st' = client_stream st"
  using assms
proof (induction rs arbitrary: st)
  case (Cons r rs)
  show ?case
  proof (cases "to_downstream_q st")
    case Nil
    with Cons.prems show ?thesis by simp
  next
    case q: (Cons p q)
    show ?thesis
    proof (cases r)
      case (Sent n0)
      let ?n = "min n0 (pkt_length p - pkt_offset p)"
      let ?p = "p\<lparr>pkt_offset := pkt_offset p + ?n\<rparr>"
      let ?st = "put (AddDown ?n) (put (SendTcp DownstreamSock (string_of (take ?n (remaining p)))) st)"
      let ?st1 = "if pkt_offset ?p = pkt_length ?p
        then ?st\<lparr>mblocks := release (pkt_data p) (mblocks st), to_downstream_q := q\<rparr> else ?st\<lparr>to_downstream_q := ?p # q\<rparr>"
      show ?thesis
      proof (cases "?n = 0")
        case True
        with Cons.prems q Sent show ?thesis by simp
      next
        case False
        have o: "owns k (p # q) (mblocks st)" "4 \<le> get_buffer_size (mblocks st)"
          using Cons.prems(1) q by (simp_all add: mitm_inv_def)
        then have "pkt_ok (get_buffer_size (mblocks st)) p" by (simp add: owns_def)
        from remaining_advance [OF this, of ?n]
        have adv: "remaining p = take ?n (remaining p) @ remaining ?p" "pkt_ok (get_buffer_size (mblocks st)) ?p"
          by simp_all
        have "mitm_inv k ?st1" using o owns_pop [OF o(1)] adv(2) by (auto simp: mitm_inv_def owns_def)
        moreover have "client_stream ?st1 = client_stream st"
        proof (cases "pkt_offset ?p = pkt_length ?p")
          case True
          then have "remaining ?p = []" by (simp add: remaining_def)
          with True adv(1) q show ?thesis by (simp add: client_stream_def)
        next
          case False
          with adv(1) q show ?thesis by (simp add: client_stream_def)
        qed
        moreover have "mitm_drain rs ?st1 = (st', failed)" using Cons.prems(2) q Sent False
          by (cases "pkt_offset ?p = pkt_length ?p") (simp_all add: Let_def)
        ultimately show ?thesis using Cons.IH [of ?st1] by simp
      qed
    qed (use Cons.prems q in auto)
  qed
qed simp

lemma client_stream_close [simp]: "client_stream (close_all st) = client_stream st"
  by (simp add: close_all_def client_stream_def Let_def)

lemma client_stream_put [simp]:
  "client_stream (put (Watch r fl) st) = client_stream st" "client_stream (put (AddUp n) st) = client_stream st"
  "client_stream (put (EstUp n) st) = client_stream st" "client_stream (put (EstDown n) st) = client_stream st"
  by (simp_all add: client_stream_def)

lemma downstream_writable_ok:
  assumes "mitm_inv k st"
  shows "mitm_inv k (on_downstream_writable rs st) \<and> client_stream (on_downstream_writable rs st) = client_stream st"
proof -
  obtain st' failed where d: "mitm_drain rs st = (st', failed)" by (cases "mitm_drain rs st")
  from mitm_drain_ok [OF assms d] d show ?thesis
    by (auto simp: on_downstream_writable_def on_downstream_closed_def intro: mitm_inv_same)
qed

section \<open>Runs\<close>

text \<open>One event of a session: the handler the event loop calls, with what the system answers. The closing callback is installed
  before any of them runs.\<close>

inductive mitm_step :: "server_config \<Rightarrow> rtsp_client \<Rightarrow> rtsp_client \<Rightarrow> bool" for cfg where
  rtp_up: "handle_rtp_from_upstream cfg ds st = Inr st' \<Longrightarrow> mitm_step cfg st st'"
| rtcp_up: "handle_rtcp_from_upstream ds st = Inr st' \<Longrightarrow> mitm_step cfg st st'"
| rtp_client: "mitm_step cfg st (handle_rtp_from_client dgs st)"
| rtcp_client: "mitm_step cfg st (handle_rtcp_from_client dgs st)"
| downstream: "handle_downstream fuel cfg env_us env_ds ev r rs st = Some (Inr st') \<Longrightarrow> mitm_step cfg st st'"
| upstream: "handle_upstream fuel cfg proxy so_ok sn rs rs' ev r st = Some (Inr st') \<Longrightarrow> mitm_step cfg st st'"
| timer: "mitm_step cfg st (mitm_handle_timer st)"

lemma downstream_inv:
  assumes "handle_downstream fuel cfg env_us env_ds ev r rs st = Some (Inr st')" and "mitm_inv k st"
  shows "mitm_inv k st'"
proof -
  have "mitm_inv k (on_downstream_closed st)"
    using assms(2) by (auto simp: on_downstream_closed_def intro: mitm_inv_same)
  moreover have "mitm_inv k st1" if "on_downstream_readable fuel cfg env_us env_ds r st = Some (Inr st1)" for st1
    using mitm_inv_same [OF assms(2) same_media_downstream_readable [OF that]] .
  moreover have "mitm_inv k (on_downstream_writable rs st1)" if "mitm_inv k st1" for st1
    using downstream_writable_ok [OF that] by simp
  ultimately show ?thesis
    using assms by (auto simp: handle_downstream_def split: if_splits option.splits sum.splits)
qed

lemma upstream_inv:
  assumes "handle_upstream fuel cfg proxy so_ok sn rs rs' ev r st = Some (Inr st')" and "mitm_inv k st"
  shows "mitm_inv k st'"
proof -
  have "mitm_inv k (on_upstream_writable so_ok sn rs st)"
    using mitm_inv_same [OF assms(2) same_media_upstream_writable] .
  then have "mitm_inv k (if EPOLLOUT \<in> set ev then on_upstream_writable so_ok sn rs st else st)" using assms(2) by simp
  moreover have "mitm_inv k (close_all s)" if "mitm_inv k s" for s using that by (auto intro: mitm_inv_same)
  ultimately show ?thesis
    using assms(1) upstream_readable_inv [of fuel cfg proxy so_ok sn rs' r "if EPOLLOUT \<in> set ev then on_upstream_writable so_ok sn rs st else st"]
    by (auto simp: handle_upstream_def Let_def split: if_splits option.splits sum.splits)
qed

lemma mitm_step_inv:
  assumes "mitm_step cfg st st'" and "mitm_inv k st"
  shows "mitm_inv k st'"
  using assms
proof (cases rule: mitm_step.cases)
  case (rtcp_up ds)
  with rtcp_from_upstream_ok [OF assms(2), of ds] show ?thesis by auto
next
  case timer
  with assms(2) show ?thesis by (simp add: mitm_handle_timer_def Let_def) (simp add: mitm_inv_def)
qed (use assms(2) in \<open>auto intro: rtp_from_upstream_inv rtp_from_client_inv rtcp_from_client_inv downstream_inv upstream_inv\<close>)

lemma new_mitm_ok:
  assumes "bp_inv bp" and "4 \<le> get_buffer_size bp" and "RTSPToRtspClient cfg a addr config req bp pp = Inr st"
  shows "mitm_inv (on_loan bp) st \<and> to_downstream_q st = [] \<and> downstream_recv_buf st = req"
  using assms
  by (auto simp: RTSPToRtspClient_def connect_upstream_def Let_def initial_mitm_def mitm_inv_def owns_def
      split: prod.splits if_splits)

end
