(* ===== verification/Rtsp_Media.thy ===== *)
theory Rtsp_Media
  imports Rtsp_Session
begin

text \<open>
  The media path of the man in the middle (\<open>Rtsp_Client\<close>): UDP packets are relayed unchanged and in order, only those of the
  client reach the server, interleaved frames are well formed, and the queue of requests to the server is sent in
  order.
\<close>

section \<open>Datagrams\<close>

fun udp_sent :: "sock_role \<Rightarrow> effect list \<Rightarrow> (u8 list \<times> sockaddr) list" where
  "udp_sent r [] = []"
| "udp_sent r (SendUdp r' d a # es) = (if r = r' then [(d, a)] else []) @ udp_sent r es"
| "udp_sent r (_ # es) = udp_sent r es"

lemma udp_sent_append [simp]: "udp_sent r (a @ b) = udp_sent r a @ udp_sent r b"
  by (induction r a rule: udp_sent.induct) simp_all

text \<open>A datagram the pipeline lets through as it is.\<close>

definition plain_rtp :: "nat \<Rightarrow> u8 list \<Rightarrow> bool" where
  "plain_rtp bsize d \<longleftrightarrow> 12 \<le> length d \<and> length d \<le> bsize \<and> rtp_v2 (d ! 0)"

lemma fill_fits: "length d \<le> length buf \<Longrightarrow> fill buf d = d @ drop (length d) buf"
  by (simp add: fill_def)

lemma process_plain:
  assumes "plain_rtp (length buf) d" and "\<not> server_config.strip_padding cfg"
  shows "process (pipe_cfg cfg) False (fill buf d) (length d) =
    Some \<lparr>forward = True, waiting = False, out_buf = fill buf d, out_len = length d\<rparr>"
proof -
  have "rtp_v2 (fill buf d ! 0)" "0 < length d" using assms(1) by (auto simp: plain_rtp_def fill_fits nth_append)
  with assms show ?thesis
    by (auto simp: process_def process_forward_def pipe_cfg_def strip_off rd_def plain_rtp_def)
qed

lemma relay_plain:
  assumes "plain_rtp (length buf) d" and "\<not> server_config.strip_padding cfg" and "\<not> mwait st"
    and "\<not> is_downstream_tcp st" and "snd (client_rtp_addr st) \<noteq> 0"
  shows "relay_rtp cfg est (fill buf d) (length d) st =
    Inr ((put (AddDown (length d)) ((if est then put (EstDown (length d)) else id) (put (SendUdp RtpDown d (client_rtp_addr st)) st)))
      \<lparr>mblocks := release (fill buf d) (mblocks st)\<rparr>)"
proof -
  have "take (length d) (fill buf d) = d" "0 < length d" using assms(1) by (auto simp: plain_rtp_def fill_fits)
  moreover have w: "st\<lparr>mwait := False\<rparr> = st" using assms(3) by (cases st) simp
  ultimately show ?thesis
    using process_plain [OF assms(1,2)] assms(3-5) by (simp add: relay_rtp_def checked_def Let_def w)
qed

lemma rtp_up_loop_plain:
  assumes "mitm_inv k st" and "\<forall>d \<in> set ds. plain_rtp (get_buffer_size (mblocks st)) d"
    and "\<not> server_config.strip_padding cfg" and "\<not> mwait st" and "\<not> is_downstream_tcp st" and "snd (client_rtp_addr st) \<noteq> 0"
  shows "\<exists>st'. rtp_up_loop cfg ds st = Inr st' \<and> mitm_inv k st' \<and>
    udp_sent RtpDown (mout st') = udp_sent RtpDown (mout st) @ map (\<lambda>d. (d, client_rtp_addr st)) ds"
  using assms
proof (induction ds arbitrary: st)
  case Nil
  obtain buf bp where acq: "acquire (mblocks st) = (buf, bp)" by (cases "acquire (mblocks st)")
  with Nil mitm_inv_release_acquired [OF Nil.prems(1) acq] show ?case by simp
next
  case (Cons d ds)
  obtain buf bp where acq: "acquire (mblocks st) = (buf, bp)" by (cases "acquire (mblocks st)")
  note a = mitm_inv_acquire [OF Cons.prems(1) acq]
  have d: "plain_rtp (length buf) d" using Cons.prems(2) a by auto
  then have n: "min (length d) (get_buffer_size bp) = length d" "length d \<noteq> 0" using a by (auto simp: plain_rtp_def)
  let ?st1 = "put (AddUp (length d)) (put (EstUp (length d)) (st\<lparr>mblocks := bp\<rparr>))"
  let ?st2 = "(put (AddDown (length d)) (put (EstDown (length d)) (put (SendUdp RtpDown d (client_rtp_addr st)) ?st1)))
      \<lparr>mblocks := release (fill buf d) bp\<rparr>"
  have "relay_rtp cfg True (fill buf d) (length d) ?st1 = Inr ?st2"
    using relay_plain [OF d, of cfg ?st1 True] Cons.prems(3-6) by simp
  then have loop: "rtp_up_loop cfg (d # ds) st = rtp_up_loop cfg ds ?st2" using acq n by (simp add: Let_def)
  have "mitm_inv k ?st2" using mitm_inv_release_acquired [OF Cons.prems(1) acq, of "fill buf d"] by (simp add: mitm_inv_def)
  moreover have "get_buffer_size (release (fill buf d) bp) = get_buffer_size (mblocks st)"
    using a by (simp add: get_buffer_size_def release_def)
  ultimately show ?case using Cons.IH [of ?st2] Cons.prems loop by simp
qed

section \<open>Datagrams of the client\<close>

lemma rtp_from_client_sent:
  assumes "mitm_inv k st" and "\<forall>x \<in> set ds. snd x \<noteq> [] \<and> length (snd x) \<le> get_buffer_size (mblocks st)"
    and "snd (srv_rtp_addr st) \<noteq> 0"
  shows "udp_sent RtpUp (mout (handle_rtp_from_client ds st)) = udp_sent RtpUp (mout st) @
      map (\<lambda>x. (snd x, srv_rtp_addr st)) (filter (\<lambda>x. fst (fst x) = fst (client_addr st)) ds)"
  using assms
proof (induction ds arbitrary: st)
  case Nil
  then show ?case by (cases "acquire (mblocks st)") simp
next
  case (Cons x ds)
  obtain src d where x: "x = (src, d)" by (cases x)
  obtain buf bp where acq: "acquire (mblocks st) = (buf, bp)" by (cases "acquire (mblocks st)")
  note a = mitm_inv_acquire [OF Cons.prems(1) acq]
  have d: "length d \<noteq> 0" "length d \<le> length buf" "min (length d) (get_buffer_size bp) = length d"
    using Cons.prems(2) x a by auto
  have t: "take (length d) (fill buf d) = d" using d(2) by (simp add: fill_fits)
  have size: "get_buffer_size (release (fill buf d) bp) = get_buffer_size (mblocks st)"
    using a by (simp add: get_buffer_size_def release_def)
  have inv: "mitm_inv k (s\<lparr>mblocks := release (fill buf d) bp\<rparr>)" if "to_downstream_q s = to_downstream_q st" for s
    using mitm_inv_release_acquired [OF Cons.prems(1) acq, of "fill buf d"] that by (simp add: mitm_inv_def)
  have step: "udp_sent RtpUp (mout (handle_rtp_from_client ds (s\<lparr>mblocks := release (fill buf d) bp\<rparr>))) =
      udp_sent RtpUp (mout s) @ map (\<lambda>x. (snd x, srv_rtp_addr st)) (filter (\<lambda>x. fst (fst x) = fst (client_addr st)) ds)"
    if "to_downstream_q s = to_downstream_q st" "srv_rtp_addr s = srv_rtp_addr st" "client_addr s = client_addr st" for s
    using Cons.IH [OF inv, of s] that Cons.prems(2,3) size by simp
  show ?case using acq x d t Cons.prems(3) by (simp add: Let_def step)
qed

lemma rtcp_from_client_sent:
  assumes "mitm_inv k st" and "\<forall>x \<in> set ds. snd x \<noteq> [] \<and> length (snd x) \<le> get_buffer_size (mblocks st)"
    and "snd (srv_rtcp_addr st) \<noteq> 0"
  shows "udp_sent RtcpUp (mout (handle_rtcp_from_client ds st)) = udp_sent RtcpUp (mout st) @
      map (\<lambda>x. (snd x, srv_rtcp_addr st)) (filter (\<lambda>x. fst (fst x) = fst (client_addr st)) ds)"
  using assms
proof (induction ds arbitrary: st)
  case Nil
  then show ?case by (cases "acquire (mblocks st)") simp
next
  case (Cons x ds)
  obtain src d where x: "x = (src, d)" by (cases x)
  obtain buf bp where acq: "acquire (mblocks st) = (buf, bp)" by (cases "acquire (mblocks st)")
  note a = mitm_inv_acquire [OF Cons.prems(1) acq]
  have d: "length d \<noteq> 0" "length d \<le> length buf" "min (length d) (get_buffer_size bp) = length d"
    using Cons.prems(2) x a by auto
  have t: "take (length d) (fill buf d) = d" using d(2) by (simp add: fill_fits)
  have size: "get_buffer_size (release (fill buf d) bp) = get_buffer_size (mblocks st)"
    using a by (simp add: get_buffer_size_def release_def)
  have inv: "mitm_inv k (s\<lparr>mblocks := release (fill buf d) bp\<rparr>)" if "to_downstream_q s = to_downstream_q st" for s
    using mitm_inv_release_acquired [OF Cons.prems(1) acq, of "fill buf d"] that by (simp add: mitm_inv_def)
  have step: "udp_sent RtcpUp (mout (handle_rtcp_from_client ds (s\<lparr>mblocks := release (fill buf d) bp\<rparr>))) =
      udp_sent RtcpUp (mout s) @ map (\<lambda>x. (snd x, srv_rtcp_addr st)) (filter (\<lambda>x. fst (fst x) = fst (client_addr st)) ds)"
    if "to_downstream_q s = to_downstream_q st" "srv_rtcp_addr s = srv_rtcp_addr st" "client_addr s = client_addr st" for s
    using Cons.IH [OF inv, of s] that Cons.prems(2,3) size by simp
  show ?case using acq x d t Cons.prems(3) by (simp add: Let_def step)
qed

section \<open>Interleaved frames\<close>

text \<open>A packet for a client that reads its media from the TCP connection becomes one frame at the end of the queue, as
  long as the queue is not full.\<close>

definition frame_bytes :: "u8 \<Rightarrow> u8 list \<Rightarrow> u8 list" where
  "frame_bytes ch dat = [0x24, ch] @ htons (of_nat (length dat)) @ dat"

lemma send_interleaved_stream:
  assumes "mitm_inv k st" and "\<not> closed st" and "length dat + 4 \<le> get_buffer_size (mblocks st)"
    and "length (to_downstream_q st) \<le> 2048"
  shows "\<exists>st'. send_interleaved_downstream ch dat st = Inr st' \<and> mitm_inv k st' \<and>
    client_stream st' = client_stream st @ frame_bytes ch dat \<and> length (to_downstream_q st') = Suc (length (to_downstream_q st))"
proof -
  obtain st' where s: "send_interleaved_downstream ch dat st = Inr st'" "mitm_inv k st'"
    using send_interleaved_ok [OF assms(1)] by blast
  obtain buf bp where acq: "acquire (mblocks st) = (buf, bp)" by (cases "acquire (mblocks st)")
  have l: "length buf = get_buffer_size (mblocks st)" using mitm_inv_acquire [OF assms(1) acq] by simp
  have len: "(if length dat + 4 > get_buffer_size (mblocks st) then get_buffer_size (mblocks st) - 4 else length dat) = length dat"
    using assms(3) by simp
  have f: "wr buf 0 (frame_bytes ch dat) = Some (frame_bytes ch dat @ drop (length dat + 4) buf)"
    using l assms(3) by (simp add: wr_def frame_bytes_def numeral_eq_Suc)
  have "length (frame_bytes ch dat) = length dat + 4" by (simp add: frame_bytes_def)
  then have "remaining (Packet (frame_bytes ch dat @ x) (length dat + 4) 0) = frame_bytes ch dat" for x
    by (simp add: remaining_def Packet_def)
  then show ?thesis
    using s f acq len assms
    by (auto simp: send_interleaved_downstream_def Let_def checked_def push_bounded_def frame_bytes_def client_stream_def)
qed

section \<open>The queue to the server\<close>

definition request_stream :: "rtsp_client \<Rightarrow> u8 list" where
  "request_stream st = tcp_sent UpstreamSock (mout st) @ bytes_of (drop (upstream_send_offset st) (concat (to_upstream_q st)))"

text \<open>The offset lies in the first message, and is zero when there is none.\<close>

definition offset_ok :: "rtsp_client \<Rightarrow> bool" where
  "offset_ok st \<longleftrightarrow> (case to_upstream_q st of [] \<Rightarrow> upstream_send_offset st = 0 | m # _ \<Rightarrow> upstream_send_offset st \<le> length m)"

lemma bytes_of_append: "bytes_of (a @ b) = bytes_of a @ bytes_of b"
  by (simp add: bytes_of_def)

lemma bytes_of_Nil [simp]: "bytes_of [] = []"
  by (simp add: bytes_of_def)

lemma up_drain_stream:
  assumes "offset_ok st" and "up_drain rs st = (st', failed)"
  shows "offset_ok st' \<and> request_stream st' = request_stream st"
  using assms
proof (induction rs arbitrary: st)
  case (Cons r rs)
  show ?case
  proof (cases "to_upstream_q st")
    case Nil
    with Cons.prems show ?thesis by simp
  next
    case q: (Cons m q)
    show ?thesis
    proof (cases r)
      case (Sent n0)
      let ?o = "upstream_send_offset st"
      let ?n = "min n0 (length m - ?o)"
      let ?st = "(put (SendTcp UpstreamSock (take ?n (drop ?o m))) st)\<lparr>upstream_send_offset := ?o + ?n\<rparr>"
      let ?st1 = "if ?o + ?n = length m then ?st\<lparr>to_upstream_q := q, upstream_send_offset := 0, mstate := WAIT_UPSTREAM_RESP\<rparr> else ?st"
      show ?thesis
      proof (cases "?n = 0")
        case True
        with Cons.prems q Sent show ?thesis by simp
      next
        case False
        have o: "?o \<le> length m" using Cons.prems(1) q by (simp add: offset_ok_def)
        have "drop ?o m = take ?n (drop ?o m) @ drop (?o + ?n) m" by (metis add.commute append_take_drop_id drop_drop)
        then have m: "bytes_of (take ?n (drop ?o m)) @ bytes_of (drop (?o + ?n) m) = bytes_of (drop ?o m)"
          by (metis bytes_of_append)
        have "offset_ok ?st1" using o q by (auto simp: offset_ok_def split: list.split)
        moreover have "request_stream ?st1 = request_stream st"
          using m o q by (cases "?o + ?n = length m") (simp_all add: request_stream_def bytes_of_append)
        moreover have "up_drain rs ?st1 = (st', failed)"
          using Cons.prems(2) unfolding Sent up_drain.simps(2) q list.case send_result.case Let_def if_not_P [OF False] by simp
        ultimately show ?thesis using Cons.IH [of ?st1] by simp
      qed
    qed (use Cons.prems q in auto)
  qed
qed simp

lemma relay_plain_tcp:
  assumes "mitm_inv (Suc k) st" and "plain_rtp (length buf) d" and "length buf = get_buffer_size (mblocks st)"
    and "length d + 4 \<le> length buf" and "\<not> server_config.strip_padding cfg" and "\<not> mwait st"
    and "is_downstream_tcp st" and "\<not> closed st" and "length (to_downstream_q st) \<le> 2048"
  shows "\<exists>st'. relay_rtp cfg est (fill buf d) (length d) st = Inr st' \<and> mitm_inv k st' \<and>
    client_stream st' = client_stream st @ frame_bytes (ds_interleaved_rtp st) d \<and>
    length (to_downstream_q st') = Suc (length (to_downstream_q st)) \<and>
    (\<not> mwait st' \<and> is_downstream_tcp st' \<and> \<not> closed st' \<and> ds_interleaved_rtp st' = ds_interleaved_rtp st) \<and>
    get_buffer_size (mblocks st') = get_buffer_size (mblocks st)"
proof -
  have t: "take (length d) (fill buf d) = d" "0 < length d" using assms(2) by (auto simp: plain_rtp_def fill_fits)
  have w: "st\<lparr>mwait := False\<rparr> = st" using assms(6) by (cases st) simp
  obtain st1 where s: "send_interleaved_downstream (ds_interleaved_rtp st) d st = Inr st1" "mitm_inv (Suc k) st1"
    "client_stream st1 = client_stream st @ frame_bytes (ds_interleaved_rtp st) d"
    "length (to_downstream_q st1) = Suc (length (to_downstream_q st))"
    using send_interleaved_stream [OF assms(1,8) _ assms(9)] assms(3,4) by metis
  obtain st2 where b: "send_interleaved_downstream (ds_interleaved_rtp st) d st = Inr st2"
    "get_buffer_size (mblocks st2) = get_buffer_size (mblocks st)"
    using send_interleaved_ok [OF assms(1)] by blast
  have f: "mwait st1 = mwait st \<and> is_downstream_tcp st1 = is_downstream_tcp st \<and> closed st1 = closed st \<and>
      ds_interleaved_rtp st1 = ds_interleaved_rtp st"
    using s(1) by (auto simp: send_interleaved_downstream_def Let_def throwing_Inr case_prod_unfold split: if_splits)
  let ?st = "st1\<lparr>mblocks := release (fill buf d) (mblocks st1)\<rparr>"
  have "relay_rtp cfg est (fill buf d) (length d) st = Inr ?st"
    using process_plain [OF assms(2,5)] assms(6,7) s(1) t by (simp add: relay_rtp_def checked_def Let_def w)
  moreover have "mitm_inv k ?st" using s(1,2) b assms(3) by (intro mitm_inv_release) simp_all
  moreover have "client_stream ?st = client_stream st1" by (simp add: client_stream_def)
  moreover have "get_buffer_size (mblocks ?st) = get_buffer_size (mblocks st)"
    using s(1) b by (simp add: get_buffer_size_def release_def)
  ultimately show ?thesis using s f assms(6-8) by auto
qed

lemma rtp_up_loop_tcp:
  assumes "mitm_inv k st" and "\<forall>d \<in> set ds. plain_rtp (get_buffer_size (mblocks st)) d \<and> length d + 4 \<le> get_buffer_size (mblocks st)"
    and "\<not> server_config.strip_padding cfg" and "\<not> mwait st" and "is_downstream_tcp st" and "\<not> closed st"
    and "length (to_downstream_q st) + length ds \<le> 2049"
  shows "\<exists>st'. rtp_up_loop cfg ds st = Inr st' \<and> mitm_inv k st' \<and>
    client_stream st' = client_stream st @ concat (map (frame_bytes (ds_interleaved_rtp st)) ds)"
  using assms
proof (induction ds arbitrary: st)
  case Nil
  obtain buf bp where acq: "acquire (mblocks st) = (buf, bp)" by (cases "acquire (mblocks st)")
  with Nil mitm_inv_release_acquired [OF Nil.prems(1) acq] show ?case by (simp add: client_stream_def)
next
  case (Cons d ds)
  obtain buf bp where acq: "acquire (mblocks st) = (buf, bp)" by (cases "acquire (mblocks st)")
  note a = mitm_inv_acquire [OF Cons.prems(1) acq]
  have d: "plain_rtp (length buf) d" "length d + 4 \<le> length buf" using Cons.prems(2) a by auto
  then have n: "min (length d) (get_buffer_size bp) = length d" "length d \<noteq> 0" using a by (auto simp: plain_rtp_def)
  let ?st1 = "put (AddUp (length d)) (put (EstUp (length d)) (st\<lparr>mblocks := bp\<rparr>))"
  have c1: "client_stream ?st1 = client_stream st" by (simp add: client_stream_def)
  obtain st2 where s: "relay_rtp cfg True (fill buf d) (length d) ?st1 = Inr st2" "mitm_inv k st2"
    "client_stream st2 = client_stream st @ frame_bytes (ds_interleaved_rtp st) d"
    "length (to_downstream_q st2) = Suc (length (to_downstream_q st))"
    "\<not> mwait st2" "is_downstream_tcp st2" "\<not> closed st2" "ds_interleaved_rtp st2 = ds_interleaved_rtp st"
    "get_buffer_size (mblocks st2) = get_buffer_size (mblocks st)"
    using relay_plain_tcp [of k ?st1 buf d cfg True] a d Cons.prems(3-7) c1 by auto
  from s(1) have loop: "rtp_up_loop cfg (d # ds) st = rtp_up_loop cfg ds st2" using acq n by (simp add: Let_def)
  show ?case using Cons.IH [of st2] Cons.prems s loop by auto
qed

section \<open>Properties\<close>

text \<open>A session for the examples: a client at 10.0.0.2 port 5000, a server at 10.0.0.9 port 6000.\<close>

definition example_config :: RtspMitmConfig where
  "example_config = \<lparr>cfg_ctx = new_ctx (554, 0, 0), cfg_proxy_uri_prefix = ''rtsp://p:8554/rtp/h:554'',
     cfg_upstream_uri_base = ''rtsp://h:554''\<rparr>"

definition example_mitm :: rtsp_client where
  "example_mitm = (initial_mitm default_config (0x0A000002, 40000) example_config (BufferPool 2048 2) PortPool)
     \<lparr>mstate := IDLE, client_rtp_addr := (0x0A000002, 5000), srv_rtp_addr := (0x0A000009, 6000),
      srv_rtcp_addr := (0x0A000009, 6001)\<rparr>"

lemma example_mitm_sel:
  "client_addr example_mitm = (0x0A000002, 40000)" "client_rtp_addr example_mitm = (0x0A000002, 5000)"
  "srv_rtp_addr example_mitm = (0x0A000009, 6000)" "srv_rtcp_addr example_mitm = (0x0A000009, 6001)"
  "\<not> is_downstream_tcp example_mitm" "\<not> mwait example_mitm" "\<not> closed example_mitm" "mout example_mitm = []"
  "to_downstream_q example_mitm = []" "mblocks example_mitm = BufferPool 2048 2" "mstate example_mitm = IDLE"
  "to_upstream_q example_mitm = []" "upstream_send_offset example_mitm = 0" "ds_interleaved_rtp example_mitm = 0"
  "get_buffer_size (BufferPool 2048 2) = 2048" "\<not> server_config.strip_padding default_config" "\<not> nat_stun default_config"
  "upstream_recv_buf example_mitm = []" "downstream_recv_buf example_mitm = []" "mctx example_mitm = new_ctx (554, 0, 0)"
  by (simp_all add: example_mitm_def initial_mitm_def default_config_def pipe_cfg_def pipeline_reset_def
      example_config_def nat_stun_def get_buffer_size_def BufferPool_def)

lemma example_mitm_inv: "mitm_inv 0 example_mitm"
proof -
  have "on_loan (BufferPool 2048 2) = 0"
    by (simp add: on_loan_def get_total_allocated_def get_available_count_def BufferPool_def)
  then show ?thesis by (simp add: mitm_inv_def owns_def example_mitm_sel)
qed



text \<open>
  C27: Only the client reaches the server. Of the datagrams received on the ports for the client, over RTP and over RTCP, exactly
  those from the address of the client's connection are sent on to the server, unchanged and in order; what others send
  is dropped.
\<close>

theorem client_datagrams_filtered:
  assumes "mitm_inv k st" and "\<forall>x \<in> set ds. snd x \<noteq> [] \<and> length (snd x) \<le> get_buffer_size (mblocks st)"
    and "snd (srv_rtp_addr st) \<noteq> 0" and "snd (srv_rtcp_addr st) \<noteq> 0"
  shows "udp_sent RtpUp (mout (handle_rtp_from_client ds st)) = udp_sent RtpUp (mout st) @
      map (\<lambda>x. (snd x, srv_rtp_addr st)) (filter (\<lambda>x. fst (fst x) = fst (client_addr st)) ds) \<and>
    udp_sent RtcpUp (mout (handle_rtcp_from_client ds st)) = udp_sent RtcpUp (mout st) @
      map (\<lambda>x. (snd x, srv_rtcp_addr st)) (filter (\<lambda>x. fst (fst x) = fst (client_addr st)) ds)"
  using rtp_from_client_sent [OF assms(1,2,3)] rtcp_from_client_sent [OF assms(1,2,4)] by blast

theorem client_datagrams_filtered_witness:
  "udp_sent RtpUp (mout (handle_rtp_from_client [((0x0A000002, 7), [1]), ((0x0A0000FF, 7), [2]), ((0x0A000002, 8), [3])] example_mitm)) =
     [([1], (0x0A000009, 6000)), ([3], (0x0A000009, 6000))]"
proof -
  let ?ds = "[((0x0A000002, 7), [1]), ((0x0A0000FF, 7), [2]), ((0x0A000002, 8), [3])] :: (sockaddr \<times> u8 list) list"
  have "\<forall>x \<in> set ?ds. snd x \<noteq> [] \<and> length (snd x) \<le> get_buffer_size (mblocks example_mitm)" by (simp add: example_mitm_sel)
  from client_datagrams_filtered [OF example_mitm_inv this] show ?thesis by (simp add: example_mitm_sel)
qed





end
