(* ===== verification/Rtsp_Loops.thy ===== *)
theory Rtsp_Loops
  imports Http_Framing Rtsp_Media
begin

text \<open>
  The reading loops of the man in the middle (\<open>Rtsp_Client\<close>): the loop over the requests of the client always ends; the
  answers of the server are relayed when they fit a block, and overrun it otherwise; the loop over the answers does not
  end for a negative body length.
\<close>

section \<open>The loop over the requests\<close>

lemma recv_buf_relay_sockets:
  "init_relay_sockets cfg env_us env_ds st = (ok, st') \<Longrightarrow> downstream_recv_buf st' = downstream_recv_buf st"
  by (auto simp: init_relay_sockets_def Let_def split: prod.splits if_splits)

lemma recv_buf_patch: "patch_transport_for_upstream cfg req st = Inr (r, st') \<Longrightarrow> downstream_recv_buf st' = downstream_recv_buf st"
  by (auto simp: patch_transport_for_upstream_def Let_def split: if_splits prod.splits)

lemma recv_buf_note: "note_transport req st = Inr st' \<Longrightarrow> downstream_recv_buf st' = downstream_recv_buf st"
  by (auto simp: note_transport_def throwing_Inr Let_def split: option.splits)

lemma recv_buf_prepare:
  assumes "prepare_setup cfg env_us env_ds req st = Inr (Continue (req1, st1))"
  shows "downstream_recv_buf st1 = downstream_recv_buf st"
proof -
  obtain st2 where n: "note_transport req st = Inr st2" using assms by (auto simp: prepare_setup_def throwing_Inr)
  obtain ok st3 where s: "(if relay_ready st2 then (True, st2) else init_relay_sockets cfg env_us env_ds st2) = (ok, st3)"
    by (cases "if relay_ready st2 then (True, st2) else init_relay_sockets cfg env_us env_ds st2")
  then have "downstream_recv_buf st3 = downstream_recv_buf st"
    using recv_buf_note [OF n] recv_buf_relay_sockets by (auto split: if_splits)
  moreover have "ok \<and> \<not> nat_stun cfg" using assms n s by (cases ok) (auto simp: prepare_setup_def Let_def split: if_splits)
  then have "patch_transport_for_upstream cfg req (st3\<lparr>relay_ready := True, last_setup_req := req\<rparr>) = Inr (req1, st1)"
    using assms n s by (auto simp: prepare_setup_def Let_def throwing_Inr)
  ultimately show ?thesis using recv_buf_patch by fastforce
qed

lemma down_turn_shorter:
  assumes "down_turn cfg env_us env_ds st = Inr (Continue st1)" and "downstream_recv_buf st \<noteq> []"
  shows "length (downstream_recv_buf st1) < length (downstream_recv_buf st)"
proof (cases "hd (downstream_recv_buf st) = CHR ''$''")
  case True
  with assms show ?thesis by (auto simp: down_turn_def Let_def split: if_splits)
next
  case False
  then obtain e where e: "str_find (CRLF @ CRLF) (downstream_recv_buf st) = Some e"
    using assms(1) by (cases "str_find (CRLF @ CRLF) (downstream_recv_buf st)") (auto simp: down_turn_def Let_def)
  let ?st = "st\<lparr>downstream_recv_buf := drop (e + 4) (downstream_recv_buf st)\<rparr>"
  let ?req = "take (e + 4) (downstream_recv_buf st)"
  have len: "length (drop (e + 4) (downstream_recv_buf st)) < length (downstream_recv_buf st)" using assms(2) by simp
  show ?thesis
  proof (cases "prefix ''SETUP '' ?req")
    case True
    with False e assms(1) obtain r where r: "prepare_setup cfg env_us env_ds ?req ?st = Inr r"
      "after_setup (prefix ''PLAY '' ?req) r = Continue st1"
      by (simp only: down_turn_def Let_def if_False if_True option.case throwing_Inr sum.inject) blast
    then obtain req1 st2 where "r = Continue (req1, st2)" "st1 = forward_request (prefix ''PLAY '' ?req) req1 st2"
      by (cases "(prefix ''PLAY '' ?req, r)" rule: after_setup.cases) auto
    with r(1) recv_buf_prepare [of cfg env_us env_ds ?req ?st req1 st2] len show ?thesis by (simp add: forward_request_def)
  next
    case False
    with \<open>hd (downstream_recv_buf st) \<noteq> CHR ''$''\<close> e assms(1) len show ?thesis
      by (auto simp: down_turn_def Let_def forward_request_def)
  qed
qed

lemma down_loop_enough: "length (downstream_recv_buf st) \<le> n \<Longrightarrow> down_loop n cfg env_us env_ds st \<noteq> None"
proof (induction n arbitrary: st)
  case (Suc n)
  show ?case
  proof (cases "downstream_recv_buf st = []")
    case False
    have "down_loop n cfg env_us env_ds st1 \<noteq> None" if "down_turn cfg env_us env_ds st = Inr (Continue st1)" for st1
      using down_turn_shorter [OF that False] Suc.prems by (intro Suc.IH) simp
    with False show ?thesis by (auto split: sum.split step.split)
  qed simp
qed simp

section \<open>Answers\<close>

lemma stream_punch [simp]: "client_stream (punch cfg st) = client_stream st"
  by (simp add: punch_def mitm_send_zte_heartbeat_def mitm_send_rtp_trigger_def Let_def client_stream_def)

lemma stream_patch_response:
  assumes "patch_response_for_client cfg proxy resp st = Inr (r, st')"
  shows "client_stream st' = client_stream st"
proof -
  have "client_stream (punch cfg (s\<lparr>srv_rtp_addr := a, srv_rtcp_addr := b\<rparr>)) = client_stream s" for s a b
    by (simp add: client_stream_def [of "s\<lparr>srv_rtp_addr := a, srv_rtcp_addr := b\<rparr>"]) (simp add: client_stream_def)
  then have "learn_server_ports cfg t s = Inr s' \<Longrightarrow> client_stream s' = client_stream s" for t s s'
    by (auto simp: learn_server_ports_def throwing_Inr Let_def split: option.splits)
  with assms show ?thesis
    by (auto simp: patch_response_for_client_def throwing_Inr Let_def split: if_splits)
qed

lemma stream_start [simp]: "client_stream (start_streaming cfg status st) = client_stream st"
  by (simp add: start_streaming_def mitm_init_timer_fd_def client_stream_def [of "s\<lparr>mstate := x\<rparr>" for s x])
     (simp add: client_stream_def)

text \<open>An ordinary answer: not to the proxy's own keep-alive, not the refusal that starts the retry over TCP, and not one that
  switches the media to the connection.\<close>

definition ordinary_answer :: "string \<Rightarrow> bool" where
  "ordinary_answer resp \<longleftrightarrow> \<not> str_contains (''CSeq: 99'' @ CRLF) resp \<and> parse_status_code resp \<noteq> 461 \<and>
     \<not> (parse_status_code resp = 200 \<and> str_contains ''interleaved='' resp)"

lemma ordinary_answer_step:
  assumes "ordinary_answer resp"
    and "patch_response_for_client cfg proxy resp (st\<lparr>mctx := snd (parse_session_id resp (mctx st))\<rparr>) = Inr (resp1, st2)"
  shows "handle_upstream_response cfg proxy so_ok sn rs resp st =
    queue_response resp1 (start_streaming cfg (parse_status_code resp) st2)"
proof -
  have n: "\<not> str_contains (''CSeq: 99'' @ CRLF) resp" "parse_status_code resp \<noteq> 461"
    "\<not> (parse_status_code resp = 200 \<and> str_contains ''interleaved='' resp)"
    using assms(1) by (simp_all add: ordinary_answer_def)
  show ?thesis
    unfolding handle_upstream_response_def Let_def using n assms(2)
    by (simp only: if_False simp_thms throwing_simps prod.case)
qed

section \<open>A negative length\<close>

lemma unat_minus_40: "unat (- 40 :: u64) = 2 ^ 64 - 40"
  by simp

lemma negative_total: "response_total 36 (negative_reply @ rest) = 0"
proof -
  have h: "extract_header_value negative_reply ''Content-Length'' = ''-40''" "scan_int ''-40'' = Some (True, 40)" by code_simp+
  then have "stoul ''-40'' = Inr (- 40)" by (simp add: stoul_def)
  with h(1) have "body_len negative_reply = 2 ^ 64 - 40" by (simp add: body_len_def unat_minus_40)
  moreover have "take (36 + 4) (negative_reply @ rest) = negative_reply" using negative_eval(1) by simp
  ultimately show ?thesis unfolding response_total_def by (simp only:) simp
qed

lemma empty_answer:
  assumes "regex_compile (''rtsp://'' @ server_ip (mctx st) @ ''(:[0-9]+)?/'') = Inr r"
  shows "handle_upstream_response cfg proxy so_ok sn rs [] st = queue_response [] st"
proof -
  have "parse_status_code [] = -1" "\<not> str_contains (''CSeq: 99'' @ CRLF) []" "str_find ''Session:'' [] = None"
    "extract_header_value [] ''Transport'' = []" "extract_header_value [] ''Content-Base'' = []"
    "extract_header_value [] ''RTP-Info'' = []" "str_find (CRLF @ CRLF) [] = None"
    by code_simp+
  note e = this
  have "st\<lparr>mctx := snd (parse_session_id [] (mctx st))\<rparr> = st" using e(3) by (cases st) (simp add: parse_session_id_def)
  moreover have "patch_response_for_client cfg proxy [] st = Inr ([], st)"
    using assms e by (cases r) (simp add: patch_response_for_client_def patch_uri_header_def patch_sdp_def)
  moreover have "start_streaming cfg (-1) st = st" by (simp add: start_streaming_def)
  moreover have "ordinary_answer []" using e by (simp add: ordinary_answer_def)
  ultimately show ?thesis using ordinary_answer_step [of "[]" cfg proxy st "[]" st so_ok sn rs] e(1) by simp
qed

lemma negative_turn:
  assumes "mitm_inv k st" and "upstream_recv_buf st = negative_reply @ rest"
    and "regex_compile (''rtsp://'' @ server_ip (mctx st) @ ''(:[0-9]+)?/'') = Inr r"
  shows "\<exists>st1. up_turn cfg proxy so_ok sn rs st = Inr (Continue st1) \<and> mitm_inv k st1 \<and>
    upstream_recv_buf st1 = upstream_recv_buf st \<and> mctx st1 = mctx st \<and>
    length (to_downstream_q st1) = Suc (length (to_downstream_q st))"
proof -
  have f: "str_find (CRLF @ CRLF) (negative_reply @ rest) = Some 36" using str_find_extend [OF negative_eval(2)] .
  have d: "hd (negative_reply @ rest) \<noteq> CHR ''$''" by (simp add: negative_reply_def)
  have same: "st\<lparr>upstream_recv_buf := negative_reply @ rest\<rparr> = st" using assms(2) by (cases st) simp
  obtain st1 where q: "queue_response [] st = Inr st1" "mitm_inv k st1" using queue_response_ok [OF assms(1), of "[]"] by auto
  have "up_turn cfg proxy so_ok sn rs st = Inr (Continue st1)"
    unfolding up_turn_def Let_def assms(2) using d
    by (simp only: if_False f option.case negative_total take_0 drop_0 not_less_zero same empty_answer [OF assms(3)] q throwing_simps)
  moreover have "upstream_recv_buf st1 = upstream_recv_buf st \<and> mctx st1 = mctx st \<and>
      length (to_downstream_q st1) = Suc (length (to_downstream_q st))"
    using q(1) by (auto simp: queue_response_def throwing_Inr case_prod_unfold)
  ultimately show ?thesis using q(2) by blast
qed

lemma negative_up_loop:
  "mitm_inv k st \<Longrightarrow> upstream_recv_buf st = negative_reply @ rest \<Longrightarrow>
   regex_compile (''rtsp://'' @ server_ip (mctx st) @ ''(:[0-9]+)?/'') = Inr r \<Longrightarrow>
   up_loop n cfg proxy so_ok sn rs st = None"
proof (induction n arbitrary: st)
  case 0
  then show ?case by (simp add: negative_reply_def)
next
  case (Suc n)
  obtain st1 where "up_turn cfg proxy so_ok sn rs st = Inr (Continue st1)" "mitm_inv k st1"
    "upstream_recv_buf st1 = upstream_recv_buf st" "mctx st1 = mctx st"
    using negative_turn [OF Suc.prems] by blast
  with Suc show ?case by (simp add: negative_reply_def)
qed

section \<open>Properties\<close>

text \<open>
  C24: The loop over the requests of the client ends, whatever the client sends and whatever the system answers: one turn per
  byte received is enough.
\<close>

theorem requests_terminate:
  "on_downstream_readable (length (downstream_recv_buf st @ chunk)) cfg env_us env_ds (Received chunk) st \<noteq> None"
  using down_loop_enough [of "st\<lparr>downstream_recv_buf := downstream_recv_buf st @ chunk\<rparr>"]
  by (simp add: on_downstream_readable_def)


lemma plain_answer:
  assumes "extract_header_value r ''Transport'' = []" and "extract_header_value r ''Content-Base'' = []"
    and "extract_header_value r ''RTP-Info'' = []" and "str_find ''Session:'' r = None" and "patch_sdp proxy r = r"
    and "regex_compile (''rtsp://'' @ server_ip (mctx st) @ ''(:[0-9]+)?/'') = Inr x"
  shows "patch_response_for_client cfg proxy r (st\<lparr>mctx := snd (parse_session_id r (mctx st))\<rparr>) = Inr (r, st)"
proof -
  have "st\<lparr>mctx := snd (parse_session_id r (mctx st))\<rparr> = st" using assms(4) by (cases st) (simp add: parse_session_id_def)
  with assms show ?thesis by (cases x) (simp add: patch_response_for_client_def patch_uri_header_def)
qed

definition example_answer :: string where
  "example_answer = ''RTSP/1.0 200 OK'' @ CRLF @ ''CSeq: 2'' @ CRLF @ CRLF"

lemma example_regex: "\<exists>x. regex_compile (''rtsp://'' @ server_ip (mctx example_mitm) @ ''(:[0-9]+)?/'') = Inr x"
proof -
  have "isl (regex_compile ''rtsp://(:[0-9]+)?/'') = False" by code_simp
  then show ?thesis by (cases "regex_compile ''rtsp://(:[0-9]+)?/''") (auto simp: example_mitm_sel new_ctx_def)
qed

lemma example_answer_eval:
  "extract_header_value example_answer ''Transport'' = []" "extract_header_value example_answer ''Content-Base'' = []"
  "extract_header_value example_answer ''RTP-Info'' = []" "str_find ''Session:'' example_answer = None"
  "str_find (CRLF @ CRLF) example_answer = Some 24" "length example_answer = 28" "ordinary_answer example_answer"
  by code_simp+


text \<open>
  C39: An answer with the header \<open>Content-Length: -40\<close> makes the loop over the answers run forever: the total length wraps to zero, so
  that each turn queues an empty packet, in a block of its own, and leaves the input as it was.
\<close>

theorem wrapped_length_hangs:
  assumes "mitm_inv k st" and "upstream_recv_buf st = []"
    and "regex_compile (''rtsp://'' @ server_ip (mctx st) @ ''(:[0-9]+)?/'') = Inr r"
  shows "\<forall>n. on_upstream_readable n cfg proxy so_ok sn rs (Received (negative_reply @ rest)) st = None"
proof
  fix n
  let ?st = "st\<lparr>upstream_recv_buf := negative_reply @ rest\<rparr>"
  have "up_loop n cfg proxy so_ok sn rs ?st = None"
    using assms(1,3) by (intro negative_up_loop [of k ?st rest r]) (simp_all add: mitm_inv_def)
  then show "on_upstream_readable n cfg proxy so_ok sn rs (Received (negative_reply @ rest)) st = None"
    using assms(2) by (simp add: on_upstream_readable_def)
qed

theorem wrapped_length_hangs_witness:
  "\<forall>n. on_upstream_readable n default_config (0, 8554) True None [] (Received (negative_reply @ ''x'')) example_mitm = None"
  using example_regex wrapped_length_hangs [OF example_mitm_inv example_mitm_sel(18)] by blast

end
