(* ===== verification/Rtsp_Rewrite.thy ===== *)
theory Rtsp_Rewrite
  imports Rtsp_Media
begin

text \<open>
  The URIs of a proxied RTSP session: \<open>resolve_upstream\<close> finds the server and the prefix under which the proxy is addressed in the first request,
  and \<open>rewrite_request_for_upstream\<close> exchanges that prefix for the address of the server in every request.
\<close>

section \<open>Request lines\<close>

lemma word_blank_free: "word_ok w \<Longrightarrow> CHR '' '' \<notin> set w \<and> CR \<notin> set w"
  by (auto simp: word_ok_def list_all_iff c_isspace_def)

text \<open>The first line of a request and its three words, as \<open>rewrite_request_for_upstream\<close> finds them.\<close>

lemma request_line_split:
  assumes "word_ok verb" and "word_ok uri" and "word_ok ver"
  shows "str_find CRLF (request_line verb uri ver rest) = Some (length (verb @ '' '' @ uri @ '' '' @ ver))"
    and "str_find '' '' (verb @ '' '' @ uri @ '' '' @ ver) = Some (length verb)"
    and "str_find_from '' '' (verb @ '' '' @ uri @ '' '' @ ver) (length verb + 1) = Some (length verb + 1 + length uri)"
proof -
  let ?l = "verb @ '' '' @ uri @ '' '' @ ver"
  have "CR \<notin> set ?l" using word_blank_free [OF assms(1)] word_blank_free [OF assms(2)] word_blank_free [OF assms(3)] by simp
  then have "str_find CRLF (?l @ CRLF @ rest) = map_option ((+) (length ?l)) (str_find CRLF (CRLF @ rest))"
    by (intro str_find_hd_skip) simp_all
  then show "str_find CRLF (request_line verb uri ver rest) = Some (length ?l)"
    by (simp add: request_line_def)
  show "str_find '' '' ?l = Some (length verb)"
    using word_blank_free [OF assms(1)] by (simp add: str_find_char_skip)
  have "drop (length verb + 1) ?l = uri @ '' '' @ ver" by simp
  then show "str_find_from '' '' ?l (length verb + 1) = Some (length verb + 1 + length uri)"
    using word_blank_free [OF assms(2)] by (simp add: str_find_from_def str_find_char_skip)
qed

lemma rewrite_request_line:
  assumes "word_ok verb" and "word_ok (proxy_uri_prefix st @ p)" and "word_ok ver" and "proxy_uri_prefix st \<noteq> []"
  shows "rewrite_request_for_upstream st (request_line verb (proxy_uri_prefix st @ p) ver rest) =
    request_line verb (upstream_uri_base st @ p) ver rest"
proof -
  let ?uri = "proxy_uri_prefix st @ p"
  let ?l = "verb @ '' '' @ ?uri @ '' '' @ ver"
  note sp = request_line_split [OF assms(1-3)]
  have "request_line verb ?uri ver rest = ?l @ CRLF @ rest" by (simp add: request_line_def)
  then have l: "take (length ?l) (request_line verb ?uri ver rest) = ?l"
    "drop (length ?l) (request_line verb ?uri ver rest) = CRLF @ rest" by (metis append_eq_conv_conj)+
  have parts: "take (length verb) ?l = verb" "take (length ?uri) (drop (length verb + 1) ?l) = ?uri"
    "drop (length verb + 1 + length ?uri + 1) ?l = ver" by simp_all
  have "length verb + 1 + length ?uri - length verb - 1 = length ?uri" by simp
  then show ?thesis
    unfolding rewrite_request_for_upstream_def sp(1) option.case Let_def l sp(2) sp(3)
    using assms(4) parts by (simp add: request_line_def)
qed

lemma without_tokens_none: "CHR ''?'' \<notin> set s \<Longrightarrow> without_tokens s = s"
  using without_tokens_append [of s "[]"] by (simp add: without_tokens_def)

section \<open>Properties\<close>



end
