(* ===== verification/Rtsp_Transport.thy ===== *)
theory Rtsp_Transport
  imports Rtsp_Media
begin

text \<open>
  What the man in the middle does to the \<open>Transport\<close> headers: the ports the client asks for become those of the proxy on the way to the server,
  and the ports of the server become those of the proxy on the way back. The two rules are regular expressions for a key with a pair of
  numbers; the first section says what such an expression matches.
\<close>

section \<open>Runs of digits\<close>

text \<open>A matcher of a run of digits takes the whole run first; everything it tries afterwards leaves a digit unread. What it records of
  the run is the parameter.\<close>

definition heads_digit :: "mst \<Rightarrow> bool" where
  "heads_digit st \<longleftrightarrow> (\<exists>c cs. rest_of st = c # cs \<and> c_isdigit c)"

lemma heads_digit_Cons [simp]: "heads_digit (b, c # cs, caps) = c_isdigit c"
  by (simp add: heads_digit_def rest_of_def)

definition digit_free :: "string \<Rightarrow> bool" where
  "digit_free s \<longleftrightarrow> s = [] \<or> \<not> c_isdigit (hd s)"

definition number :: "string \<Rightarrow> bool" where
  "number d \<longleftrightarrow> d \<noteq> [] \<and> list_all c_isdigit d"

definition run_matcher :: "(string \<Rightarrow> (nat \<times> string) list) \<Rightarrow> regex \<Rightarrow> bool" where
  "run_matcher f r \<longleftrightarrow> (\<forall>b d s caps. number d \<longrightarrow> digit_free s \<longrightarrow>
     (\<exists>tries. rmatch r (b, d @ s, caps) = (False, s, f d @ caps) # tries \<and> list_all heads_digit tries))"

lemma run_matcherD:
  "run_matcher f r \<Longrightarrow> number d \<Longrightarrow> digit_free s \<Longrightarrow>
     \<exists>tries. rmatch r (b, d @ s, caps) = (False, s, f d @ caps) # tries \<and> list_all heads_digit tries"
  by (simp add: run_matcher_def)

lemma dash_free [simp]: "digit_free (''-'' @ s)"
  by (simp add: digit_free_def c_isdigit_def)

lemma star_digits:
  assumes "list_all c_isdigit d" and "digit_free s" and "length d \<le> n"
  shows "\<exists>tries. star_iter True (one_char c_isdigit) n (b, d @ s, caps) = (b \<and> d = [], s, caps) # tries \<and> list_all heads_digit tries"
  using assms
proof (induction d arbitrary: b n)
  case Nil
  then show ?case by (cases n; cases s) (auto simp: one_char_def digit_free_def)
next
  case (Cons c d)
  then obtain m where n: "n = Suc m" by (cases n) auto
  from Cons obtain tries where
    t: "star_iter True (one_char c_isdigit) m (False, d @ s, caps) = (False, s, caps) # tries" "list_all heads_digit tries"
    using Cons.IH [of m False] by (auto simp: n)
  have "one_char c_isdigit (b, (c # d) @ s, caps) = [(False, d @ s, caps)]" using Cons.prems by (simp add: one_char_def)
  then have "star_iter True (one_char c_isdigit) n (b, (c # d) @ s, caps) =
      (False, s, caps) # tries @ [(b, (c # d) @ s, caps)]"
    using t(1) by (simp add: n rest_of_def)
  then show ?case using t(2) Cons.prems by auto
qed

definition digits_re :: regex where
  "digits_re = RSeq (RSet True [CDigit True]) (RStar True (RSet True [CDigit True]))"

lemma digit_set: "rmatch (RSet True [CDigit True]) = one_char c_isdigit"
proof -
  have "set_matches True [CDigit True] = c_isdigit" by (rule ext) (simp add: set_matches_def)
  then show ?thesis by (intro ext) simp
qed

lemma digits_run: "run_matcher (\<lambda>d. []) digits_re"
  unfolding run_matcher_def
proof (intro allI impI)
  fix b :: bool and d s :: string and caps :: "(nat \<times> string) list"
  assume "number d" "digit_free s"
  then obtain c d' where d: "d = c # d'" "c_isdigit c" "list_all c_isdigit d'" by (cases d) (auto simp: number_def)
  obtain tries where "star_iter True (one_char c_isdigit) (length (d' @ s)) (False, d' @ s, caps) = (False, s, caps) # tries"
    "list_all heads_digit tries"
    using star_digits [OF d(3) \<open>digit_free s\<close>, of "length (d' @ s)" False caps] by auto
  then show "\<exists>tries. rmatch digits_re (b, d @ s, caps) = (False, s, [] @ caps) # tries \<and> list_all heads_digit tries"
    using d(1,2) digit_set by (auto simp: digits_re_def one_char_def rest_of_def)
qed

lemma group_run:
  assumes "run_matcher (\<lambda>d. []) r"
  shows "run_matcher (\<lambda>d. [(n, d)]) (RGrp n r)"
  unfolding run_matcher_def
proof (intro allI impI)
  fix b :: bool and d s :: string and caps :: "(nat \<times> string) list"
  assume "number d" "digit_free s"
  with assms obtain tries where t: "rmatch r (b, d @ s, caps) = (False, s, caps) # tries" "list_all heads_digit tries"
    unfolding run_matcher_def by force
  have "list_all heads_digit (map (\<lambda>(b, x, caps). (b, x, (n, g x) # caps)) tries)" for g
    using t(2) by (induction tries) (auto simp: heads_digit_def rest_of_def)
  then show "\<exists>tries. rmatch (RGrp n r) (b, d @ s, caps) = (False, s, [(n, d)] @ caps) # tries \<and> list_all heads_digit tries"
    using t(1) by (simp add: rest_of_def)
qed

section \<open>A key with a pair of numbers\<close>

definition pair_re :: "string \<Rightarrow> regex \<Rightarrow> regex \<Rightarrow> regex" where
  "pair_re key r1 r2 = RSeq (RSeq (RSeq (literal key) r1) (RChr (CHR ''-''))) r2"

definition pair_text :: "string \<Rightarrow> string \<Rightarrow> string \<Rightarrow> string" where
  "pair_text key d1 d2 = key @ d1 @ ''-'' @ d2"

text \<open>The dash ends the first run, so that only the whole run goes on.\<close>

lemma no_dash: "list_all heads_digit tries \<Longrightarrow> concat (map (one_char (\<lambda>x. x = CHR ''-'')) tries) = []"
  by (induction tries) (auto simp: heads_digit_def rest_of_def one_char_def c_isdigit_def)

lemma match_pair:
  assumes "run_matcher f r1" and "run_matcher g r2" and "number d1" and "number d2" and "digit_free s"
  shows "match_at (pair_re key r1 r2) start (pair_text key d1 d2 @ s) = Some (pair_text key d1 d2, g d2 @ f d1)"
proof -
  obtain tries where t: "rmatch r1 (start \<and> key = [], d1 @ ''-'' @ d2 @ s, []) = (False, ''-'' @ d2 @ s, f d1) # tries"
    "list_all heads_digit tries"
    using run_matcherD [OF assms(1,3) dash_free [of "d2 @ s"], where b = "start \<and> key = []" and caps = "[]"] by auto
  obtain tries' where t': "rmatch r2 (False, d2 @ s, f d1) = (False, s, g d2 @ f d1) # tries'"
    using run_matcherD [OF assms(2,4,5)] by blast
  have "rmatch (literal key) (start, pair_text key d1 d2 @ s, []) = [(start \<and> key = [], d1 @ ''-'' @ d2 @ s, [])]"
    by (simp add: rmatch_literal eat_def pair_text_def)
  then have "rmatch (pair_re key r1 r2) (start, pair_text key d1 d2 @ s, []) = (False, s, g d2 @ f d1) # tries'"
    using t t' no_dash [OF t(2)] by (simp add: pair_re_def one_char_def)
  then show ?thesis by (simp add: match_at_def)
qed

lemma match_pair_None: "\<not> prefix key s \<Longrightarrow> match_at (pair_re key r1 r2) start s = None"
  by (simp add: match_at_def pair_re_def rmatch_literal eat_def)

lemma search_pair:
  assumes "run_matcher f r1" and "run_matcher g r2" and "number d1" and "number d2" and "digit_free s"
    and "str_find key (a @ key) = Some (length a)"
  shows "search_from (pair_re key r1 r2) start (a @ pair_text key d1 d2 @ s) =
    Some \<lparr>match_pos = length a, match_str = pair_text key d1 d2, match_caps = g d2 @ f d1\<rparr>"
  using assms(6)
proof (induction a arbitrary: start)
  case Nil
  have "pair_text key d1 d2 @ s \<noteq> []" by (simp add: pair_text_def)
  then obtain c cs where s: "pair_text key d1 d2 @ s = c # cs" by (cases "pair_text key d1 d2 @ s") auto
  have "match_at (pair_re key r1 r2) start (c # cs) = Some (pair_text key d1 d2, g d2 @ f d1)"
    using match_pair [OF assms(1-5), of key start] unfolding s .
  then show ?case by (simp add: s)
next
  case (Cons c a)
  have "\<not> prefix key ((c # a) @ key)" using Cons.prems by (auto split: if_splits)
  moreover have p: "prefix ((c # a) @ key) ((c # a) @ pair_text key d1 d2 @ s)" by (simp add: pair_text_def)
  ultimately have "\<not> prefix key ((c # a) @ pair_text key d1 d2 @ s)"
    using prefix_length_prefix [OF _ p, of key] by (metis le_add2 length_append)
  moreover have "str_find key (a @ key) = Some (length a)" using Cons.prems by (auto split: if_splits option.splits)
  ultimately show ?case using Cons.IH [of False] by (simp add: match_pair_None)
qed

lemma search_pair_None: "str_find key s = None \<Longrightarrow> search_from (pair_re key r1 r2) start s = None"
proof (induction s arbitrary: start)
  case Nil
  then show ?case by (simp add: match_pair_None split: if_splits)
next
  case (Cons c s)
  then show ?case by (simp add: match_pair_None split: if_splits)
qed

text \<open>So the replacement exchanges the pair, and nothing else, when the key occurs once.\<close>

lemma replace_pair:
  assumes "run_matcher f r1" and "run_matcher g r2" and "number d1" and "number d2" and "digit_free s"
    and "str_find key (a @ key) = Some (length a)" and "str_find key s = None" and "CHR ''$'' \<notin> set fmt"
  shows "regex_replace (pair_re key r1 r2) fmt (a @ pair_text key d1 d2 @ s) = a @ fmt @ s"
proof -
  have "replace_from (pair_re key r1 r2) fmt [] False s = s"
    by (simp add: replace_from.simps [of _ _ _ _ s] search_pair_None [OF assms(7)])
  moreover have "pair_text key d1 d2 \<noteq> []" by (simp add: pair_text_def)
  ultimately show ?thesis
    using search_pair [OF assms(1-6), of True] assms(8)
    by (simp add: regex_replace_def replace_from.simps [of _ _ _ True] format_plain Let_def)
qed

lemma replace_pair_None: "str_find key s = None \<Longrightarrow> regex_replace (pair_re key r1 r2) fmt s = s"
  by (simp add: regex_replace_def replace_from.simps [of _ _ _ _ s] search_pair_None)

lemma cp_re_pair: "cp_re = pair_re ''client_port='' digits_re digits_re"
  by code_simp

lemma server_port_re_pair: "server_port_re = pair_re ''server_port='' (RGrp 1 digits_re) (RGrp 2 digits_re)"
  by code_simp

lemma client_port_re_pair: "client_port_re = pair_re ''client_port='' (RGrp 1 digits_re) (RGrp 2 digits_re)"
  by code_simp

lemma interleaved_re_pair: "interleaved_re = pair_re ''interleaved='' (RGrp 1 digits_re) (RGrp 2 digits_re)"
  by code_simp

lemmas groups_run = group_run [OF digits_run]

section \<open>Finding a key around a pair\<close>

text \<open>A key cannot reach over a character it does not have, so a number and the numbers put in its place do not matter.\<close>

lemma prefix_stops: "c \<notin> set pat \<Longrightarrow> prefix pat (xs @ c # ys) \<longleftrightarrow> prefix pat xs"
proof (induction xs arbitrary: pat)
  case Nil
  then show ?case by (cases pat) auto
next
  case (Cons x xs)
  then show ?case by (cases pat) auto
qed

lemma str_find_split:
  assumes "c \<notin> set pat" and "pat \<noteq> []"
  shows "str_find pat (xs @ c # ys) =
    (case str_find pat xs of Some i \<Rightarrow> Some i | None \<Rightarrow> map_option ((+) (Suc (length xs))) (str_find pat ys))"
proof (induction xs)
  case Nil
  have "\<not> prefix pat (c # ys)" using assms by (cases pat) auto
  then show ?case using assms(2) by (cases "str_find pat ys") auto
next
  case (Cons x xs)
  have "prefix pat (x # xs @ c # ys) \<longleftrightarrow> prefix pat (x # xs)"
    using prefix_stops [OF assms(1), of "x # xs" ys] by simp
  with Cons show ?case by (cases "str_find pat ys") (auto split: option.splits)
qed

definition plain_key :: "string \<Rightarrow> bool" where
  "plain_key key \<longleftrightarrow> key \<noteq> [] \<and> list_all (\<lambda>c. \<not> c_isdigit c \<and> c \<noteq> CHR ''-'') key"

lemma plain_keys [simp]: "plain_key ''client_port=''" "plain_key ''server_port=''"
  by code_simp+

lemma plain_keyD: "plain_key key \<Longrightarrow> c_isdigit c \<Longrightarrow> c \<notin> set key" "plain_key key \<Longrightarrow> CHR ''-'' \<notin> set key"
  "plain_key key \<Longrightarrow> key \<noteq> []"
  by (auto simp: plain_key_def list_all_iff)

lemma str_find_number:
  assumes "plain_key key" and "number d"
  shows "str_find key (xs @ d @ ys) =
    (case str_find key xs of Some i \<Rightarrow> Some i | None \<Rightarrow> map_option ((+) (length xs + length d)) (str_find key ys))"
  using assms(2)
proof (induction d arbitrary: xs)
  case Nil
  then show ?case by (simp add: number_def)
next
  case (Cons c d)
  then have c: "c_isdigit c" "list_all c_isdigit d" by (simp_all add: number_def)
  show ?case
  proof (cases "d = []")
    case True
    with str_find_split [OF plain_keyD(1) [OF assms(1) c(1)] plain_keyD(3) [OF assms(1)], of xs ys] show ?thesis
      by (cases "str_find key ys") (auto split: option.splits)
  next
    case False
    with c(2) have "number d" by (simp add: number_def)
    then have *: "str_find key (d @ ys) = map_option ((+) (length d)) (str_find key ys)"
      using Cons.IH [of "[]"] plain_keyD(3) [OF assms(1)] by simp
    show ?thesis
      by (cases "str_find key ys")
        (auto simp: str_find_split [OF plain_keyD(1) [OF assms(1) c(1)] plain_keyD(3) [OF assms(1)]] * split: option.splits)
  qed
qed

lemma str_find_pair:
  assumes "plain_key key" and "number d1" and "number d2"
  shows "str_find key (xs @ pair_text k d1 d2 @ ys) =
    (case str_find key (xs @ k) of Some i \<Rightarrow> Some i
     | None \<Rightarrow> map_option ((+) (length xs + length (pair_text k d1 d2))) (str_find key ys))"
proof -
  have "str_find key (CHR ''-'' # d2 @ ys) = map_option ((+) (Suc (length d2))) (str_find key ys)"
    using str_find_split [OF plain_keyD(2) [OF assms(1)] plain_keyD(3) [OF assms(1)], of "[]" "d2 @ ys"] str_find_number [OF assms(1,3), of "[]" ys]
      plain_keyD(3) [OF assms(1)]
    by (cases "str_find key ys") auto
  then show ?thesis
    using str_find_number [OF assms(1,2), of "xs @ k" "CHR ''-'' # d2 @ ys"]
    by (cases "str_find key ys") (auto simp: pair_text_def split: option.splits)
qed

section \<open>The header itself\<close>

text \<open>A message with its first \<open>Transport\<close> header: the value is what the code reads, and replacing the header replaces that value.\<close>

definition transport_msg :: "string \<Rightarrow> string \<Rightarrow> string \<Rightarrow> string" where
  "transport_msg pre t rest = pre @ ''Transport: '' @ t @ CRLF @ rest"

definition first_transport :: "string \<Rightarrow> string \<Rightarrow> bool" where
  "first_transport pre t \<longleftrightarrow> str_find (to_lower ''Transport'' @ '':'') (to_lower (pre @ ''Transport:'')) = Some (length pre) \<and>
     CR \<notin> set t \<and> t \<noteq> [] \<and> \<not> is_blank (hd t)"

lemma transport_read:
  assumes "first_transport pre t"
  shows "extract_header_value (transport_msg pre t rest) ''Transport'' = t"
proof -
  have f: "str_find (to_lower ''Transport'' @ '':'') (to_lower (pre @ ''Transport'' @ '':'')) = Some (length pre)"
    and c: "CR \<notin> set t" and v: "t = [] \<or> \<not> is_blank (hd t)"
    using assms by (auto simp: first_transport_def)
  have "str_find CRLF (t @ CRLF) = map_option ((+) (length t)) (str_find CRLF CRLF)"
    using c by (intro str_find_hd_skip) simp_all
  then have "str_find CRLF (t @ CRLF) = Some (length t)" by simp
  from extract_header_value_at [OF f refl _ v this, of "'' ''"] show ?thesis by (simp add: transport_msg_def is_blank_def)
qed

lemma transport_replaced:
  assumes "first_transport pre t"
  shows "replace_header (transport_msg pre t rest) ''Transport'' t' = transport_msg pre t' rest"
proof -
  let ?h = "''Transport: '' @ t"
  have f: "str_find (to_lower ''Transport'' @ '':'') (to_lower (pre @ ''Transport:'')) = Some (length pre)"
    using assms by (simp only: first_transport_def)
  have m: "transport_msg pre t rest = (pre @ ''Transport:'') @ '' '' @ t @ CRLF @ rest" by (simp add: transport_msg_def)
  have "to_lower (transport_msg pre t rest) = to_lower (pre @ ''Transport:'') @ to_lower ('' '' @ t @ CRLF @ rest)"
    unfolding m by (rule to_lower_append)
  then have p: "str_find (to_lower ''Transport'' @ '':'') (to_lower (transport_msg pre t rest)) = Some (length pre)"
    using str_find_extend [OF f] by (simp only:)
  have "CR \<notin> set ?h" using assms by (simp add: first_transport_def)
  then have "str_find CRLF (?h @ CRLF @ rest) = map_option ((+) (length ?h)) (str_find CRLF (CRLF @ rest))"
    by (intro str_find_hd_skip) simp_all
  then have e: "str_find_from CRLF (transport_msg pre t rest) (length pre) = Some (length pre + length ?h)"
    by (simp add: str_find_from_def transport_msg_def)
  have "take (length pre) (transport_msg pre t rest) = pre" by (simp add: transport_msg_def)
  moreover have "transport_msg pre t rest = (pre @ ?h) @ CRLF @ rest" by (simp add: transport_msg_def)
  then have "drop (length pre + length ?h) (transport_msg pre t rest) = CRLF @ rest" by (simp only: drop_at length_append)
  ultimately show ?thesis
    unfolding replace_header_def p option.case e by (simp add: transport_msg_def)
qed

section \<open>Pairs of ports\<close>

definition port_pair :: "string \<Rightarrow> u16 \<Rightarrow> u16 \<Rightarrow> string" where
  "port_pair key p q = pair_text key (to_string (unat p)) (to_string (unat q))"

lemma number_to_string [simp]: "number (to_string n)"
  using to_string_digits [of n] by (simp add: number_def list_all_iff)

lemma dollar_free: "CHR ''$'' \<notin> set (to_string n)"
  using to_string_digits [of n] by (auto simp: c_isdigit_def)

lemma port_pair_dollar: "CHR ''$'' \<notin> set key \<Longrightarrow> CHR ''$'' \<notin> set (port_pair key p q)"
  by (simp add: port_pair_def pair_text_def dollar_free)

lemma port_number: "stoi (to_string (unat (p :: u16))) = Inr (int (unat p))"
proof -
  have "unat p < 2 ^ 16" by (rule order_less_le_trans [OF unsigned_less]) simp
  then have "unat p < 2 ^ 31" by (rule order_less_trans) simp
  then show ?thesis by (rule stoi_to_string)
qed

lemma two_ports_pair:
  "two_ports \<lparr>match_pos = i, match_str = s, match_caps = [(2, to_string (unat (q :: u16))), (1, to_string (unat (p :: u16)))]\<rparr> = Inr (p, q)"
  by (simp add: two_ports_def sub_match_def port_number throwing_def)

lemma ports_found:
  assumes "str_find key (a @ key) = Some (length a)" and "digit_free s"
  shows "search_from (pair_re key (RGrp 1 digits_re) (RGrp 2 digits_re)) start (a @ port_pair key p q @ s) =
    Some \<lparr>match_pos = length a, match_str = port_pair key p q,
      match_caps = [(2, to_string (unat q)), (1, to_string (unat p))]\<rparr>"
  using search_pair [OF groups_run groups_run number_to_string number_to_string assms(2,1), of 1 2 start "unat p" "unat q"]
  by (simp add: port_pair_def)

lemma ports_replaced:
  assumes "str_find key (a @ key) = Some (length a)" and "str_find key s = None" and "digit_free s" and "CHR ''$'' \<notin> set key"
  shows "regex_replace (pair_re key digits_re digits_re) (port_pair key p' q') (a @ port_pair key p q @ s) =
      a @ port_pair key p' q' @ s"
    and "regex_replace (pair_re key (RGrp 1 digits_re) (RGrp 2 digits_re)) (port_pair key p' q') (a @ port_pair key p q @ s) =
      a @ port_pair key p' q' @ s"
  unfolding port_pair_def [of key p q]
  by (rule replace_pair [OF digits_run digits_run], insert assms port_pair_dollar, auto)
    (rule replace_pair [OF groups_run groups_run], insert assms port_pair_dollar, auto)

section \<open>Asking the server for the proxy's ports\<close>

text \<open>A request for UDP with one pair of client ports.\<close>

definition udp_transport :: "string \<Rightarrow> string \<Rightarrow> u16 \<Rightarrow> u16 \<Rightarrow> string" where
  "udp_transport a b p q = a @ port_pair ''client_port='' p q @ b"

definition udp_parts :: "string \<Rightarrow> string \<Rightarrow> bool" where
  "udp_parts a b \<longleftrightarrow> str_find ''client_port='' (a @ ''client_port='') = Some (length a) \<and>
     str_find ''client_port='' b = None \<and> digit_free b"

lemma client_ports_read:
  assumes "first_transport pre (udp_transport a b p q)" and "udp_parts a b"
  shows "extract_client_port (transport_msg pre (udp_transport a b p q) rest) = Inr (Some (p, q))"
proof -
  have "regex_search client_port_re (udp_transport a b p q) = Some \<lparr>match_pos = length a, match_str = port_pair ''client_port='' p q,
      match_caps = [(2, to_string (unat q)), (1, to_string (unat p))]\<rparr>"
    using assms(2) unfolding regex_search_def client_port_re_pair udp_transport_def udp_parts_def by (intro ports_found) simp_all
  moreover have "udp_transport a b p q \<noteq> []" using assms(1) by (simp add: first_transport_def)
  ultimately show ?thesis
    by (simp add: extract_client_port_def transport_read [OF assms(1)] Let_def two_ports_pair throwing_def del: One_nat_def)
qed

lemma transport_asked:
  assumes "first_transport pre (udp_transport a b p q)" and "udp_parts a b"
    and "\<not> str_contains ''RTP/AVP/TCP'' (udp_transport a b p q)" and "\<not> str_contains ''interleaved='' (udp_transport a b p q)"
    and "\<not> nat_zte cfg" and "\<not> nat_stun cfg"
  shows "\<exists>proto. patch_transport_for_upstream cfg (transport_msg pre (udp_transport a b p q) rest) st =
    Inr (transport_msg pre (udp_transport a b (local_rtp_us_port st) (local_rtcp_us_port st)) rest, st\<lparr>ds_transport_protocol := proto\<rparr>)"
proof -
  let ?fmt = "port_pair ''client_port='' (local_rtp_us_port st) (local_rtcp_us_port st)"
  have "regex_replace cp_re ?fmt (udp_transport a b p q) = a @ ?fmt @ b"
    unfolding cp_re_pair udp_transport_def
    by (rule ports_replaced) (use assms(2) in \<open>auto simp: udp_parts_def\<close>)
  then have r: "regex_replace cp_re (''client_port='' @ to_string (unat (local_rtp_us_port st)) @ ''-'' @ to_string (unat (local_rtcp_us_port st)))
      (udp_transport a b p q) = udp_transport a b (local_rtp_us_port st) (local_rtcp_us_port st)"
    by (simp add: port_pair_def pair_text_def udp_transport_def)
  have n: "udp_transport a b p q \<noteq> []" using assms(1) by (simp add: first_transport_def)
  show ?thesis
    unfolding patch_transport_for_upstream_def transport_read [OF assms(1)] Let_def
    using n r assms(3-6) by (auto simp: transport_replaced [OF assms(1)])
qed





section \<open>Answering the client with the proxy's ports\<close>

text \<open>The answer of the server names the ports of the client and its own.\<close>

definition answer_transport :: "string \<Rightarrow> string \<Rightarrow> string \<Rightarrow> u16 \<times> u16 \<Rightarrow> u16 \<times> u16 \<Rightarrow> string" where
  "answer_transport a b d c s = a @ port_pair ''client_port='' (fst c) (snd c) @ b @ port_pair ''server_port='' (fst s) (snd s) @ d"

definition answer_parts :: "string \<Rightarrow> string \<Rightarrow> string \<Rightarrow> bool" where
  "answer_parts a b d \<longleftrightarrow>
     str_find ''client_port='' (a @ ''client_port='') = Some (length a) \<and> str_find ''client_port='' (b @ ''server_port='') = None \<and>
     str_find ''client_port='' d = None \<and> str_find ''server_port='' (a @ ''client_port='') = None \<and>
     str_find ''server_port='' (b @ ''server_port='') = Some (length b) \<and> str_find ''server_port='' d = None \<and>
     digit_free (b @ ''server_port='') \<and> digit_free d"

lemma client_part:
  assumes "answer_parts a b d"
  shows "str_find ''client_port='' (b @ port_pair ''server_port='' p q @ d) = None" "digit_free (b @ port_pair ''server_port='' p q @ d)"
proof -
  show "str_find ''client_port='' (b @ port_pair ''server_port='' p q @ d) = None"
    using assms by (simp add: port_pair_def str_find_pair answer_parts_def)
  show "digit_free (b @ port_pair ''server_port='' p q @ d)"
    using assms by (cases b) (auto simp: answer_parts_def digit_free_def port_pair_def pair_text_def)
qed

lemma server_part:
  assumes "answer_parts a b d"
  shows "str_find ''server_port='' ((a @ port_pair ''client_port='' p q @ b) @ ''server_port='') =
    Some (length (a @ port_pair ''client_port='' p q @ b))"
  using assms by (simp add: port_pair_def str_find_pair answer_parts_def)

text \<open>
  C17: The ports of the answer to a SETUP request over UDP. When the server's answer names a pair of client ports and a pair of
  its own, the man in the middle takes exactly the server's pair, at the address of the server, as the place the media come
  from, and the client is given a header in which the client ports are its own again and the server ports are the proxy's
  downstream ports, with everything else of the header unchanged.
\<close>

theorem setup_answer_ports:
  assumes "answer_parts a b d" and "inet_pton (server_ip (mctx st)) = Some ip"
  shows "learn_server_ports cfg (answer_transport a b d c (s1, s2)) st =
      Inr (punch cfg (st\<lparr>srv_rtp_addr := (ip, s1), srv_rtcp_addr := (ip, s2)\<rparr>)) \<and>
    (\<not> is_downstream_tcp st \<longrightarrow> client_transport st (answer_transport a b d c (s1, s2)) =
      answer_transport a b d (snd (client_rtp_addr st), snd (client_rtcp_addr st)) (local_rtp_ds_port st, local_rtcp_ds_port st))"
proof -
  have d: "digit_free d" "str_find ''server_port='' d = None" using assms(1) by (simp_all add: answer_parts_def)
  have "regex_search server_port_re ((a @ port_pair ''client_port='' (fst c) (snd c) @ b) @ port_pair ''server_port='' s1 s2 @ d) =
    Some \<lparr>match_pos = length (a @ port_pair ''client_port='' (fst c) (snd c) @ b), match_str = port_pair ''server_port='' s1 s2,
      match_caps = [(2, to_string (unat s2)), (1, to_string (unat s1))]\<rparr>"
    unfolding regex_search_def server_port_re_pair by (rule ports_found [OF server_part [OF assms(1)] d(1)])
  then have learn: "learn_server_ports cfg (answer_transport a b d c (s1, s2)) st =
      Inr (punch cfg (st\<lparr>srv_rtp_addr := (ip, s1), srv_rtcp_addr := (ip, s2)\<rparr>))"
    using assms(2) by (simp add: learn_server_ports_def answer_transport_def two_ports_pair throwing_def del: One_nat_def)
  let ?c = "port_pair ''client_port='' (snd (client_rtp_addr st)) (snd (client_rtcp_addr st))"
  let ?s = "port_pair ''server_port='' (local_rtp_ds_port st) (local_rtcp_ds_port st)"
  have "regex_replace cp_re ?c (a @ port_pair ''client_port='' (fst c) (snd c) @ b @ port_pair ''server_port='' s1 s2 @ d) =
      a @ ?c @ b @ port_pair ''server_port='' s1 s2 @ d"
    unfolding cp_re_pair
    by (rule ports_replaced(1)) (use assms(1) client_part [OF assms(1)] in \<open>auto simp: answer_parts_def\<close>)
  moreover have "regex_replace server_port_re ?s ((a @ ?c @ b) @ port_pair ''server_port='' s1 s2 @ d) = (a @ ?c @ b) @ ?s @ d"
    unfolding server_port_re_pair
    by (rule ports_replaced(2) [OF server_part [OF assms(1)] d(2,1)]) simp
  ultimately have "\<not> is_downstream_tcp st \<longrightarrow> client_transport st (answer_transport a b d c (s1, s2)) =
      answer_transport a b d (snd (client_rtp_addr st), snd (client_rtcp_addr st)) (local_rtp_ds_port st, local_rtcp_ds_port st)"
    by (simp add: client_transport_def answer_transport_def port_pair_def pair_text_def)
  with learn show ?thesis by blast
qed

definition example_server :: rtsp_client where
  "example_server = example_mitm\<lparr>mctx := (new_ctx (554, 0, 0))\<lparr>server_ip := inet_ntop 0x0A000009\<rparr>\<rparr>"

theorem setup_answer_ports_witness:
  "learn_server_ports default_config (answer_transport ''RTP/AVP;unicast;'' '';'' [] (20000, 20001) (6970, 6971)) example_server =
      Inr (punch default_config (example_server\<lparr>srv_rtp_addr := (0x0A000009, 6970), srv_rtcp_addr := (0x0A000009, 6971)\<rparr>)) \<and>
   client_transport example_server (answer_transport ''RTP/AVP;unicast;'' '';'' [] (20000, 20001) (6970, 6971)) =
     answer_transport ''RTP/AVP;unicast;'' '';'' [] (5000, snd (client_rtcp_addr example_server))
       (local_rtp_ds_port example_server, local_rtcp_ds_port example_server)"
proof -
  have p: "answer_parts ''RTP/AVP;unicast;'' '';'' []" by code_simp
  have "inet_pton (server_ip (mctx example_server)) = Some 0x0A000009" by (simp add: example_server_def)
  from setup_answer_ports [OF p this, of default_config "(20000, 20001)" 6970 6971] show ?thesis
    by (simp add: example_server_def example_mitm_sel)
qed

end
