(* ===== verification/Epoll_Loop.thy ===== *)
theory Epoll_Loop
  imports Client_Base "HOL-Library.Multiset"
begin

text \<open>
  \<open>src/core/epoll_loop.cpp\<close> and the descriptor guards of the clients: which socket context the kernel may hand to the
  event loop, who owns it, and when it is destroyed. A context is an address, allocated by \<open>make_unique\<close>
  and freed once; its handler either belongs to the server (listening and accepted sockets) or captures a client. A
  handler is the sequence of things it does to the loop: what the accept handler, \<open>MasterHandle\<close> and
  the clients do. Calling a handler whose context or client is gone, or freeing a context twice, is \<^term>\<open>None\<close>.
  A client creates each of its contexts once (\<open>relay_ready_\<close> and \<open>is_init_ok\<close> see to it) except the timer, which it may
  restart. The tasks of the queue are the removals of clients, the only tasks the program adds.
\<close>

section \<open>State\<close>

type_synonym ctx_id = nat

text \<open>\<open>FdGuard\<close>: the descriptor, and whether the guard knows the loop.\<close>

type_synonym fd_guard = "int \<times> bool"

record client_obj =
  client_id :: nat
  guards :: "fd_guard list"
  contexts :: "(int \<times> ctx_id) list"
  timer_guard :: fd_guard
  timer_ctx :: "ctx_id option"
  on_closed :: "int option"

record epoll_loop =
  interest :: "int \<rightharpoonup> ctx_id \<times> epoll_flag list"
  ctx_ptr_map :: "(int \<times> ctx_id) list"
  client_ptr_map :: "(int \<times> client_obj) list"
  deferred_delete_ctx :: "ctx_id list"
  task_queue :: "int list"
  ctx_heap :: "ctx_id \<rightharpoonup> nat option"
  next_id :: nat

definition EpollLoop :: epoll_loop where
  "EpollLoop = \<lparr>interest = Map.empty, ctx_ptr_map = [], client_ptr_map = [], deferred_delete_ctx = [], task_queue = [],
                ctx_heap = Map.empty, next_id = 0\<rparr>"

section \<open>Contexts\<close>

definition without_key :: "'k \<Rightarrow> ('k \<times> 'v) list \<Rightarrow> ('k \<times> 'v) list" where
  "without_key k = filter (\<lambda>p. fst p \<noteq> k)"

definition make_ctx :: "nat option \<Rightarrow> epoll_loop \<Rightarrow> ctx_id \<times> epoll_loop" where
  "make_ctx who st = (next_id st, st\<lparr>ctx_heap := (ctx_heap st)(next_id st \<mapsto> who), next_id := next_id st + 1\<rparr>)"

fun free_ctxs :: "ctx_id list \<Rightarrow> epoll_loop \<Rightarrow> epoll_loop option" where
  "free_ctxs [] st = Some st"
| "free_ctxs (c # cs) st =
     (if ctx_heap st c = None then None else free_ctxs cs (st\<lparr>ctx_heap := (ctx_heap st)(c := None)\<rparr>))"

section \<open>Operations of the loop\<close>

definition add_task :: "int \<Rightarrow> epoll_loop \<Rightarrow> epoll_loop" where
  "add_task task st = st\<lparr>task_queue := task_queue st @ [task]\<rparr>"

definition remove :: "int \<Rightarrow> epoll_loop \<Rightarrow> epoll_loop" where
  "remove fd st =
     (let st1 = st\<lparr>interest := (interest st)(fd := None)\<rparr> in
      case map_of (ctx_ptr_map st) fd of
        None \<Rightarrow> st1
      | Some c \<Rightarrow> st1\<lparr>deferred_delete_ctx := deferred_delete_ctx st @ [c],
                      ctx_ptr_map := without_key fd (ctx_ptr_map st)\<rparr>)"

text \<open>\<open>set\<close> with a borrowed context: \<open>ADD\<close>, or \<open>MOD\<close> when the descriptor is watched already. The answer says whether
  the kernel accepts a descriptor it does not know; a negative one it never accepts.\<close>

definition set_borrowed :: "bool \<Rightarrow> ctx_id \<Rightarrow> int \<Rightarrow> epoll_flag list \<Rightarrow> epoll_loop \<Rightarrow> epoll_loop" where
  "set_borrowed ok ctx fd ev st =
     (if interest st fd \<noteq> None \<or> (ok \<and> 0 \<le> fd) then st\<lparr>interest := (interest st)(fd \<mapsto> (ctx, ev))\<rparr> else st)"

text \<open>\<open>set\<close> with an owned context: a context the loop had for the descriptor is kept until the end of the turn.\<close>

definition set_owned :: "bool \<Rightarrow> ctx_id \<Rightarrow> int \<Rightarrow> epoll_flag list \<Rightarrow> epoll_loop \<Rightarrow> epoll_loop" where
  "set_owned ok ctx fd ev st =
     (let old = (case map_of (ctx_ptr_map st) fd of None \<Rightarrow> [] | Some c \<Rightarrow> [c]);
          st1 = st\<lparr>deferred_delete_ctx := deferred_delete_ctx st @ old,
                   ctx_ptr_map := (fd, ctx) # without_key fd (ctx_ptr_map st)\<rparr>
      in set_borrowed ok ctx fd ev st1)"

definition defer_delete :: "ctx_id option \<Rightarrow> epoll_loop \<Rightarrow> epoll_loop" where
  "defer_delete ctx st =
     (case ctx of None \<Rightarrow> st | Some c \<Rightarrow> st\<lparr>deferred_delete_ctx := deferred_delete_ctx st @ [c]\<rparr>)"

definition get_client_from_map :: "int \<Rightarrow> epoll_loop \<Rightarrow> client_obj option" where
  "get_client_from_map fd st = map_of (client_ptr_map st) fd"

definition get_client_count :: "epoll_loop \<Rightarrow> nat" where
  "get_client_count st = length (client_ptr_map st)"

section \<open>Descriptor guards and clients\<close>

text \<open>\<open>close\<close> makes the kernel forget a descriptor.\<close>

definition close_fd :: "int \<Rightarrow> epoll_loop \<Rightarrow> epoll_loop" where
  "close_fd fd st = st\<lparr>interest := (interest st)(fd := None)\<rparr>"

definition destroy_guard :: "fd_guard \<Rightarrow> epoll_loop \<Rightarrow> epoll_loop" where
  "destroy_guard g st =
     (if 0 \<le> fst g then close_fd (fst g) (if snd g then remove (fst g) st else st) else st)"

definition assign_guard :: "fd_guard \<Rightarrow> fd_guard \<Rightarrow> epoll_loop \<Rightarrow> fd_guard \<times> epoll_loop" where
  "assign_guard g new st = (new, destroy_guard g st)"

definition client_ctxs :: "client_obj \<Rightarrow> ctx_id list" where
  "client_ctxs cl = map snd (contexts cl) @ (case timer_ctx cl of None \<Rightarrow> [] | Some c \<Rightarrow> [c])"

text \<open>The destruction of a client closes its descriptors and frees its contexts.\<close>

definition destroy_client :: "client_obj \<Rightarrow> epoll_loop \<Rightarrow> epoll_loop option" where
  "destroy_client cl st = free_ctxs (client_ctxs cl) (fold destroy_guard (timer_guard cl # guards cl) st)"

definition without_client :: "int \<Rightarrow> epoll_loop \<Rightarrow> epoll_loop" where
  "without_client fd st = st\<lparr>client_ptr_map := without_key fd (client_ptr_map st)\<rparr>"

definition with_client :: "int \<Rightarrow> client_obj \<Rightarrow> epoll_loop \<Rightarrow> epoll_loop" where
  "with_client fd cl st = st\<lparr>client_ptr_map := (fd, cl) # client_ptr_map st\<rparr>"

definition add_client_to_map :: "int \<Rightarrow> client_obj \<Rightarrow> epoll_loop \<Rightarrow> epoll_loop option" where
  "add_client_to_map fd cl st =
     (case map_of (client_ptr_map st) fd of
        Some _ \<Rightarrow> destroy_client cl st
      | None \<Rightarrow> Some (with_client fd cl st))"

definition remove_client_from_map :: "int \<Rightarrow> epoll_loop \<Rightarrow> epoll_loop option" where
  "remove_client_from_map fd st =
     (case map_of (client_ptr_map st) fd of
        None \<Rightarrow> Some st
      | Some cl \<Rightarrow> destroy_client cl (without_client fd st))"

text \<open>A client takes a descriptor under guard and watches it through a new context.\<close>

definition open_fd :: "int \<Rightarrow> bool \<Rightarrow> epoll_flag list \<Rightarrow> bool \<Rightarrow> client_obj \<times> epoll_loop \<Rightarrow> client_obj \<times> epoll_loop" where
  "open_fd fd lp ev ok = (\<lambda>(cl, st).
     case make_ctx (Some (client_id cl)) st of
       (c, st1) \<Rightarrow> (cl\<lparr>guards := (fd, lp) # guards cl, contexts := (fd, c) # contexts cl\<rparr>, set_borrowed ok c fd ev st1))"

text \<open>\<open>init_timer_fd\<close>: the guard is assigned, the old context deferred, a new one watched. The guard is assigned from a
  bare descriptor, so that it no longer knows the loop.\<close>

definition restart_timer :: "int \<Rightarrow> bool \<Rightarrow> client_obj \<times> epoll_loop \<Rightarrow> client_obj \<times> epoll_loop" where
  "restart_timer fd ok = (\<lambda>(cl, st).
     case assign_guard (timer_guard cl) (fd, False) st of
       (g, st1) \<Rightarrow>
         (case make_ctx (Some (client_id cl)) (defer_delete (timer_ctx cl) st1) of
            (c, st2) \<Rightarrow> (cl\<lparr>timer_guard := g, timer_ctx := Some c\<rparr>, set_borrowed ok c fd [EPOLLIN] st2)))"

text \<open>A constructor: the watch of the accept handler is removed, the socket watched through the client's context, then
  the descriptors of this client are opened.\<close>

definition construct_client ::
  "int \<Rightarrow> (int \<times> bool \<times> epoll_flag list \<times> bool) list \<Rightarrow> epoll_loop \<Rightarrow> client_obj \<times> epoll_loop" where
  "construct_client fd opened st =
     (let cl = \<lparr>client_id = next_id st, guards = [], contexts = [], timer_guard = (-1, True), timer_ctx = None,
                on_closed = None\<rparr>;
          st1 = remove fd (st\<lparr>next_id := next_id st + 1\<rparr>)
      in fold (\<lambda>(f, lp, ev, ok). open_fd f lp ev ok)
           ((fd, True, [EPOLLRDHUP, EPOLLHUP, EPOLLERR], True) # opened) (cl, st1))"

text \<open>The end of a dispatch: the client enters the map, and the client of the map under this descriptor gets the
  callback.\<close>

definition set_callback :: "int \<Rightarrow> epoll_loop \<Rightarrow> epoll_loop" where
  "set_callback fd st =
     (case get_client_from_map fd st of
        None \<Rightarrow> st
      | Some cl \<Rightarrow> with_client fd (cl\<lparr>on_closed := Some fd\<rparr>) (without_client fd st))"

section \<open>What handlers do\<close>

datatype act =
    Accept int bool
  | CloseFd int
  | Dispatch int "(int \<times> bool \<times> epoll_flag list \<times> bool) list" bool
  | Rewatch int "epoll_flag list" bool
  | OpenFd int bool "epoll_flag list" bool
  | RestartTimer int bool
  | Closed

definition server_act :: "act \<Rightarrow> epoll_loop \<Rightarrow> epoll_loop option" where
  "server_act a st =
     (case a of
        Accept fd ok \<Rightarrow> (case make_ctx None st of (c, st1) \<Rightarrow> Some (set_owned ok c fd [EPOLLIN] st1))
      | CloseFd fd \<Rightarrow> Some (close_fd fd st)
      | Dispatch fd opened thrown \<Rightarrow>
          (case construct_client fd opened st of
             (cl, st1) \<Rightarrow>
               (if thrown then destroy_client cl st1
                else map_option (set_callback fd) (add_client_to_map fd cl st1)))
      | _ \<Rightarrow> Some st)"

definition client_act :: "act \<Rightarrow> client_obj \<times> epoll_loop \<Rightarrow> client_obj \<times> epoll_loop" where
  "client_act a cs =
     (case a of
        Rewatch fd ev ok \<Rightarrow>
          (case map_of (contexts (fst cs)) fd of None \<Rightarrow> cs | Some c \<Rightarrow> (fst cs, set_borrowed ok c fd ev (snd cs)))
      | OpenFd fd lp ev ok \<Rightarrow> open_fd fd lp ev ok cs
      | RestartTimer fd ok \<Rightarrow> restart_timer fd ok cs
      | Closed \<Rightarrow> (case on_closed (fst cs) of None \<Rightarrow> cs | Some fd \<Rightarrow> (fst cs, add_task fd (snd cs)))
      | _ \<Rightarrow> cs)"

fun find_client :: "nat \<Rightarrow> (int \<times> client_obj) list \<Rightarrow> (int \<times> client_obj) option" where
  "find_client k [] = None"
| "find_client k ((fd, cl) # cls) = (if client_id cl = k then Some (fd, cl) else find_client k cls)"

text \<open>One act of the handler of a context: the context must be alive, and so must the client it captures. No act of a
  client looks at the map of clients, so the client can be taken out while it acts.\<close>

definition do_act :: "ctx_id \<Rightarrow> act \<Rightarrow> epoll_loop \<Rightarrow> epoll_loop option" where
  "do_act c a st =
     (case ctx_heap st c of
        None \<Rightarrow> None
      | Some None \<Rightarrow> server_act a st
      | Some (Some k) \<Rightarrow>
          (case find_client k (client_ptr_map st) of
             None \<Rightarrow> None
           | Some (fd, cl) \<Rightarrow> (case client_act a (cl, without_client fd st) of (cl', st') \<Rightarrow> Some (with_client fd cl' st'))))"

definition alive :: "ctx_id \<Rightarrow> epoll_loop \<Rightarrow> bool" where
  "alive c st = (case ctx_heap st c of None \<Rightarrow> False | Some None \<Rightarrow> True
     | Some (Some k) \<Rightarrow> find_client k (client_ptr_map st) \<noteq> None)"

fun handler :: "ctx_id \<Rightarrow> act list \<Rightarrow> epoll_loop \<Rightarrow> epoll_loop option" where
  "handler c [] st = (if alive c st then Some st else None)"
| "handler c (a # as) st = Option.bind (do_act c a st) (handler c as)"

section \<open>The loop\<close>

fun dispatch_events :: "(ctx_id \<times> act list) list \<Rightarrow> epoll_loop \<Rightarrow> epoll_loop option" where
  "dispatch_events [] st = Some st"
| "dispatch_events ((c, as) # evs) st = Option.bind (handler c as st) (dispatch_events evs)"

fun run_tasks :: "int list \<Rightarrow> epoll_loop \<Rightarrow> epoll_loop option" where
  "run_tasks [] st = Some st"
| "run_tasks (fd # fds) st = Option.bind (remove_client_from_map fd st) (run_tasks fds)"

definition process_tasks :: "epoll_loop \<Rightarrow> epoll_loop option" where
  "process_tasks st = run_tasks (task_queue st) (st\<lparr>task_queue := []\<rparr>)"

definition clear_deferred :: "epoll_loop \<Rightarrow> epoll_loop option" where
  "clear_deferred st = free_ctxs (deferred_delete_ctx st) (st\<lparr>deferred_delete_ctx := []\<rparr>)"

definition turn :: "(ctx_id \<times> act list) list \<Rightarrow> epoll_loop \<Rightarrow> epoll_loop option" where
  "turn evs st = Option.bind (dispatch_events evs st) (\<lambda>st1. Option.bind (process_tasks st1) clear_deferred)"

text \<open>\<open>loop\<close> over what the calls of \<open>epoll_wait\<close> give: an interrupted call is repeated, another error ends the loop. The
  result says whether the loop has ended.\<close>

datatype wait_result = Events "(ctx_id \<times> act list) list" | Interrupted | WaitFailed

fun loop :: "wait_result list \<Rightarrow> epoll_loop \<Rightarrow> (epoll_loop \<times> bool) option" where
  "loop [] st = Some (st, False)"
| "loop (Events evs # ws) st = Option.bind (turn evs st) (loop ws)"
| "loop (Interrupted # ws) st = loop ws st"
| "loop (WaitFailed # ws) st = Some (st, True)"

text \<open>The listening socket of \<open>start_worker\<close>.\<close>

definition setup_accept_handler :: "int \<Rightarrow> epoll_loop \<Rightarrow> epoll_loop" where
  "setup_accept_handler listen_fd st =
     (case make_ctx None st of (c, st1) \<Rightarrow> set_owned True c listen_fd [EPOLLIN] st1)"

text \<open>What \<open>epoll_wait\<close> reports are contexts of watched descriptors.\<close>

definition reported :: "epoll_loop \<Rightarrow> (ctx_id \<times> act list) list \<Rightarrow> bool" where
  "reported st evs \<longleftrightarrow> (\<forall>e \<in> set evs. \<exists>fd ev. interest st fd = Some (fst e, ev))"

inductive running :: "int \<Rightarrow> epoll_loop \<Rightarrow> bool" for listen_fd where
  start: "running listen_fd (setup_accept_handler listen_fd EpollLoop)"
| cycle: "running listen_fd st \<Longrightarrow> reported st evs \<Longrightarrow> turn evs st = Some st' \<Longrightarrow> running listen_fd st'"

section \<open>Ownership\<close>

text \<open>The clients are those of the map and those under construction or destruction. Every allocated context has exactly one
  owner, and the kernel knows a context only under a descriptor that its owner guards.\<close>

definition all_clients :: "client_obj list \<Rightarrow> epoll_loop \<Rightarrow> client_obj list" where
  "all_clients ex st = ex @ map snd (client_ptr_map st)"

definition owned :: "client_obj list \<Rightarrow> epoll_loop \<Rightarrow> ctx_id multiset" where
  "owned ex st = mset (map snd (ctx_ptr_map st)) + mset (deferred_delete_ctx st) +
                 mset (concat (map client_ctxs (all_clients ex st)))"

definition registered :: "client_obj \<Rightarrow> int \<Rightarrow> ctx_id \<Rightarrow> bool" where
  "registered cl fd c \<longleftrightarrow> (fd, c) \<in> set (contexts cl) \<or> (timer_ctx cl = Some c \<and> fst (timer_guard cl) = fd)"

definition client_ok :: "(ctx_id \<rightharpoonup> nat option) \<Rightarrow> client_obj \<Rightarrow> bool" where
  "client_ok heap cl \<longleftrightarrow> (\<forall>c \<in> set (client_ctxs cl). heap c = Some (Some (client_id cl))) \<and>
     fst ` set (contexts cl) \<subseteq> fst ` set (guards cl)"

definition watched_ok :: "client_obj list \<Rightarrow> epoll_loop \<Rightarrow> bool" where
  "watched_ok ex st \<longleftrightarrow> (\<forall>fd c ev. interest st fd = Some (c, ev) \<longrightarrow>
     0 \<le> fd \<and> ((fd, c) \<in> set (ctx_ptr_map st) \<or> (\<exists>cl \<in> set (all_clients ex st). registered cl fd c)))"

definition loop_inv :: "client_obj list \<Rightarrow> epoll_loop \<Rightarrow> bool" where
  "loop_inv ex st \<longleftrightarrow>
     distinct (map fst (ctx_ptr_map st)) \<and> distinct (map fst (client_ptr_map st)) \<and>
     (\<forall>c. count (owned ex st) c = of_bool (ctx_heap st c \<noteq> None)) \<and>
     (\<forall>c. ctx_heap st c \<noteq> None \<longrightarrow> c < next_id st) \<and>
     (\<forall>c \<in> snd ` set (ctx_ptr_map st). ctx_heap st c = Some None) \<and>
     (\<forall>cl \<in> set (all_clients ex st). client_ok (ctx_heap st) cl) \<and> watched_ok ex st"

lemma without_key_None [simp]: "map_of al k = None \<Longrightarrow> without_key k al = al"
  by (induction al) (auto simp: without_key_def split: if_splits)

lemma without_key_keys: "distinct (map fst al) \<Longrightarrow> distinct (map fst (without_key k al)) \<and> k \<notin> fst ` set (without_key k al)"
  by (induction al) (auto simp: without_key_def)

lemma without_key_mset:
  "distinct (map fst al) \<Longrightarrow> map_of al k = Some v \<Longrightarrow> mset al = add_mset (k, v) (mset (without_key k al))"
proof (induction al)
  case (Cons p al)
  show ?case
  proof (cases "fst p = k")
    case True
    then have "without_key k al = al" using Cons.prems(1) by (auto intro!: without_key_None simp: map_of_eq_None_iff)
    then show ?thesis using True Cons.prems(2) by (cases p) (auto simp: without_key_def)
  next
    case False
    then show ?thesis using Cons by (cases p) (auto simp: without_key_def)
  qed
qed simp

lemma without_key_set: "set (without_key k al) = {p \<in> set al. fst p \<noteq> k}"
  by (auto simp: without_key_def)

lemma without_key_map:
  assumes "distinct (map fst al)" and "map_of al k = Some v"
  shows "mset (map f al) = add_mset (f (k, v)) (mset (map f (without_key k al)))"
  using without_key_mset [OF assms] by (metis image_mset_add_mset mset_map)

lemma owned_without_key:
  assumes "distinct (map fst (ctx_ptr_map st))" and "map_of (ctx_ptr_map st) fd = Some c"
  shows "mset (map snd (ctx_ptr_map st)) = add_mset c (mset (map snd (without_key fd (ctx_ptr_map st))))"
  using without_key_map [OF assms, of snd] by simp

text \<open>The watched contexts depend on the interest list, the contexts of the loop and the clients.\<close>

lemma watched_ok_mono:
  assumes "watched_ok ex st" and "\<And>fd w. interest st' fd = Some w \<Longrightarrow> interest st fd = Some w"
    and "\<And>fd c. interest st' fd \<noteq> None \<Longrightarrow> (fd, c) \<in> set (ctx_ptr_map st) \<Longrightarrow> (fd, c) \<in> set (ctx_ptr_map st')"
    and "\<And>cl fd c. cl \<in> set (all_clients ex st) \<Longrightarrow> registered cl fd c \<Longrightarrow> interest st' fd \<noteq> None \<Longrightarrow>
      \<exists>cl' \<in> set (all_clients ex' st'). registered cl' fd c"
  shows "watched_ok ex' st'"
  unfolding watched_ok_def
proof (intro allI impI)
  fix fd c ev
  assume i: "interest st' fd = Some (c, ev)"
  then have "0 \<le> fd \<and> ((fd, c) \<in> set (ctx_ptr_map st) \<or> (\<exists>cl \<in> set (all_clients ex st). registered cl fd c))"
    using assms(1,2) by (auto simp: watched_ok_def)
  then show "0 \<le> fd \<and> ((fd, c) \<in> set (ctx_ptr_map st') \<or> (\<exists>cl \<in> set (all_clients ex' st'). registered cl fd c))"
    using assms(3,4) i by blast
qed

lemma loop_inv_close_fd [intro]: "loop_inv ex st \<Longrightarrow> loop_inv ex (close_fd fd st)"
  by (auto simp: loop_inv_def close_fd_def owned_def all_clients_def watched_ok_def)

lemma loop_inv_remove [intro]:
  assumes "loop_inv ex st"
  shows "loop_inv ex (remove fd st)"
proof (cases "map_of (ctx_ptr_map st) fd")
  case None
  then show ?thesis
    using loop_inv_close_fd [OF assms, of fd] by (simp add: remove_def close_fd_def)
next
  case (Some c)
  have d: "distinct (map fst (ctx_ptr_map st))" using assms by (simp add: loop_inv_def)
  have "owned ex (remove fd st) = owned ex st"
    using owned_without_key [OF d Some] by (simp add: owned_def remove_def Some all_clients_def)
  moreover have "watched_ok ex (remove fd st)"
    using assms by (auto simp: loop_inv_def watched_ok_def remove_def Some all_clients_def without_key_set)
  ultimately show ?thesis
    using assms without_key_keys [OF d, of fd]
    by (auto simp: loop_inv_def remove_def Some all_clients_def without_key_set)
qed

lemma loop_inv_set_borrowed:
  assumes "loop_inv ex st" and "(fd, c) \<in> set (ctx_ptr_map st) \<or> (\<exists>cl \<in> set (all_clients ex st). registered cl fd c)"
  shows "loop_inv ex (set_borrowed ok c fd ev st)"
proof -
  have "interest st fd \<noteq> None \<Longrightarrow> 0 \<le> fd" using assms(1) by (auto simp: loop_inv_def watched_ok_def)
  then show ?thesis
    using assms by (auto simp: loop_inv_def set_borrowed_def watched_ok_def owned_def all_clients_def)
qed

lemma loop_inv_destroy_guard [intro]: "loop_inv ex st \<Longrightarrow> loop_inv ex (destroy_guard g st)"
  by (auto simp: destroy_guard_def)

lemma loop_inv_fold_guards: "loop_inv ex st \<Longrightarrow> loop_inv ex (fold destroy_guard gs st)"
  by (induction gs arbitrary: st) auto

text \<open>A new context and its owner.\<close>

lemma fresh_ctx: "loop_inv ex st \<Longrightarrow> ctx_heap st (next_id st) = None"
  by (meson less_irrefl loop_inv_def)

lemma client_ok_fresh:
  "client_ok heap cl \<Longrightarrow> heap n = None \<Longrightarrow> client_ok (heap(n \<mapsto> w)) cl"
  by (auto simp: client_ok_def)

text \<open>What descriptor guards leave alone.\<close>

lemma destroy_guard_frame [simp]:
  "ctx_heap (destroy_guard g st) = ctx_heap st"
  "client_ptr_map (destroy_guard g st) = client_ptr_map st"
  "next_id (destroy_guard g st) = next_id st"
  "task_queue (destroy_guard g st) = task_queue st"
  by (simp_all add: destroy_guard_def close_fd_def remove_def Let_def split: option.split)

lemma fold_guards_frame [simp]:
  "ctx_heap (fold destroy_guard gs st) = ctx_heap st"
  "client_ptr_map (fold destroy_guard gs st) = client_ptr_map st"
  "next_id (fold destroy_guard gs st) = next_id st"
  "task_queue (fold destroy_guard gs st) = task_queue st"
  by (induction gs arbitrary: st) simp_all

lemma loop_inv_open_fd:
  assumes inv: "loop_inv (cl # ex) st" and o: "open_fd fd lp ev ok (cl, st) = (cl', st')"
  shows "loop_inv (cl' # ex) st'"
proof -
  let ?n = "next_id st"
  let ?st1 = "st\<lparr>ctx_heap := (ctx_heap st)(?n \<mapsto> Some (client_id cl)), next_id := ?n + 1\<rparr>"
  let ?cl = "cl\<lparr>guards := (fd, lp) # guards cl, contexts := (fd, ?n) # contexts cl\<rparr>"
  have f: "ctx_heap st ?n = None" by (rule fresh_ctx [OF inv])
  have ctxs: "client_ctxs ?cl = ?n # client_ctxs cl" by (simp add: client_ctxs_def)
  have reg: "registered ?cl g c \<longleftrightarrow> (g = fd \<and> c = ?n) \<or> registered cl g c" for g c
    by (auto simp: registered_def)
  have "watched_ok (?cl # ex) ?st1"
    by (rule watched_ok_mono [of "cl # ex" st]) (use inv in \<open>auto simp: loop_inv_def all_clients_def reg\<close>)
  moreover have "client_ok (ctx_heap ?st1) ?cl"
    using inv f by (auto simp: loop_inv_def all_clients_def client_ok_def ctxs)
  moreover have "client_ok (ctx_heap ?st1) x" if "x \<in> set (all_clients ex st)" for x
    using inv f that client_ok_fresh [of "ctx_heap st" x] by (simp add: loop_inv_def all_clients_def)
  moreover have "count (owned (?cl # ex) ?st1) c = of_bool (ctx_heap ?st1 c \<noteq> None)" for c
    using inv f by (auto simp: loop_inv_def owned_def all_clients_def ctxs)
  ultimately have "loop_inv (?cl # ex) ?st1"
    using inv f by (auto simp: loop_inv_def all_clients_def less_Suc_eq)
  then show ?thesis
    using o loop_inv_set_borrowed [of "?cl # ex" ?st1 fd ?n ok ev]
    by (auto simp: open_fd_def make_ctx_def all_clients_def reg)
qed

text \<open>The timer: its descriptor is closed, its context deferred, then replaced.\<close>

lemma loop_inv_restart_timer:
  assumes inv: "loop_inv (cl # ex) st" and o: "restart_timer fd ok (cl, st) = (cl', st')"
  shows "loop_inv (cl' # ex) st'"
proof -
  let ?n = "next_id st"
  let ?g = "destroy_guard (timer_guard cl) st"
  let ?d = "defer_delete (timer_ctx cl) ?g"
  let ?st1 = "?d\<lparr>ctx_heap := (ctx_heap st)(?n \<mapsto> Some (client_id cl)), next_id := ?n + 1\<rparr>"
  let ?cl = "cl\<lparr>timer_guard := (fd, False), timer_ctx := Some ?n\<rparr>"
  have g: "loop_inv (cl # ex) ?g" using inv by blast
  have f: "ctx_heap st ?n = None" by (rule fresh_ctx [OF inv])
  have d: "interest ?d = interest ?g" "ctx_ptr_map ?d = ctx_ptr_map ?g" "client_ptr_map ?d = client_ptr_map st"
    "deferred_delete_ctx ?d = deferred_delete_ctx ?g @ (case timer_ctx cl of None \<Rightarrow> [] | Some c \<Rightarrow> [c])"
    by (simp_all add: defer_delete_def split: option.split)
  have gone: "0 \<le> fst (timer_guard cl) \<Longrightarrow> interest ?g (fst (timer_guard cl)) = None"
    by (simp add: destroy_guard_def close_fd_def)
  have w: "watched_ok (cl # ex) ?g" using g by (simp add: loop_inv_def)
  then have pos: "0 \<le> h" if "interest ?g h \<noteq> None" for h using that by (auto simp: watched_ok_def)
  have "watched_ok (?cl # ex) ?st1"
  proof (rule watched_ok_mono [OF w])
    fix x h c
    assume x: "x \<in> set (all_clients (cl # ex) ?g)" "registered x h c" "interest ?st1 h \<noteq> None"
    then have "0 \<le> h" "h \<noteq> fst (timer_guard cl)" using pos [of h] gone by (auto simp: d)
    then have "registered cl h c \<Longrightarrow> registered ?cl h c" by (auto simp: registered_def)
    then show "\<exists>cl' \<in> set (all_clients (?cl # ex) ?st1). registered cl' h c"
      using x(1,2) by (auto simp: all_clients_def d)
  qed (simp_all add: d)
  moreover have "client_ok (ctx_heap ?st1) ?cl"
    using inv f by (auto simp: loop_inv_def all_clients_def client_ok_def client_ctxs_def)
  moreover have "client_ok (ctx_heap ?st1) x" if "x \<in> set (all_clients ex st)" for x
    using inv f that client_ok_fresh [of "ctx_heap st" x] by (simp add: loop_inv_def all_clients_def)
  moreover have "owned (?cl # ex) ?st1 = add_mset ?n (owned (cl # ex) ?g)"
    by (simp add: owned_def all_clients_def client_ctxs_def d ac_simps)
  then have "count (owned (?cl # ex) ?st1) c = of_bool (ctx_heap ?st1 c \<noteq> None)" for c
    using g f by (auto simp: loop_inv_def)
  ultimately have "loop_inv (?cl # ex) ?st1"
    using g f by (auto simp: loop_inv_def all_clients_def less_Suc_eq d)
  then show ?thesis
    using o loop_inv_set_borrowed [of "?cl # ex" ?st1 fd ?n ok "[EPOLLIN]"]
    by (auto simp: restart_timer_def assign_guard_def make_ctx_def all_clients_def registered_def defer_delete_def split: option.splits)
qed

lemma free_ctxs_Some:
  "distinct cs \<Longrightarrow> \<forall>c \<in> set cs. ctx_heap st c \<noteq> None \<Longrightarrow>
   free_ctxs cs st = Some (st\<lparr>ctx_heap := (\<lambda>c. if c \<in> set cs then None else ctx_heap st c)\<rparr>)"
proof (induction cs arbitrary: st)
  case (Cons c cs)
  let ?st = "st\<lparr>ctx_heap := (ctx_heap st)(c := None)\<rparr>"
  have "free_ctxs cs ?st = Some (?st\<lparr>ctx_heap := (\<lambda>x. if x \<in> set cs then None else ctx_heap ?st x)\<rparr>)"
    using Cons.prems by (intro Cons.IH) auto
  moreover have "(\<lambda>x. if x \<in> set cs then None else ctx_heap ?st x) =
      (\<lambda>x. if x \<in> set (c # cs) then None else ctx_heap st x)" by auto
  ultimately show ?case using Cons.prems by simp
qed simp

lemma fold_guards_interest:
  "interest (fold destroy_guard gs st) fd = (if 0 \<le> fd \<and> fd \<in> fst ` set gs then None else interest st fd)"
proof (induction gs arbitrary: st)
  case (Cons g gs)
  have "interest (destroy_guard g st) fd = (if 0 \<le> fst g \<and> fd = fst g then None else interest st fd)"
    by (auto simp: destroy_guard_def close_fd_def remove_def Let_def split: option.split)
  then show ?case using Cons.IH [of "destroy_guard g st"] by auto
qed simp

lemma distinct_count_le: "(\<And>c. count (mset xs) c \<le> 1) \<Longrightarrow> distinct xs"
proof (induction xs)
  case (Cons x xs)
  have "count (mset xs) c \<le> 1" for c
  proof -
    have "count (mset xs) c \<le> count (mset (x # xs)) c" by simp
    then show ?thesis using Cons.prems [of c] by linarith
  qed
  moreover have "x \<notin> set xs" using Cons.prems [of x] by (simp add: count_eq_zero_iff)
  ultimately show ?case using Cons.IH by simp
qed simp

text \<open>Contexts whose owner goes away can be freed: they are allocated, distinct, and nobody else owns them.\<close>

lemma free_owned:
  assumes "\<And>c. count (mset cs) c + count (others :: ctx_id multiset) c = of_bool (ctx_heap st c \<noteq> None)"
  shows "free_ctxs cs st = Some (st\<lparr>ctx_heap := (\<lambda>c. if c \<in> set cs then None else ctx_heap st c)\<rparr>)"
    and "c \<in># others \<Longrightarrow> c \<notin> set cs"
    and "count others c = of_bool ((if c \<in> set cs then None else ctx_heap st c) \<noteq> None)"
proof -
  have le: "count (mset cs) c + count others c \<le> 1" for c using assms [of c] by simp
  have dist: "distinct cs"
    by (rule distinct_count_le) (meson le le_add1 le_trans)
  have mem: "ctx_heap st c \<noteq> None" if "c \<in> set cs" for c
  proof
    assume "ctx_heap st c = None"
    then have "count (mset cs) c = 0" using assms [of c] by simp
    then show False using that by (simp add: count_eq_zero_iff)
  qed
  show "free_ctxs cs st = Some (st\<lparr>ctx_heap := (\<lambda>c. if c \<in> set cs then None else ctx_heap st c)\<rparr>)"
    using dist mem by (intro free_ctxs_Some) auto
  have in1: "1 \<le> count (mset cs) c" if "c \<in> set cs" for c
    using that count_greater_zero_iff [of "mset cs" c] by (simp add: Suc_le_eq)
  show no: "c \<in># others \<Longrightarrow> c \<notin> set cs" for c
    using le [of c] in1 [of c] count_greater_zero_iff [of others c] by linarith
  show "count others c = of_bool ((if c \<in> set cs then None else ctx_heap st c) \<noteq> None)"
  proof (cases "c \<in> set cs")
    case True
    then have "c \<notin># others" using no by blast
    then show ?thesis using True by (simp add: count_eq_zero_iff)
  next
    case False
    then have "count (mset cs) c = 0" by (simp add: count_mset_0_iff)
    then have "count others c = of_bool (ctx_heap st c \<noteq> None)" using assms [of c] by linarith
    then show ?thesis using False by simp
  qed
qed

lemma owned_Cons: "owned (cl # ex) st = mset (client_ctxs cl) + owned ex st"
  by (simp add: owned_def all_clients_def ac_simps)

lemma destroy_client_ok:
  assumes inv: "loop_inv (cl # ex) st"
  shows "\<exists>st'. destroy_client cl st = Some st' \<and> loop_inv ex st' \<and> client_ptr_map st' = client_ptr_map st \<and>
    next_id st' = next_id st \<and> task_queue st' = task_queue st \<and>
    ctx_heap st' = (\<lambda>c. if c \<in> set (client_ctxs cl) then None else ctx_heap st c)"
proof -
  define gs where "gs = timer_guard cl # guards cl"
  define g where "g = fold destroy_guard gs st"
  have frame: "ctx_heap g = ctx_heap st" "client_ptr_map g = client_ptr_map st" "next_id g = next_id st"
    "task_queue g = task_queue st" by (simp_all add: g_def)
  have gi: "loop_inv (cl # ex) g" unfolding g_def by (rule loop_inv_fold_guards [OF inv])
  then have w: "watched_ok (cl # ex) g" and ok: "client_ok (ctx_heap g) cl" by (simp_all add: loop_inv_def all_clients_def)
  have "count (mset (client_ctxs cl)) c + count (owned ex g) c = of_bool (ctx_heap g c \<noteq> None)" for c
    using gi unfolding loop_inv_def owned_Cons by simp
  note free = free_owned [OF this]
  define f where "f = g\<lparr>ctx_heap := (\<lambda>c. if c \<in> set (client_ctxs cl) then None else ctx_heap g c)\<rparr>"
  have res: "destroy_client cl st = Some f"
    unfolding destroy_client_def f_def using free(1) by (simp add: g_def gs_def)
  have f: "interest f = interest g" "ctx_ptr_map f = ctx_ptr_map g" "client_ptr_map f = client_ptr_map g"
    "next_id f = next_id g" "owned ex f = owned ex g" by (simp_all add: f_def owned_def all_clients_def)
  have "watched_ok ex f"
  proof (rule watched_ok_mono [OF w])
    fix x h c
    assume x: "x \<in> set (all_clients (cl # ex) g)" "registered x h c" "interest f h \<noteq> None"
    have "0 \<le> h" using w x(3) by (auto simp: watched_ok_def f)
    then have "h \<notin> fst ` set gs" using x(3) unfolding f g_def fold_guards_interest by (metis (full_types))
    then have "\<not> registered cl h c" using ok by (force simp: registered_def client_ok_def gs_def)
    then show "\<exists>cl' \<in> set (all_clients ex f). registered cl' h c" using x by (auto simp: all_clients_def f)
  qed (simp_all add: f)
  moreover have "\<forall>x \<in> set (all_clients ex f). client_ok (ctx_heap f) x"
    using gi free(2) by (auto simp: loop_inv_def all_clients_def client_ok_def owned_def f_def)
  moreover have "\<forall>c \<in> snd ` set (ctx_ptr_map f). ctx_heap f c = Some None"
    using gi free(2) by (auto simp: loop_inv_def owned_def f_def)
  moreover have "\<forall>c. count (owned ex f) c = of_bool (ctx_heap f c \<noteq> None)"
    unfolding f(5) using free(3) by (simp add: f_def)
  ultimately have "loop_inv ex f" using gi by (auto simp: loop_inv_def f f_def)
  then show ?thesis using res frame by (auto simp: f_def)
qed

text \<open>A client moves between the map and the hands of an operation.\<close>

lemma loop_inv_without_client:
  assumes inv: "loop_inv ex st" and m: "map_of (client_ptr_map st) fd = Some cl"
  shows "loop_inv (cl # ex) (without_client fd st)"
proof -
  have d: "distinct (map fst (client_ptr_map st))" using inv by (simp add: loop_inv_def)
  have clients: "mset (all_clients (cl # ex) (without_client fd st)) = mset (all_clients ex st)"
    using without_key_map [OF d m, of snd] by (simp add: all_clients_def without_client_def)
  then have sets: "set (all_clients (cl # ex) (without_client fd st)) = set (all_clients ex st)"
    by (rule mset_eq_setD)
  have "mset (concat (map client_ctxs xs)) = (\<Sum>x\<in>#mset xs. mset (client_ctxs x))" for xs
    by (induction xs) simp_all
  then have "owned (cl # ex) (without_client fd st) = owned ex st"
    unfolding owned_def using clients by (simp add: without_client_def del: mset_concat)
  moreover have "watched_ok (cl # ex) (without_client fd st)"
    by (rule watched_ok_mono [of ex st]) (use inv sets in \<open>auto simp: loop_inv_def without_client_def\<close>)
  ultimately show ?thesis
    using inv sets without_key_keys [OF d, of fd] by (simp add: loop_inv_def) (simp add: without_client_def)
qed

lemma loop_inv_with_client:
  assumes inv: "loop_inv (cl # ex) st" and m: "map_of (client_ptr_map st) fd = None"
  shows "loop_inv ex (with_client fd cl st)"
proof -
  have sets: "set (all_clients ex (with_client fd cl st)) = set (all_clients (cl # ex) st)"
    by (auto simp: all_clients_def with_client_def)
  have "owned ex (with_client fd cl st) = owned (cl # ex) st"
    by (simp add: owned_def all_clients_def with_client_def ac_simps)
  moreover have "watched_ok ex (with_client fd cl st)"
    by (rule watched_ok_mono [of "cl # ex" st]) (use inv sets in \<open>auto simp: loop_inv_def with_client_def\<close>)
  moreover have "fd \<notin> fst ` set (client_ptr_map st)" using m by (simp add: map_of_eq_None_iff)
  ultimately show ?thesis using inv sets by (simp add: loop_inv_def) (simp add: with_client_def)
qed

text \<open>The callback of a client is no concern of ownership.\<close>

lemma callback_frame [simp]:
  "client_ctxs (cl\<lparr>on_closed := f\<rparr>) = client_ctxs cl"
  "registered (cl\<lparr>on_closed := f\<rparr>) = registered cl"
  "client_ok heap (cl\<lparr>on_closed := f\<rparr>) = client_ok heap cl"
  by (simp_all add: client_ctxs_def registered_def client_ok_def fun_eq_iff)

lemma loop_inv_callback: "loop_inv (cl # ex) st \<Longrightarrow> loop_inv (cl\<lparr>on_closed := f\<rparr> # ex) st"
  by (simp add: loop_inv_def owned_def all_clients_def watched_ok_def)

lemma map_of_without_client [simp]: "map_of (client_ptr_map (without_client fd st)) fd = None"
  by (auto simp: without_client_def without_key_def map_of_eq_None_iff)

lemma set_callback_inv: "loop_inv ex st \<Longrightarrow> loop_inv ex (set_callback fd st)"
  by (auto simp: set_callback_def get_client_from_map_def split: option.split
      intro!: loop_inv_with_client loop_inv_callback loop_inv_without_client)

section \<open>Handlers keep what is alive\<close>

text \<open>While handlers run no context and no client that was there goes away.\<close>

definition client_ids :: "epoll_loop \<Rightarrow> nat set" where
  "client_ids st = client_id ` snd ` set (client_ptr_map st)"

lemma client_ids_frame [simp]:
  "client_ids (st\<lparr>interest := a\<rparr>) = client_ids st" "client_ids (st\<lparr>ctx_ptr_map := b\<rparr>) = client_ids st"
  "client_ids (st\<lparr>deferred_delete_ctx := c\<rparr>) = client_ids st" "client_ids (st\<lparr>task_queue := d\<rparr>) = client_ids st"
  "client_ids (st\<lparr>ctx_heap := h\<rparr>) = client_ids st" "client_ids (st\<lparr>next_id := n\<rparr>) = client_ids st"
  "client_ids (destroy_guard g st) = client_ids st"
  by (simp_all add: client_ids_def)

definition persists :: "epoll_loop \<Rightarrow> epoll_loop \<Rightarrow> bool" where
  "persists st st' \<longleftrightarrow> next_id st \<le> next_id st' \<and> (\<forall>c w. ctx_heap st c = Some w \<longrightarrow> ctx_heap st' c = Some w) \<and>
     client_ids st \<subseteq> client_ids st'"

lemma persists_refl [simp]: "persists st st"
  by (simp add: persists_def)

lemma persists_trans [trans]: "persists a b \<Longrightarrow> persists b c \<Longrightarrow> persists a c"
  by (auto simp: persists_def)

lemma find_client_None: "find_client k (client_ptr_map st) = None \<longleftrightarrow> k \<notin> client_ids st"
proof -
  have "find_client k cls = None \<longleftrightarrow> k \<notin> client_id ` snd ` set cls" for cls
    by (induction k cls rule: find_client.induct) auto
  then show ?thesis by (simp add: client_ids_def)
qed

lemma find_client_Some: "find_client k cls = Some (fd, cl) \<Longrightarrow> (fd, cl) \<in> set cls \<and> client_id cl = k"
  by (induction k cls rule: find_client.induct) (auto split: if_splits)

lemma alive_persists: "alive c st \<Longrightarrow> persists st st' \<Longrightarrow> alive c st'"
  by (auto simp: alive_def persists_def find_client_None split: option.splits)

text \<open>A client under construction only owns contexts made since.\<close>

lemma open_fd_frame:
  assumes "open_fd fd lp ev ok (cl, st) = (cl', st')" and "loop_inv (cl # ex) st"
  shows "persists st st' \<and> client_ptr_map st' = client_ptr_map st \<and> client_id cl' = client_id cl \<and>
    set (client_ctxs cl') = insert (next_id st) (set (client_ctxs cl))"
  using assms fresh_ctx [OF assms(2)]
  by (auto simp: open_fd_def make_ctx_def set_borrowed_def persists_def client_ctxs_def split: if_splits)

lemma restart_timer_frame:
  assumes "restart_timer fd ok (cl, st) = (cl', st')" and "loop_inv (cl # ex) st"
  shows "persists st st' \<and> client_ptr_map st' = client_ptr_map st \<and> client_id cl' = client_id cl"
  using assms fresh_ctx [OF assms(2)]
  by (auto simp: restart_timer_def assign_guard_def make_ctx_def set_borrowed_def defer_delete_def persists_def
      split: if_splits option.splits)

lemma fold_open_ok:
  assumes "loop_inv (cl # ex) st" and "fold (\<lambda>(f, lp, ev, ok). open_fd f lp ev ok) fs (cl, st) = (cl', st')"
    and "\<forall>c \<in> set (client_ctxs cl). n \<le> c" and "n \<le> next_id st"
  shows "loop_inv (cl' # ex) st' \<and> persists st st' \<and> client_ptr_map st' = client_ptr_map st \<and>
    (\<forall>c \<in> set (client_ctxs cl'). n \<le> c)"
  using assms
proof (induction fs arbitrary: cl st)
  case (Cons x fs)
  obtain f lp ev ok where x: "x = (f, lp, ev, ok)" by (cases x) auto
  obtain cl1 st1 where o: "open_fd f lp ev ok (cl, st) = (cl1, st1)" by fastforce
  have fr: "persists st st1" "client_ptr_map st1 = client_ptr_map st"
    "set (client_ctxs cl1) = insert (next_id st) (set (client_ctxs cl))"
    using open_fd_frame [OF o Cons.prems(1)] by simp_all
  have "loop_inv (cl' # ex) st' \<and> persists st1 st' \<and> client_ptr_map st' = client_ptr_map st1 \<and>
    (\<forall>c \<in> set (client_ctxs cl'). n \<le> c)"
    by (rule Cons.IH [OF loop_inv_open_fd [OF Cons.prems(1) o]])
      (use Cons.prems o x fr in \<open>auto simp: persists_def\<close>)
  then show ?case using fr persists_trans by metis
qed simp

section \<open>Acts\<close>

lemma construct_client_ok:
  assumes inv: "loop_inv [] st" and c: "construct_client fd fs st = (cl, st')"
  shows "loop_inv [cl] st' \<and> persists st st' \<and> client_ptr_map st' = client_ptr_map st \<and>
    (\<forall>c \<in> set (client_ctxs cl). next_id st \<le> c)"
proof -
  let ?cl = "\<lparr>client_id = next_id st, guards = [], contexts = [], timer_guard = (-1, True), timer_ctx = None,
                on_closed = None\<rparr>"
  let ?st = "st\<lparr>next_id := next_id st + 1\<rparr>"
  have "watched_ok [?cl] ?st"
    by (rule watched_ok_mono [of "[]" st]) (use inv in \<open>auto simp: loop_inv_def all_clients_def\<close>)
  moreover have "owned [?cl] ?st = owned [] st" by (simp add: owned_def all_clients_def client_ctxs_def)
  ultimately have i1: "loop_inv [?cl] ?st"
    using inv by (auto simp: loop_inv_def all_clients_def client_ok_def [of _ ?cl] client_ctxs_def [of ?cl] less_SucI)
  have i2: "loop_inv [?cl] (remove fd ?st)" using i1 by blast
  have p: "persists st (remove fd ?st)" "client_ptr_map (remove fd ?st) = client_ptr_map st"
    "next_id (remove fd ?st) = next_id st + 1"
    by (simp_all add: remove_def Let_def persists_def split: option.split)
  have "loop_inv [cl] st' \<and> persists (remove fd ?st) st' \<and> client_ptr_map st' = client_ptr_map (remove fd ?st) \<and>
    (\<forall>c \<in> set (client_ctxs cl). next_id st \<le> c)"
    using p(3) by (intro fold_open_ok [OF i2 c [unfolded construct_client_def Let_def]]) (simp_all add: client_ctxs_def)
  then show ?thesis using p persists_trans by metis
qed

lemma destroy_new_client:
  assumes inv: "loop_inv [cl] st'" and p: "persists st st'" and n: "\<forall>c \<in> set (client_ctxs cl). next_id st \<le> c"
    and i: "loop_inv [] st"
  shows "\<exists>st''. destroy_client cl st' = Some st'' \<and> loop_inv [] st'' \<and> persists st st''"
proof -
  obtain f where f: "destroy_client cl st' = Some f" "loop_inv [] f" "client_ptr_map f = client_ptr_map st'"
    "next_id f = next_id st'" "ctx_heap f = (\<lambda>c. if c \<in> set (client_ctxs cl) then None else ctx_heap st' c)"
    using destroy_client_ok [OF inv] by blast
  have "ctx_heap f c = Some w" if "ctx_heap st c = Some w" for c w
  proof -
    have "c < next_id st" using i that by (auto simp: loop_inv_def)
    then have "c \<notin> set (client_ctxs cl)" using n by fastforce
    then show ?thesis using p that by (simp add: f(5) persists_def)
  qed
  then have "persists st f" using p f by (simp add: persists_def client_ids_def)
  then show ?thesis using f by blast
qed

lemma accept_ok:
  assumes inv: "loop_inv [] st" and m: "make_ctx None st = (c, st1)"
  shows "loop_inv [] (set_owned ok c fd ev st1) \<and> persists st (set_owned ok c fd ev st1)"
proof -
  let ?old = "case map_of (ctx_ptr_map st) fd of None \<Rightarrow> [] | Some c \<Rightarrow> [c]"
  let ?st2 = "st1\<lparr>deferred_delete_ctx := deferred_delete_ctx st1 @ ?old,
                  ctx_ptr_map := (fd, c) # without_key fd (ctx_ptr_map st)\<rparr>"
  have c: "c = next_id st" and st1: "st1 = st\<lparr>ctx_heap := (ctx_heap st)(next_id st \<mapsto> None), next_id := next_id st + 1\<rparr>"
    using m by (auto simp: make_ctx_def)
  have f: "ctx_heap st (next_id st) = None" by (rule fresh_ctx [OF inv])
  have d: "distinct (map fst (ctx_ptr_map st))" using inv by (simp add: loop_inv_def)
  have o: "owned [] ?st2 = add_mset c (owned [] st)"
  proof (cases "map_of (ctx_ptr_map st) fd")
    case (Some x)
    then show ?thesis
      using owned_without_key [OF d Some] by (simp add: owned_def all_clients_def st1 ac_simps)
  qed (simp add: owned_def all_clients_def st1 ac_simps)
  have cok: "client_ok ((ctx_heap st)(next_id st \<mapsto> None)) x" if "x \<in> set (all_clients [] st)" for x
    using inv f that client_ok_fresh [of "ctx_heap st" x] by (simp add: loop_inv_def)
  have old_pos: "0 \<le> fd" if "interest st fd \<noteq> None" using inv that by (auto simp: loop_inv_def watched_ok_def)
  have w: "watched_ok [] (set_borrowed ok c fd ev ?st2)"
    unfolding watched_ok_def
  proof (intro allI impI)
    fix g x ev'
    assume a: "interest (set_borrowed ok c fd ev ?st2) g = Some (x, ev')"
    show "0 \<le> g \<and> ((g, x) \<in> set (ctx_ptr_map (set_borrowed ok c fd ev ?st2)) \<or>
      (\<exists>cl \<in> set (all_clients [] (set_borrowed ok c fd ev ?st2)). registered cl g x))"
    proof (cases "g = fd")
      case True
      then have "0 \<le> g" "x = c" using a old_pos by (auto simp: set_borrowed_def st1 split: if_splits)
      then show ?thesis using True by (simp add: set_borrowed_def)
    next
      case False
      then have "interest st g = Some (x, ev')" using a by (simp add: set_borrowed_def st1 split: if_splits)
      then have "0 \<le> g \<and> ((g, x) \<in> set (ctx_ptr_map st) \<or> (\<exists>cl \<in> set (all_clients [] st). registered cl g x))"
        using inv unfolding loop_inv_def watched_ok_def by blast
      then show ?thesis using False by (auto simp: set_borrowed_def all_clients_def st1 without_key_set)
    qed
  qed
  have "set_owned ok c fd ev st1 = set_borrowed ok c fd ev ?st2"
    by (simp add: set_owned_def Let_def st1)
  moreover have "loop_inv [] (set_borrowed ok c fd ev ?st2)"
  proof -
    have "owned [] (set_borrowed ok c fd ev ?st2) = add_mset c (owned [] st)"
      using o by (simp add: set_borrowed_def owned_def all_clients_def)
    moreover have "\<forall>x \<in> snd ` set (ctx_ptr_map st). ctx_heap st x = Some None" using inv by (simp add: loop_inv_def)
    ultimately show ?thesis
      using inv w cok f without_key_keys [OF d, of fd] unfolding loop_inv_def
      by (auto simp: set_borrowed_def c st1 all_clients_def without_key_set less_SucI)
  qed
  moreover have "persists st (set_borrowed ok c fd ev ?st2)"
    using f by (simp add: set_borrowed_def st1 persists_def)
  ultimately show ?thesis by simp
qed

lemma client_ids_move:
  assumes "loop_inv ex st" and "map_of (client_ptr_map st) fd = Some cl"
  shows "client_ids st = insert (client_id cl) (client_ids (without_client fd st))"
proof -
  have "distinct (map fst (client_ptr_map st))" using assms(1) by (simp add: loop_inv_def)
  from mset_eq_setD [of _ "_ # _", simplified, OF without_key_mset [OF this assms(2)]]
  show ?thesis by (simp add: client_ids_def without_client_def)
qed

lemma client_ids_with [simp]: "client_ids (with_client fd cl st) = insert (client_id cl) (client_ids st)"
  by (simp add: client_ids_def with_client_def)

lemma set_callback_persists: "loop_inv ex st \<Longrightarrow> persists st (set_callback fd st)"
  by (auto simp: persists_def set_callback_def get_client_from_map_def client_ids_move split: option.split)
    (simp_all add: with_client_def without_client_def)

lemma loop_inv_tasks [simp]: "loop_inv ex (st\<lparr>task_queue := ts\<rparr>) = loop_inv ex st"
  by (simp add: loop_inv_def owned_def all_clients_def watched_ok_def)

lemma persists_callback: "loop_inv ex st' \<Longrightarrow> persists st st' \<Longrightarrow> persists st (set_callback fd st')"
  using set_callback_persists persists_trans by metis

definition good_step :: "epoll_loop \<Rightarrow> epoll_loop option \<Rightarrow> bool" where
  "good_step st r \<longleftrightarrow> (\<exists>st'. r = Some st' \<and> loop_inv [] st' \<and> persists st st')"

lemma server_act_ok:
  assumes inv: "loop_inv [] st"
  shows "good_step st (server_act a st)"
proof (cases a)
  case (Accept fd ok)
  obtain c st1 where m: "make_ctx None st = (c, st1)" by fastforce
  then show ?thesis using accept_ok [OF inv m] Accept by (simp add: server_act_def good_step_def)
next
  case (CloseFd fd)
  then show ?thesis using inv by (auto simp: server_act_def good_step_def persists_def close_fd_def
      intro: loop_inv_close_fd [unfolded close_fd_def])
next
  case (Dispatch fd fs thrown)
  obtain cl st1 where c: "construct_client fd fs st = (cl, st1)" by fastforce
  note new = construct_client_ok [OF inv c]
  have d: "good_step st (destroy_client cl st1)"
    using destroy_new_client [of cl st1 st] new inv by (auto simp: good_step_def)
  show ?thesis
  proof (cases "thrown \<or> map_of (client_ptr_map st1) fd \<noteq> None")
    case True
    then have "server_act a st = map_option (if thrown then id else set_callback fd) (destroy_client cl st1)"
      by (auto simp: Dispatch server_act_def c add_client_to_map_def option.map_id)
    then show ?thesis
      using d set_callback_inv persists_callback by (auto simp: good_step_def)
  next
    case False
    then have "server_act a st = Some (set_callback fd (with_client fd cl st1))"
      by (simp add: Dispatch server_act_def c add_client_to_map_def)
    moreover have "loop_inv [] (with_client fd cl st1)" using new False by (intro loop_inv_with_client) auto
    moreover have "persists st (with_client fd cl st1)" using new by (auto simp: persists_def with_client_def client_ids_def)
    ultimately show ?thesis
      using set_callback_inv persists_callback by (auto simp: good_step_def)
  qed
qed (use inv in \<open>simp_all add: server_act_def good_step_def\<close>)

lemma client_act_ok:
  assumes inv: "loop_inv [cl] st" and a: "client_act a (cl, st) = (cl', st')"
  shows "loop_inv [cl'] st' \<and> persists st st' \<and> client_ptr_map st' = client_ptr_map st \<and> client_id cl' = client_id cl"
proof (cases a)
  case (Rewatch fd ev ok)
  show ?thesis
  proof (cases "map_of (contexts cl) fd")
    case (Some c)
    then have "registered cl fd c" by (simp add: registered_def map_of_SomeD)
    then show ?thesis
      using inv a Rewatch Some loop_inv_set_borrowed [of "[cl]" st fd c ok ev]
      by (auto simp: client_act_def all_clients_def persists_def set_borrowed_def split: if_splits)
  qed (use inv a Rewatch in \<open>simp add: client_act_def\<close>)
next
  case (OpenFd fd lp ev ok)
  then show ?thesis using a loop_inv_open_fd [OF inv] open_fd_frame [OF _ inv] by (simp add: client_act_def)
next
  case (RestartTimer fd ok)
  then show ?thesis using a loop_inv_restart_timer [OF inv] restart_timer_frame [OF _ inv] by (simp add: client_act_def)
next
  case Closed
  then show ?thesis
    using a inv by (auto simp: client_act_def add_task_def persists_def split: option.splits)
qed (use inv a in \<open>simp_all add: client_act_def\<close>)

lemma do_act_ok:
  assumes inv: "loop_inv [] st" and al: "alive c st"
  shows "good_step st (do_act c a st)"
proof (cases "ctx_heap st c")
  case (Some who)
  show ?thesis
  proof (cases who)
    case None
    then show ?thesis using Some server_act_ok [OF inv] by (simp add: do_act_def)
  next
    case k: (Some k)
    then obtain fd cl where f: "find_client k (client_ptr_map st) = Some (fd, cl)"
      using al Some by (auto simp: alive_def)
    have "distinct (map fst (client_ptr_map st))" using inv by (simp add: loop_inv_def)
    then have m: "map_of (client_ptr_map st) fd = Some cl" using find_client_Some [OF f] by simp
    obtain cl' st' where a: "client_act a (cl, without_client fd st) = (cl', st')" by fastforce
    note act = client_act_ok [OF loop_inv_without_client [OF inv m] a]
    have "loop_inv [] (with_client fd cl' st')" using act by (intro loop_inv_with_client) auto
    moreover have "persists st (with_client fd cl' st')"
    proof -
      have "next_id st \<le> next_id st'" "\<forall>c w. ctx_heap st c = Some w \<longrightarrow> ctx_heap st' c = Some w"
        using act by (simp_all add: persists_def without_client_def)
      moreover have "client_ids st' = client_ids (without_client fd st)" using act by (simp add: client_ids_def)
      ultimately show ?thesis
        using client_ids_move [OF inv m] act by (auto simp: persists_def) (simp_all add: with_client_def)
    qed
    ultimately show ?thesis using Some k f a by (simp add: do_act_def good_step_def)
  qed
qed (use al in \<open>simp add: alive_def\<close>)

section \<open>Turns\<close>

lemma handler_ok: "loop_inv [] st \<Longrightarrow> alive c st \<Longrightarrow> good_step st (handler c as st)"
proof (induction as arbitrary: st)
  case (Cons a as)
  obtain st1 where s: "do_act c a st = Some st1" "loop_inv [] st1" "persists st st1"
    using do_act_ok [OF Cons.prems] by (auto simp: good_step_def)
  then have "good_step st1 (handler c as st1)" using Cons.IH alive_persists [OF Cons.prems(2)] by blast
  then show ?case using s by (auto simp: good_step_def intro: persists_trans)
qed (simp add: good_step_def)

lemma dispatch_ok:
  "loop_inv [] st \<Longrightarrow> \<forall>e \<in> set evs. alive (fst e) st \<Longrightarrow> good_step st (dispatch_events evs st)"
proof (induction evs arbitrary: st)
  case (Cons e evs)
  obtain c as where e: "e = (c, as)" by fastforce
  obtain st1 where s: "handler c as st = Some st1" "loop_inv [] st1" "persists st st1"
    using handler_ok [OF Cons.prems(1), of c as] Cons.prems(2) by (auto simp: good_step_def e)
  then have "good_step st1 (dispatch_events evs st1)"
    using Cons.prems(2) by (intro Cons.IH) (auto intro: alive_persists)
  then show ?case using s by (auto simp: good_step_def e intro: persists_trans)
qed (simp add: good_step_def)

lemma remove_client_ok:
  assumes "loop_inv [] st"
  shows "\<exists>st'. remove_client_from_map fd st = Some st' \<and> loop_inv [] st' \<and> task_queue st' = task_queue st \<and>
    map_of (client_ptr_map st') fd = None"
proof (cases "map_of (client_ptr_map st) fd")
  case (Some cl)
  show ?thesis
    using destroy_client_ok [OF loop_inv_without_client [OF assms Some]] Some
    by (auto simp: remove_client_from_map_def) (simp add: without_client_def)
qed (use assms in \<open>simp add: remove_client_from_map_def\<close>)

lemma run_tasks_ok:
  "loop_inv [] st \<Longrightarrow> \<exists>st'. run_tasks fds st = Some st' \<and> loop_inv [] st' \<and> task_queue st' = task_queue st"
proof (induction fds arbitrary: st)
  case (Cons fd fds)
  obtain st1 where "remove_client_from_map fd st = Some st1" "loop_inv [] st1" "task_queue st1 = task_queue st"
    using remove_client_ok [OF Cons.prems] by blast
  then show ?case using Cons.IH [of st1] by simp
qed simp

lemma clear_deferred_ok:
  assumes inv: "loop_inv [] st"
  shows "\<exists>st'. clear_deferred st = Some st' \<and> loop_inv [] st' \<and> deferred_delete_ctx st' = [] \<and>
    task_queue st' = task_queue st"
proof -
  let ?d = "deferred_delete_ctx st"
  let ?s = "st\<lparr>deferred_delete_ctx := []\<rparr>"
  have o: "owned [] st = mset ?d + owned [] ?s" by (simp add: owned_def all_clients_def ac_simps)
  have "count (mset ?d) c + count (owned [] ?s) c = of_bool (ctx_heap ?s c \<noteq> None)" for c
    using inv unfolding loop_inv_def o by simp
  note free = free_owned [OF this]
  let ?f = "?s\<lparr>ctx_heap := (\<lambda>c. if c \<in> set ?d then None else ctx_heap ?s c)\<rparr>"
  have "watched_ok [] ?f"
    by (rule watched_ok_mono [of "[]" st]) (use inv in \<open>auto simp: loop_inv_def all_clients_def\<close>)
  moreover have "\<forall>x \<in> set (all_clients [] ?f). client_ok (ctx_heap ?f) x"
    using inv free(2) by (auto simp: loop_inv_def all_clients_def client_ok_def owned_def)
  moreover have "\<forall>c \<in> snd ` set (ctx_ptr_map ?f). ctx_heap ?f c = Some None"
    using inv free(2) by (auto simp: loop_inv_def owned_def)
  moreover have "owned [] ?f = owned [] ?s" by (simp add: owned_def all_clients_def)
  then have "\<forall>c. count (owned [] ?f) c = of_bool (ctx_heap ?f c \<noteq> None)"
    using free(3) by simp
  ultimately have "loop_inv [] ?f" using inv by (auto simp: loop_inv_def)
  then show ?thesis using free(1) by (simp add: clear_deferred_def)
qed

definition between_turns :: "epoll_loop \<Rightarrow> bool" where
  "between_turns st \<longleftrightarrow> loop_inv [] st \<and> deferred_delete_ctx st = [] \<and> task_queue st = []"

lemma turn_ok:
  assumes inv: "loop_inv [] st" and al: "\<forall>e \<in> set evs. alive (fst e) st"
  shows "\<exists>st'. turn evs st = Some st' \<and> between_turns st'"
proof -
  obtain st1 where 1: "dispatch_events evs st = Some st1" "loop_inv [] st1"
    using dispatch_ok [OF inv al] by (auto simp: good_step_def)
  then obtain st2 where 2: "process_tasks st1 = Some st2" "loop_inv [] st2" "task_queue st2 = []"
    using run_tasks_ok [of "st1\<lparr>task_queue := []\<rparr>" "task_queue st1"] by (auto simp: process_tasks_def)
  then show ?thesis using 1 clear_deferred_ok [of st2] by (auto simp: turn_def between_turns_def)
qed

text \<open>Between turns every context the kernel may report is alive, and so is the client it captures.\<close>

lemma reported_alive:
  assumes inv: "between_turns st" and i: "interest st fd = Some (c, ev)"
  shows "alive c st"
proof -
  have "(fd, c) \<in> set (ctx_ptr_map st) \<or> (\<exists>cl \<in> snd ` set (client_ptr_map st). registered cl fd c)"
    using inv i by (auto simp: between_turns_def loop_inv_def watched_ok_def all_clients_def)
  then show ?thesis
  proof
    assume "(fd, c) \<in> set (ctx_ptr_map st)"
    then have "ctx_heap st c = Some None" using inv by (force simp: between_turns_def loop_inv_def)
    then show ?thesis by (simp add: alive_def)
  next
    assume "\<exists>cl \<in> snd ` set (client_ptr_map st). registered cl fd c"
    then obtain cl where cl: "cl \<in> snd ` set (client_ptr_map st)" "registered cl fd c" by blast
    then have "c \<in> set (client_ctxs cl)" by (force simp: registered_def client_ctxs_def)
    then have "ctx_heap st c = Some (Some (client_id cl))"
      using inv cl(1) by (auto simp: between_turns_def loop_inv_def all_clients_def client_ok_def)
    then show ?thesis using cl(1) by (simp add: alive_def find_client_None client_ids_def)
  qed
qed

lemma start_ok: "between_turns (setup_accept_handler fd EpollLoop)"
proof -
  have "loop_inv [] EpollLoop"
    by (simp add: loop_inv_def EpollLoop_def owned_def all_clients_def watched_ok_def)
  then show ?thesis
    using accept_ok [of EpollLoop _ _ True fd "[EPOLLIN]"]
    by (auto simp: between_turns_def setup_accept_handler_def make_ctx_def set_owned_def set_borrowed_def EpollLoop_def Let_def)
qed

lemma running_between: "running fd st \<Longrightarrow> between_turns st"
proof (induction rule: running.induct)
  case start
  show ?case by (rule start_ok)
next
  case (cycle st evs st')
  have "\<forall>e \<in> set evs. alive (fst e) st" using cycle.hyps cycle.IH reported_alive by (auto simp: reported_def)
  then show ?case using cycle turn_ok [of st evs] by (auto simp: between_turns_def)
qed

text \<open>
  C3: the event loop never runs a handler on a dead object. In every state the worker reaches, whatever contexts \<open>epoll_wait\<close>
  reports and whatever their handlers do (accepting, closing, starting sessions that may fail half-way, opening sockets,
  restarting timers, asking for their own removal), the turn of the loop runs to its end: no handler is called or keeps
  running on a context or a client that was destroyed, and no context is freed twice. After the turn the task queue and the list of
  deferred contexts are empty and no context has leaked: an allocated context belongs to the map of the loop or to a
  client of the map, and what the kernel watches is allocated.
\<close>

theorem loop_memory_safe:
  assumes "running listen_fd st" and "reported st evs"
  shows "\<exists>st'. turn evs st = Some st' \<and> deferred_delete_ctx st' = [] \<and> task_queue st' = [] \<and>
    dom (ctx_heap st') = snd ` set (ctx_ptr_map st') \<union> (\<Union>p \<in> set (client_ptr_map st'). set (client_ctxs (snd p))) \<and>
    (\<forall>fd c ev. interest st' fd = Some (c, ev) \<longrightarrow> alive c st')"
proof -
  have b: "between_turns st" by (rule running_between [OF assms(1)])
  then have "\<forall>e \<in> set evs. alive (fst e) st" using assms(2) reported_alive by (auto simp: reported_def)
  then obtain st' where t: "turn evs st = Some st'" "between_turns st'"
    using turn_ok [of st evs] b unfolding between_turns_def by blast
  have "c \<in> dom (ctx_heap st') \<longleftrightarrow> c \<in># owned [] st'" for c
    using t(2) count_greater_zero_iff [of "owned [] st'" c] by (auto simp: between_turns_def loop_inv_def dom_def split: if_splits)
  then have "dom (ctx_heap st') = set_mset (owned [] st')" by blast
  then show ?thesis
    using t reported_alive [OF t(2)] by (auto simp: between_turns_def owned_def all_clients_def)
qed

theorem loop_memory_safe_witness:
  "running 3 (setup_accept_handler 3 EpollLoop) \<and> reported (setup_accept_handler 3 EpollLoop) [(0, [Accept 7 True])] \<and>
   (\<exists>st'. turn [(0, [Accept 7 True])] (setup_accept_handler 3 EpollLoop) = Some st' \<and> deferred_delete_ctx st' = [])"
proof -
  have r: "running 3 (setup_accept_handler 3 EpollLoop)" by (rule running.start)
  have e: "reported (setup_accept_handler 3 EpollLoop) [(0, [Accept 7 True])]"
    by (simp add: reported_def setup_accept_handler_def make_ctx_def set_owned_def set_borrowed_def EpollLoop_def Let_def)
  from loop_memory_safe [OF r e] obtain st' where
    "turn [(0, [Accept 7 True])] (setup_accept_handler 3 EpollLoop) = Some st'" "deferred_delete_ctx st' = []" by (elim exE conjE)
  then show ?thesis using r e by (intro conjI exI [of _ st'])
qed

end
