(* ===== verification/Sessions.thy ===== *)
theory Sessions
  imports Http_Session Rtsp_Session
begin

text \<open>
  All sessions of the proxy on the block pool and the port pool they share. The locale \<open>pooled_client\<close> is what the pool needs of a client; both kinds
  of client are interpretations of it, and the accounting of the pool over any interleaving of their events follows
  once for both (\<open>session_kind\<close>).
\<close>

section \<open>The size of blocks never changes\<close>

lemma size_release [simp]: "get_buffer_size (release b bp) = get_buffer_size bp"
  by (simp add: get_buffer_size_def release_def)

lemma size_acquire [simp]: "get_buffer_size (snd (acquire bp)) = get_buffer_size bp"
  by (simp add: get_buffer_size_def acquire_def Let_def split: list.split)

lemma size_acquire_eq: "acquire bp = (b, bp') \<Longrightarrow> get_buffer_size bp' = get_buffer_size bp"
  using size_acquire [of bp] by simp

lemma size_push: "push_bounded n p q bp = (q', bp') \<Longrightarrow> get_buffer_size bp' = get_buffer_size bp"
  by (auto simp: push_bounded_def split: if_splits list.splits)

lemma size_push_snd [simp]: "get_buffer_size (snd (push_bounded n p q bp)) = get_buffer_size bp"
  using size_push [of n p q bp] by (cases "push_bounded n p q bp") simp

lemma size_forward_case:
  "case forward_block cfg buf n st of None \<Rightarrow> True | Some (f, b1, n1, st1) \<Rightarrow>
     get_buffer_size (blocks st1) = get_buffer_size (blocks st)"
  by (simp add: forward_block_def Let_def size_push split: bind_split option.split prod.split)

lemma size_forward: "forward_block cfg buf n st = Some (f, b1, n1, st1) \<Longrightarrow> get_buffer_size (blocks st1) = get_buffer_size (blocks st)"
  using size_forward_case [where cfg = cfg and buf = buf and n = n and st = st] by simp

lemma size_interleaved_case:
  "case handle_interleaved_packet cfg ch dat st of None \<Rightarrow> True | Some st' \<Rightarrow>
     get_buffer_size (blocks st') = get_buffer_size (blocks st)"
  by (simp add: handle_interleaved_packet_def Let_def size_forward size_acquire_eq split: bind_split option.split prod.split)

lemma size_interleaved:
  "handle_interleaved_packet cfg ch dat st = Some st' \<Longrightarrow> get_buffer_size (blocks st') = get_buffer_size (blocks st)"
  using size_interleaved_case [where cfg = cfg and ch = ch and dat = dat and st = st] by simp

lemma size_rtp_case:
  "case on_rtp_readable cfg a d st of None \<Rightarrow> True | Some st' \<Rightarrow> get_buffer_size (blocks st') = get_buffer_size (blocks st)"
  by (simp add: on_rtp_readable_def Let_def size_forward size_acquire_eq split: bind_split option.split prod.split)

lemma size_rtp: "on_rtp_readable cfg a d st = Some st' \<Longrightarrow> get_buffer_size (blocks st') = get_buffer_size (blocks st)"
  using size_rtp_case [where cfg = cfg and a = a and d = d and st = st] by simp

lemma size_resp_step_case:
  "case resp_step cfg st of None \<Rightarrow> True | Some s \<Rightarrow> get_buffer_size (blocks (step_state s)) = get_buffer_size (blocks st)"
proof -
  have "blocks (step_state (handle_response cfg h b (st\<lparr>resp_buf := x\<rparr>))) = blocks st" for h b x
    using same_data_response [of "st\<lparr>resp_buf := x\<rparr>" cfg h b] by (simp add: same_data_def)
  then show ?thesis
    by (simp add: resp_step_def Let_def size_interleaved split: bind_split option.split)
qed

lemma size_resp_loop:
  "resp_loop n cfg st = Some (Some (st', ret)) \<Longrightarrow> get_buffer_size (blocks st') = get_buffer_size (blocks st)"
proof (induction n arbitrary: st)
  case 0
  then show ?case by (auto split: if_splits)
next
  case (Suc n)
  show ?case
  proof (cases "resp_buf st = []")
    case False
    with Suc.prems obtain s where s: "resp_step cfg st = Some s" by (auto split: option.splits)
    with size_resp_step_case [where cfg = cfg and st = st] Suc False show ?thesis by (cases s) auto
  qed (use Suc.prems in auto)
qed

lemma size_rtsp_readable:
  "on_rtsp_readable n cfg cs fin st = Some (Some st') \<Longrightarrow> get_buffer_size (blocks st') = get_buffer_size (blocks st)"
proof (induction cs arbitrary: st)
  case Nil
  then show ?case by (cases fin) auto
next
  case (Cons c cs)
  then obtain st1 ret where l: "resp_loop n cfg (st\<lparr>resp_buf := resp_buf st @ c\<rparr>) = Some (Some (st1, ret))"
    by (auto split: option.splits)
  from size_resp_loop [OF l] Cons l show ?case by (cases ret) auto
qed

lemma size_client_drain: "get_buffer_size (blocks (fst (client_drain rs st))) = get_buffer_size (blocks st)"
proof (induction rs arbitrary: st)
  case (Cons r rs)
  show ?case by (simp add: Let_def Cons.IH split: list.split send_result.split)
qed simp

lemma size_http_step: "http_step cfg st st' \<Longrightarrow> get_buffer_size (blocks st') = get_buffer_size (blocks st)"
proof (cases rule: http_step.cases, assumption, goal_cases)
  case (4 ev rs)
  then show ?case
    using size_client_drain [of rs st] by (cases "client_drain rs st") (auto simp: handle_client_def on_client_writable_def)
qed (auto simp: handle_timer_def intro: size_rtp size_rtsp_readable)

section \<open>MITM sessions\<close>

lemma size_send_interleaved:
  "send_interleaved_downstream ch dat st = Inr st' \<Longrightarrow> get_buffer_size (mblocks st') = get_buffer_size (mblocks st)"
  by (auto simp: send_interleaved_downstream_def Let_def throwing_Inr case_prod_unfold split: if_splits)

lemma size_relay: "relay_rtp cfg est buf n st = Inr st' \<Longrightarrow> get_buffer_size (mblocks st') = get_buffer_size (mblocks st)"
  by (auto simp: relay_rtp_def Let_def throwing_Inr size_send_interleaved split: if_splits)

lemma size_rtp_up_loop: "rtp_up_loop cfg ds st = Inr st' \<Longrightarrow> get_buffer_size (mblocks st') = get_buffer_size (mblocks st)"
proof (induction ds arbitrary: st)
  case Nil
  then show ?case by (auto simp: size_acquire_eq split: prod.splits)
next
  case (Cons d ds)
  then show ?case
    by (auto simp: Let_def throwing_Inr size_acquire_eq dest!: size_relay split: prod.splits if_splits)
qed

lemma same_media_size: "same_media st st' \<Longrightarrow> get_buffer_size (mblocks st') = get_buffer_size (mblocks st)"
  by (simp add: same_media_def)

lemma size_rtp_from_upstream:
  "handle_rtp_from_upstream cfg ds st = Inr st' \<Longrightarrow> get_buffer_size (mblocks st') = get_buffer_size (mblocks st)"
  by (auto simp: handle_rtp_from_upstream_def Let_def throwing_Inr size_acquire_eq
      dest!: size_rtp_up_loop same_media_pending same_media_size split: prod.splits if_splits)

lemma size_rtcp_from_upstream:
  "handle_rtcp_from_upstream ds st = Inr st' \<Longrightarrow> get_buffer_size (mblocks st') = get_buffer_size (mblocks st)"
proof (induction ds arbitrary: st)
  case Nil
  then show ?case by (auto simp: size_acquire_eq split: prod.splits)
next
  case (Cons d ds)
  then show ?case
    by (auto simp: Let_def throwing_Inr size_acquire_eq dest!: size_send_interleaved split: prod.splits if_splits)
qed

lemma size_rtp_from_client: "get_buffer_size (mblocks (handle_rtp_from_client ds st)) = get_buffer_size (mblocks st)"
  by (induction ds st rule: handle_rtp_from_client.induct) (auto simp: Let_def size_acquire_eq split: prod.splits)

lemma size_rtcp_from_client: "get_buffer_size (mblocks (handle_rtcp_from_client ds st)) = get_buffer_size (mblocks st)"
  by (induction ds st rule: handle_rtcp_from_client.induct) (auto simp: Let_def size_acquire_eq split: prod.splits)

lemma size_from_upstream_tcp:
  "handle_interleaved_from_upstream cfg ch dat st = Inr st' \<Longrightarrow> get_buffer_size (mblocks st') = get_buffer_size (mblocks st)"
  by (auto simp: handle_interleaved_from_upstream_def Let_def throwing_Inr case_prod_unfold size_send_interleaved
      dest!: size_relay split: if_splits)

lemma size_queue_response:
  "queue_response r st = Inr st' \<Longrightarrow> get_buffer_size (mblocks st') = get_buffer_size (mblocks st)"
  by (auto simp: queue_response_def throwing_Inr case_prod_unfold)

lemma size_response:
  assumes "handle_upstream_response cfg proxy so_ok sn rs resp st = Inr st'"
  shows "get_buffer_size (mblocks st') = get_buffer_size (mblocks st)"
  using assms
proof (cases rule: upstream_response_cases)
  case (retry q)
  then show ?thesis using same_media_size [OF same_media_upstream_writable] by simp
next
  case (answer st1 r1 st2)
  have "mblocks st1 = mblocks st" using answer(1) by auto
  then show ?thesis
    using size_queue_response [OF answer(3)] same_media_size [OF same_media_start] same_media_size [OF same_media_patch_response [OF answer(2)]]
    by simp
qed simp

lemma size_up_turn:
  "up_turn cfg proxy so_ok sn rs st = Inr r \<Longrightarrow> get_buffer_size (mblocks (turn_state r)) = get_buffer_size (mblocks st)"
  by (auto simp: up_turn_def Let_def throwing_Inr dest!: size_from_upstream_tcp size_response
      split: if_splits option.splits)

lemma size_up_loop:
  "up_loop n cfg proxy so_ok sn rs st = Some (Inr st') \<Longrightarrow> get_buffer_size (mblocks st') = get_buffer_size (mblocks st)"
proof (induction n arbitrary: st)
  case 0
  then show ?case by (auto split: if_splits)
next
  case (Suc n)
  show ?case
  proof (cases "upstream_recv_buf st = []")
    case False
    with Suc.prems obtain r where r: "up_turn cfg proxy so_ok sn rs st = Inr r" by (auto split: sum.splits)
    from size_up_turn [OF r] show ?thesis using Suc False r by (cases r) auto
  qed (use Suc.prems in auto)
qed

lemma size_upstream_readable:
  "on_upstream_readable n cfg proxy so_ok sn rs r st = Some (Inr st') \<Longrightarrow>
   get_buffer_size (mblocks st') = get_buffer_size (mblocks st)"
  by (auto simp: on_upstream_readable_def same_media_size [OF same_media_close] dest!: size_up_loop
      split: recv_result.splits recv_end.splits)

lemma size_mitm_drain: "get_buffer_size (mblocks (fst (mitm_drain rs st))) = get_buffer_size (mblocks st)"
proof (induction rs arbitrary: st)
  case (Cons r rs)
  show ?case by (simp add: Let_def Cons.IH split: list.split send_result.split)
qed simp

lemma size_downstream_writable: "get_buffer_size (mblocks (on_downstream_writable rs st)) = get_buffer_size (mblocks st)"
  using size_mitm_drain [of rs st]
  by (auto simp: on_downstream_writable_def on_downstream_closed_def same_media_size [OF same_media_close] split: prod.split)

lemma size_mitm_step: "mitm_step cfg st st' \<Longrightarrow> get_buffer_size (mblocks st') = get_buffer_size (mblocks st)"
proof (cases rule: mitm_step.cases, assumption, goal_cases)
  case (1 ds)
  then show ?case by (simp add: size_rtp_from_upstream)
next
  case (2 ds)
  then show ?case by (simp add: size_rtcp_from_upstream)
next
  case (3 dgs)
  then show ?case by (simp add: size_rtp_from_client)
next
  case (4 dgs)
  then show ?case by (simp add: size_rtcp_from_client)
next
  case (5 fuel env_us env_ds ev r rs)
  then show ?case
    by (auto simp: handle_downstream_def on_downstream_closed_def same_media_size [OF same_media_close] size_downstream_writable
        dest!: same_media_downstream_readable same_media_size split: if_splits option.splits sum.splits)
next
  case (6 fuel proxy so_ok sn rs rs' ev r)
  then show ?case
    by (auto simp: handle_upstream_def Let_def same_media_size [OF same_media_close] same_media_size [OF same_media_upstream_writable]
        dest!: size_upstream_readable split: if_splits option.splits sum.splits)
next
  case 7
  then show ?case by (simp add: mitm_handle_timer_def Let_def)
qed

section \<open>Clients of the pool\<close>

text \<open>
  What the pool needs of a client: its steps keep the ownership of its queue and the size of the blocks, and destroying it gives the blocks
  back. The pool a client works on can be exchanged for another one with the same block size, which is how clients share one pool.
\<close>

locale pooled_client =
  fixes step :: "'s \<Rightarrow> 's \<Rightarrow> bool"
    and cinv :: "nat \<Rightarrow> 's \<Rightarrow> bool"
    and queue_of :: "'s \<Rightarrow> packet list"
    and pool_of :: "'s \<Rightarrow> buffer_pool"
    and with_pool :: "buffer_pool \<Rightarrow> 's \<Rightarrow> 's"
    and destroy :: "'s \<Rightarrow> 's"
  assumes step_inv: "step st st' \<Longrightarrow> cinv k st \<Longrightarrow> cinv k st'"
    and step_size: "step st st' \<Longrightarrow> get_buffer_size (pool_of st') = get_buffer_size (pool_of st)"
    and inv_owns: "cinv k st \<Longrightarrow> owns k (queue_of st) (pool_of st)"
    and inv_pool: "cinv j st \<Longrightarrow> owns k (queue_of st) bp \<Longrightarrow> get_buffer_size bp = get_buffer_size (pool_of st) \<Longrightarrow>
      cinv k (with_pool bp st)"
    and pool_with: "pool_of (with_pool bp st) = bp" "queue_of (with_pool bp st) = queue_of st"
    and destroy_pool: "pool_of (destroy st) = fold (\<lambda>p. release (pkt_data p)) (queue_of st) (pool_of st)"
begin

lemma destroy_owns: "cinv k st \<Longrightarrow> owns k [] (pool_of (destroy st))"
  using owns_release_all [OF inv_owns] by (simp add: destroy_pool)

lemma destroy_size: "get_buffer_size (pool_of (destroy st)) = get_buffer_size (pool_of st)"
proof -
  have "get_buffer_size (fold (\<lambda>p. release (pkt_data p)) q bp) = get_buffer_size bp" for q bp
    by (induction q arbitrary: bp) simp_all
  then show ?thesis by (simp add: destroy_pool)
qed

text \<open>An event of one client in a pool others use too.\<close>

lemma shared_step:
  assumes "cinv j st" and "owns k (queue_of st) bp" and "get_buffer_size bp = get_buffer_size (pool_of st)"
    and "step (with_pool bp st) st'"
  shows "cinv k st' \<and> owns k (queue_of st') (pool_of st') \<and> get_buffer_size (pool_of st') = get_buffer_size bp"
proof -
  have "cinv k (with_pool bp st)" using assms(1-3) by (rule inv_pool)
  with assms(4) have "cinv k st'" by (rule step_inv)
  then show ?thesis using inv_owns step_size [OF assms(4)] by (simp add: pool_with)
qed

end

interpretation http: pooled_client "http_step cfg" http_inv send_queue blocks "\<lambda>bp st. st\<lparr>blocks := bp\<rparr>" destroy_http_client
  by unfold_locales (auto simp: http_inv_def [of _ "st\<lparr>blocks := bp\<rparr>" for st bp] http_inv_def destroy_http_client_def
      size_http_step dest: http_step_inv)

interpretation mitm: pooled_client "mitm_step cfg" mitm_inv to_downstream_q mblocks "\<lambda>bp st. st\<lparr>mblocks := bp\<rparr>" destroy_rtsp_client
  by unfold_locales (auto simp: mitm_inv_def destroy_rtsp_client_def size_mitm_step Let_def dest: mitm_step_inv)

section \<open>All sessions of the proxy\<close>

text \<open>The sessions share both pools. An event runs a handler of one of them on the pools as the others left them; sessions
  are created by the dispatcher, with their closing callback installed, and destroyed by the event loop.\<close>

datatype session = Http http_client | Mitm rtsp_client

fun session_queue :: "session \<Rightarrow> packet list" where
  "session_queue (Http st) = send_queue st"
| "session_queue (Mitm st) = to_downstream_q st"

definition without :: "nat \<Rightarrow> 'a list \<Rightarrow> 'a list" where
  "without i xs = take i xs @ drop (Suc i) xs"

type_synonym sys_state = "session list \<times> buffer_pool \<times> port_pool"

abbreviation http_with :: "buffer_pool \<Rightarrow> port_pool \<Rightarrow> http_client \<Rightarrow> http_client" where
  "http_with bp pp st \<equiv> st\<lparr>hports := pp, blocks := bp\<rparr>"

abbreviation mitm_with :: "buffer_pool \<Rightarrow> port_pool \<Rightarrow> rtsp_client \<Rightarrow> rtsp_client" where
  "mitm_with bp pp st \<equiv> st\<lparr>mports := pp, mblocks := bp\<rparr>"

inductive sys_event :: "server_config \<Rightarrow> sys_state \<Rightarrow> sys_state \<Rightarrow> bool" for cfg where
  http_event: "i < length ss \<Longrightarrow> ss ! i = Http st \<Longrightarrow> http_step cfg (http_with bp pp st) st' \<Longrightarrow>
    sys_event cfg (ss, bp, pp) (ss[i := Http st'], blocks st', hports st')"
| mitm_event: "i < length ss \<Longrightarrow> ss ! i = Mitm ms \<Longrightarrow> mitm_step cfg (mitm_with bp pp ms) ms' \<Longrightarrow>
    sys_event cfg (ss, bp, pp) (ss[i := Mitm ms'], mblocks ms', mports ms')"
| http_end: "i < length ss \<Longrightarrow> ss ! i = Http st \<Longrightarrow>
    sys_event cfg (ss, bp, pp) (without i ss, blocks (destroy_http_client (http_with bp pp st)),
      hports (destroy_http_client (http_with bp pp st)))"
| mitm_end: "i < length ss \<Longrightarrow> ss ! i = Mitm ms \<Longrightarrow>
    sys_event cfg (ss, bp, pp) (without i ss, mblocks (destroy_rtsp_client (mitm_with bp pp ms)),
      mports (destroy_rtsp_client (mitm_with bp pp ms)))"

inductive sys_step :: "server_config \<Rightarrow> sys_state \<Rightarrow> sys_state \<Rightarrow> bool" for cfg where
  event: "sys_event cfg s s' \<Longrightarrow> sys_step cfg s s'"
| http_new: "RTSPToHttpClient cfg env a junk ctx bp pp = Some st \<Longrightarrow>
    sys_step cfg (ss, bp, pp) (ss @ [Http (set_on_closed_callback st)], blocks st, hports st)"
| mitm_new: "RTSPToRtspClient cfg a addr config req bp pp = Inr ms \<Longrightarrow>
    sys_step cfg (ss, bp, pp) (ss @ [Mitm (mitm_set_on_closed_callback ms)], mblocks ms, mports ms)"

fun session_ok :: "nat \<Rightarrow> session \<Rightarrow> bool" where
  "session_ok B (Http st) \<longleftrightarrow> (\<exists>j. http_inv j st) \<and> get_buffer_size (blocks st) = B"
| "session_ok B (Mitm st) \<longleftrightarrow> (\<exists>j. mitm_inv j st) \<and> get_buffer_size (mblocks st) = B"

definition held :: "session list \<Rightarrow> nat" where
  "held ss = sum_list (map (\<lambda>s. length (session_queue s)) ss)"

definition sys_inv :: "nat \<Rightarrow> session list \<times> buffer_pool \<Rightarrow> bool" where
  "sys_inv B s = (case s of (ss, bp) \<Rightarrow> bp_inv bp \<and> get_buffer_size bp = B \<and> on_loan bp = held ss \<and> list_all (session_ok B) ss)"

lemma held_update: "i < length ss \<Longrightarrow> held (ss[i := s]) = held (without i ss) + length (session_queue s)"
  by (simp add: held_def without_def upd_conv_take_nth_drop)

lemma held_split: "i < length ss \<Longrightarrow> held ss = held (without i ss) + length (session_queue (ss ! i))"
  using held_update [of i ss "ss ! i"] by simp

lemma session_packets: "session_ok B s \<Longrightarrow> list_all (pkt_ok B) (session_queue s)"
  by (cases s) (auto simp: http_inv_def mitm_inv_def owns_def)

text \<open>What the other sessions hold is the number the invariant of one session counts as lent elsewhere.\<close>

lemma session_owns:
  assumes "sys_inv B (ss, bp)" and "i < length ss"
  shows "owns (held (without i ss)) (session_queue (ss ! i)) bp" and "session_ok B (ss ! i)"
  using assms session_packets [of B "ss ! i"] held_split [OF assms(2)]
  by (auto simp: sys_inv_def owns_def list_all_length)

lemma sys_inv_update:
  assumes "sys_inv B (ss, bp)" and "i < length ss" and "session_ok B s" and "owns (held (without i ss)) (session_queue s) bp'"
    and "get_buffer_size bp' = B"
  shows "sys_inv B (ss[i := s], bp')"
  using assms held_update [OF assms(2), of s]
  by (auto simp: sys_inv_def owns_def list_all_length nth_list_update)

lemma sys_inv_remove:
  assumes "sys_inv B (ss, bp)" and "owns (held (without i ss)) [] bp'" and "get_buffer_size bp' = B"
  shows "sys_inv B (without i ss, bp')"
  using assms by (auto simp: sys_inv_def owns_def without_def list_all_iff dest: in_set_takeD in_set_dropD)

lemma sys_inv_add:
  assumes "sys_inv B (ss, bp)" and "session_ok B s" and "owns (held ss) (session_queue s) bp'" and "get_buffer_size bp' = B"
  shows "sys_inv B (ss @ [s], bp')"
  using assms by (simp add: sys_inv_def owns_def held_def)

text \<open>Events and ends of one kind of session.\<close>

locale session_kind = pooled_client +
  fixes wrap :: "'a \<Rightarrow> session"
  assumes wrap_queue: "session_queue (wrap st) = queue_of st"
    and wrap_ok: "session_ok B (wrap st) \<longleftrightarrow> (\<exists>j. cinv j st) \<and> get_buffer_size (pool_of st) = B"
begin

lemma event_inv:
  assumes "sys_inv B (ss, bp)" and "i < length ss" and "ss ! i = wrap st" and "step (with_pool bp st) st'"
  shows "sys_inv B (ss[i := wrap st'], pool_of st')"
proof -
  obtain j where j: "cinv j st" "get_buffer_size (pool_of st) = B"
    using session_owns(2) [OF assms(1,2)] unfolding assms(3) wrap_ok by blast
  have o: "owns (held (without i ss)) (queue_of st) bp"
    using session_owns(1) [OF assms(1,2)] unfolding assms(3) wrap_queue .
  have b: "get_buffer_size bp = B" using assms(1) by (simp add: sys_inv_def)
  have s: "cinv (held (without i ss)) st'" "owns (held (without i ss)) (queue_of st') (pool_of st')"
    "get_buffer_size (pool_of st') = B"
    using shared_step [OF j(1) o _ assms(4)] j(2) b by auto
  show ?thesis
  proof (rule sys_inv_update [OF assms(1,2) _ _ s(3)])
    show "session_ok B (wrap st')" unfolding wrap_ok using s(1,3) by blast
    show "owns (held (without i ss)) (session_queue (wrap st')) (pool_of st')" unfolding wrap_queue by (rule s(2))
  qed
qed

lemma end_inv:
  assumes "sys_inv B (ss, bp)" and "i < length ss" and "ss ! i = wrap st"
  shows "sys_inv B (without i ss, pool_of (destroy (with_pool bp st)))"
proof -
  obtain j where j: "cinv j st" "get_buffer_size (pool_of st) = B"
    using session_owns(2) [OF assms(1,2)] unfolding assms(3) wrap_ok by blast
  have o: "owns (held (without i ss)) (queue_of st) bp"
    using session_owns(1) [OF assms(1,2)] unfolding assms(3) wrap_queue .
  have b: "get_buffer_size bp = B" using assms(1) by (simp add: sys_inv_def)
  have "cinv (held (without i ss)) (with_pool bp st)" using inv_pool [OF j(1) o] j(2) b by simp
  from destroy_owns [OF this] destroy_size [of "with_pool bp st"] b show ?thesis
    by (intro sys_inv_remove [OF assms(1)]) (simp_all add: pool_with)
qed

lemma new_inv:
  assumes "sys_inv B (ss, bp)" and "cinv (held ss) st" and "get_buffer_size (pool_of st) = B"
  shows "sys_inv B (ss @ [wrap st], pool_of st)"
proof (rule sys_inv_add [OF assms(1) _ _ assms(3)])
  show "session_ok B (wrap st)" unfolding wrap_ok using assms(2,3) by blast
  show "owns (held ss) (session_queue (wrap st)) (pool_of st)" unfolding wrap_queue by (rule inv_owns [OF assms(2)])
qed

end

interpretation http_kind: session_kind "http_step cfg" http_inv send_queue blocks "\<lambda>bp st. st\<lparr>blocks := bp\<rparr>"
  destroy_http_client Http
  by unfold_locales simp_all

interpretation mitm_kind: session_kind "mitm_step cfg" mitm_inv to_downstream_q mblocks "\<lambda>bp st. st\<lparr>mblocks := bp\<rparr>"
  destroy_rtsp_client Mitm
  by unfold_locales simp_all

lemma http_new_inv:
  assumes "sys_inv B (ss, bp)" and "64 \<le> B" and "RTSPToHttpClient cfg env a junk ctx bp pp = Some st"
  shows "sys_inv B (ss @ [Http (set_on_closed_callback st)], blocks st)"
proof -
  have b: "bp_inv bp" "64 \<le> get_buffer_size bp" "on_loan bp = held ss" "get_buffer_size bp = B"
    using assms(1,2) by (simp_all add: sys_inv_def)
  obtain st1 where "RTSPToHttpClient cfg env a junk ctx bp pp = Some st1" "http_inv (on_loan bp) st1"
    using b(1,2) by (rule new_client_ok)
  then have "http_inv (held ss) (set_on_closed_callback st)"
    using assms(3) b(3) by (simp add: http_inv_def set_on_closed_callback_def)
  moreover have "get_buffer_size (blocks (set_on_closed_callback st)) = B"
    using new_client_queue [OF assms(3)] b(4) by (simp add: set_on_closed_callback_def)
  ultimately have "sys_inv B (ss @ [Http (set_on_closed_callback st)], blocks (set_on_closed_callback st))"
    by (rule http_kind.new_inv [OF assms(1)])
  then show ?thesis by (simp add: set_on_closed_callback_def)
qed

lemma mitm_new_inv:
  assumes "sys_inv B (ss, bp)" and "64 \<le> B" and "RTSPToRtspClient cfg a addr config req bp pp = Inr st"
  shows "sys_inv B (ss @ [Mitm (mitm_set_on_closed_callback st)], mblocks st)"
proof -
  have b: "bp_inv bp" "4 \<le> get_buffer_size bp" "on_loan bp = held ss" "get_buffer_size bp = B"
    using assms(1,2) by (simp_all add: sys_inv_def)
  have "mblocks st = bp" using assms(3)
    by (auto simp: RTSPToRtspClient_def connect_upstream_def Let_def initial_mitm_def split: prod.splits if_splits)
  then have "mitm_inv (held ss) (mitm_set_on_closed_callback st)" "get_buffer_size (mblocks (mitm_set_on_closed_callback st)) = B"
    using new_mitm_ok [OF b(1,2) assms(3)] b(3,4) by (auto simp: mitm_inv_def mitm_set_on_closed_callback_def)
  then have "sys_inv B (ss @ [Mitm (mitm_set_on_closed_callback st)], mblocks (mitm_set_on_closed_callback st))"
    by (rule mitm_kind.new_inv [OF assms(1)])
  then show ?thesis by (simp add: mitm_set_on_closed_callback_def)
qed

lemma http_inv_ports [simp]: "http_inv k (st\<lparr>hports := pp\<rparr>) = http_inv k st"
  by (simp add: http_inv_def)

lemma mitm_inv_ports [simp]: "mitm_inv k (st\<lparr>mports := pp\<rparr>) = mitm_inv k st"
  by (simp add: mitm_inv_def)

text \<open>The accounting of blocks does not depend on the ports: a session may be given the port pool as the others left it.\<close>

lemma sys_inv_session:
  assumes "sys_inv B (ss, bp)" and "i < length ss" and "session_queue ses = session_queue (ss ! i)"
    and "session_ok B ses = session_ok B (ss ! i)"
  shows "sys_inv B (ss[i := ses], bp)"
  using sys_inv_update [OF assms(1,2), of ses bp] session_owns [OF assms(1,2)] assms by (simp add: sys_inv_def)

lemma http_ports_inv:
  assumes "sys_inv B (ss, bp)" and "i < length ss" and "ss ! i = Http st"
  shows "sys_inv B (ss[i := Http (st\<lparr>hports := pp\<rparr>)], bp)"
  using assms by (intro sys_inv_session) simp_all

lemma mitm_ports_inv:
  assumes "sys_inv B (ss, bp)" and "i < length ss" and "ss ! i = Mitm st"
  shows "sys_inv B (ss[i := Mitm (st\<lparr>mports := pp\<rparr>)], bp)"
  using assms by (intro sys_inv_session) simp_all

lemma without_update [simp]: "without i (xs[i := x]) = without i xs"
  by (simp add: without_def)

lemma sys_event_inv:
  assumes "sys_event cfg (ss, bp, pp) (ss', bp', pp')" and "sys_inv B (ss, bp)"
  shows "sys_inv B (ss', bp')"
  using assms(1)
proof (cases rule: sys_event.cases)
  case (http_event i st st')
  then show ?thesis
    using http_kind.event_inv [OF http_ports_inv [OF assms(2) http_event(4,5), of pp], of i "st\<lparr>hports := pp\<rparr>" cfg st'] by simp
next
  case (mitm_event i st st')
  then show ?thesis
    using mitm_kind.event_inv [OF mitm_ports_inv [OF assms(2) mitm_event(4,5), of pp], of i "st\<lparr>mports := pp\<rparr>" cfg st'] by simp
next
  case (http_end i st)
  then show ?thesis
    using http_kind.end_inv [OF http_ports_inv [OF assms(2) http_end(4,5), of pp], of i "st\<lparr>hports := pp\<rparr>"] by simp
next
  case (mitm_end i st)
  then show ?thesis
    using mitm_kind.end_inv [OF mitm_ports_inv [OF assms(2) mitm_end(4,5), of pp], of i "st\<lparr>mports := pp\<rparr>"] by simp
qed

lemma sys_step_inv:
  assumes "sys_step cfg (ss, bp, pp) (ss', bp', pp')" and "sys_inv B (ss, bp)" and "64 \<le> B"
  shows "sys_inv B (ss', bp')"
  using assms(1)
proof (cases rule: sys_step.cases)
  case event
  then show ?thesis using assms(2) by (rule sys_event_inv)
qed (use assms(2,3) in \<open>blast intro: http_new_inv mitm_new_inv\<close>)+

inductive sys_run :: "server_config \<Rightarrow> sys_state \<Rightarrow> sys_state \<Rightarrow> bool" for cfg where
  sys_refl: "sys_run cfg s s"
| sys_more: "sys_run cfg s s' \<Longrightarrow> sys_step cfg s' s'' \<Longrightarrow> sys_run cfg s s''"

lemma sys_run_inv:
  "sys_run cfg s s' \<Longrightarrow> sys_inv B (fst s, fst (snd s)) \<Longrightarrow> 64 \<le> B \<Longrightarrow> sys_inv B (fst s', fst (snd s'))"
proof (induction rule: sys_run.induct)
  case (sys_more s s' s'')
  then show ?case by (cases s'; cases s'') (auto intro: sys_step_inv)
qed

section \<open>Properties\<close>

text \<open>
  C4: The shared pool never loses a block. From the fresh pool, in any interleaving of events of HTTP and RTSP sessions and
  of their creation and destruction, the blocks on loan are exactly those in the queues of the living sessions; with no
  session left every block is back in the pool. The blocks hold at least the 64 bytes of the HTTP header.
\<close>

theorem shared_pool_accounting:
  assumes "sys_run cfg ([], BufferPool bsize count, PortPool) (ss, bp, pp)" and "64 \<le> bsize"
  shows "on_loan bp = (\<Sum>s\<leftarrow>ss. length (session_queue s)) \<and>
    (ss = [] \<longrightarrow> get_available_count bp = get_total_allocated bp)"
proof -
  have "sys_inv bsize ([], BufferPool bsize count)"
    by (simp add: sys_inv_def held_def on_loan_def get_total_allocated_def get_available_count_def get_buffer_size_def)
       (simp add: BufferPool_def)
  then show ?thesis
    using sys_run_inv [OF assms(1) _ assms(2)]
    by (auto simp: sys_inv_def held_def bp_inv_def on_loan_def get_total_allocated_def get_available_count_def)
qed

text \<open>A session that comes and goes.\<close>

lemma example_visit:
  obtains bp pp where "sys_run default_config ([], BufferPool 128 2, PortPool) ([], bp, pp)"
proof -
  obtain st where st: "RTSPToHttpClient default_config (\<lambda>_. (ok_answers 7, ok_answers 8)) (ok_answers 9) OPTIONS
       (new_ctx (554, 0, 0)) (BufferPool 128 2) PortPool = Some st"
    by (rule example_new_ok)
  let ?st = "set_on_closed_callback st"
  let ?s1 = "([Http ?st], blocks st, hports st)"
  have "sys_step default_config ([], BufferPool 128 2, PortPool) ?s1" using http_new [OF st, of "[]"] by simp
  moreover obtain bp pp where "sys_step default_config ?s1 ([], bp, pp)"
    using http_end [of 0 "[Http ?st]" ?st default_config "blocks st" "hports st"] by (auto simp: without_def intro: event)
  ultimately show thesis by (blast intro: sys_refl sys_more that)
qed

theorem shared_pool_accounting_witness:
  "\<exists>bp pp. sys_run default_config ([], BufferPool 128 2, PortPool) ([], bp, pp) \<and> get_available_count bp = get_total_allocated bp"
proof -
  obtain bp pp where r: "sys_run default_config ([], BufferPool 128 2, PortPool) ([], bp, pp)" by (rule example_visit)
  from shared_pool_accounting [OF this] r show ?thesis by auto
qed

end
