(* ===== verification/Blacklist.thy ===== *)
theory Blacklist
  imports Json Inet
begin

text \<open>
  \<open>src/utils/blacklist_checker.cpp\<close> and \<open>src/utils/dns_resolver.cpp\<close>: the patterns of the blacklist (networks, wildcards,
  literal hosts), the resolution of a host name and the test for a target that is the proxy itself. The
  answer of \<open>getaddrinfo\<close> is an argument: \<^term>\<open>None\<close> for an error, else the addresses. An address is its value in
  host order, so that the \<open>htonl\<close> of the mask and the network order of the addresses cancel.
\<close>

section \<open>Operations\<close>

definition resolve_ipv4 :: "(string \<Rightarrow> u32 list option) \<Rightarrow> string \<Rightarrow> string list" where
  "resolve_ipv4 getaddrinfo hostname =
     (case getaddrinfo hostname of None \<Rightarrow> [] | Some addrs \<Rightarrow> map inet_ntop addrs)"

text \<open>\<open>match_cidr\<close>: \<open>stoi\<close> may throw, and a shift count outside \<open>0..31\<close> is undefined.\<close>

definition match_cidr :: "string \<Rightarrow> string \<Rightarrow> cxx_error + bool" where
  "match_cidr ip cidr =
     (case str_find ''/'' cidr of
        None \<Rightarrow> Inr (ip = cidr)
      | Some slash_pos \<Rightarrow>
          throwing (stoi (drop (slash_pos + 1) cidr)) (\<lambda>bits.
            (case inet_pton (take slash_pos cidr) of
               None \<Rightarrow> Inr False
             | Some base_addr \<Rightarrow>
                 (case inet_pton ip of
                    None \<Rightarrow> Inr False
                  | Some target_addr \<Rightarrow>
                      (if bits = 0 then Inr True
                       else if 1 \<le> bits \<and> bits \<le> 32 then
                         (let mask = push_bit (nat (32 - bits)) (0xFFFFFFFF :: u32)
                          in Inr (target_addr AND mask = base_addr AND mask))
                       else Inl UndefinedBehaviour)))))"

definition match_wildcard :: "string \<Rightarrow> string \<Rightarrow> bool" where
  "match_wildcard host pattern =
     (if pattern = ''*'' then True
      else if hd pattern = CHR ''*'' then
        (let suf = drop 1 pattern in
         if length host \<ge> length suf then take (length suf) (drop (length host - length suf) host) = suf
         else False)
      else if last pattern = CHR ''*'' then
        (let pre = take (length pattern - 1) pattern in
         if length host \<ge> length pre then take (length pre) host = pre else False)
      else host = pattern)"

text \<open>The local function \<open>check_once\<close>.\<close>

fun check_once :: "string list \<Rightarrow> string \<Rightarrow> cxx_error + bool" where
  "check_once [] h = Inr False"
| "check_once (pattern # ps) h =
     (if str_find ''/'' pattern \<noteq> None then
        throwing (match_cidr h pattern) (\<lambda>b. if b then Inr True else check_once ps h)
      else if str_find ''*'' pattern \<noteq> None then
        (if match_wildcard h pattern then Inr True else check_once ps h)
      else if h = pattern then Inr True else check_once ps h)"

fun check_any :: "string list \<Rightarrow> string list \<Rightarrow> cxx_error + bool" where
  "check_any blacklist [] = Inr False"
| "check_any blacklist (ip # ips) =
     throwing (check_once blacklist ip) (\<lambda>b. if b then Inr True else check_any blacklist ips)"

definition is_blacklisted :: "string list \<Rightarrow> (string \<Rightarrow> u32 list option) \<Rightarrow> string \<Rightarrow> cxx_error + bool" where
  "is_blacklisted blacklist getaddrinfo host =
     (if blacklist = [] then Inr False
      else throwing (check_once blacklist host) (\<lambda>b.
        if b then Inr True else check_any blacklist (resolve_ipv4 getaddrinfo host)))"

text \<open>\<open>is_loopback\<close>: the address and port of the local end of the client connection, when \<open>getsockname\<close> gives them.\<close>

definition is_loopback :: "string \<Rightarrow> u16 \<Rightarrow> (u32 \<times> u16) option \<Rightarrow> bool" where
  "is_loopback target_ip target_port sockname =
     (case sockname of None \<Rightarrow> False
      | Some (addr, proxy_port) \<Rightarrow>
          (target_ip = ''127.0.0.1'' \<or> target_ip = ''localhost'' \<or> target_ip = inet_ntop addr) \<and>
          target_port = proxy_port)"

section \<open>Networks\<close>

definition in_net :: "u32 \<Rightarrow> u32 \<times> nat \<Rightarrow> bool" where
  "in_net a net \<longleftrightarrow> unat a div 2 ^ (32 - snd net) = unat (fst net) div 2 ^ (32 - snd net)"

definition cidr :: "u32 \<times> nat \<Rightarrow> string" where
  "cidr net = inet_ntop (fst net) @ ''/'' @ to_string (snd net)"

lemma mask_eq:
  fixes a b :: u32
  assumes "k < 32"
  shows "a AND push_bit k 0xFFFFFFFF = b AND push_bit k 0xFFFFFFFF \<longleftrightarrow> unat a div 2 ^ k = unat b div 2 ^ k"
proof -
  have ones: "(0xFFFFFFFF :: u32) = - 1" by simp
  have bits: "bit (x AND push_bit k (- 1)) n \<longleftrightarrow> n < 32 \<and> k \<le> n \<and> bit x n" for x :: u32 and n
    by (auto simp: bit_simps dest: bit_imp_le_length)
  have "a AND push_bit k (- 1) = b AND push_bit k (- 1) \<longleftrightarrow> drop_bit k a = drop_bit k b"
  proof
    assume e: "a AND push_bit k (- 1) = b AND push_bit k (- 1)"
    show "drop_bit k a = drop_bit k b"
    proof (rule bit_eqI)
      fix n
      have "bit (a AND push_bit k (- 1)) (k + n) = bit (b AND push_bit k (- 1)) (k + n)" using e by simp
      then show "bit (drop_bit k a) n = bit (drop_bit k b) n"
        unfolding bits by (auto simp: bit_simps dest: bit_imp_le_length)
    qed
  next
    assume e: "drop_bit k a = drop_bit k b"
    show "a AND push_bit k (- 1) = b AND push_bit k (- 1)"
    proof (rule bit_eqI)
      fix n
      have "bit (drop_bit k a) (n - k) = bit (drop_bit k b) (n - k)" using e by simp
      then show "bit (a AND push_bit k (- 1)) n = bit (b AND push_bit k (- 1)) n"
        unfolding bits by (auto simp: bit_simps)
    qed
  qed
  also have "\<dots> \<longleftrightarrow> unat (drop_bit k a) = unat (drop_bit k b)" by (simp only: word_unat_eq_iff)
  also have "\<dots> \<longleftrightarrow> unat a div 2 ^ k = unat b div 2 ^ k"
    unfolding unat_drop_bit_eq by (simp only: drop_bit_eq_div)
  finally show ?thesis unfolding ones .
qed

lemma inet_ntop_chars: "c \<in> set (inet_ntop a) \<Longrightarrow> c_isdigit c \<or> c = CHR ''.''"
  using to_string_digits by (fastforce simp: inet_ntop_def htonl_def)

lemma inet_ntop_no_slash: "CHR ''/'' \<notin> set (inet_ntop a)"
  using inet_ntop_chars [of "CHR ''/''" a] by (auto simp: c_isdigit_def)

lemma inet_ntop_inject: "inet_ntop a = inet_ntop b \<longleftrightarrow> a = b"
  by (metis inet_pton_ntop option.inject)

lemma cidr_find: "str_find ''/'' (cidr net) = Some (length (inet_ntop (fst net)))"
  unfolding cidr_def by (simp add: str_find_char_skip inet_ntop_no_slash)

text \<open>A host string matches a network exactly when it is an address of the network.\<close>

lemma match_cidr_net:
  assumes "snd net \<le> 32"
  shows "match_cidr host (cidr net) =
    Inr (case inet_pton host of None \<Rightarrow> False | Some a \<Rightarrow> in_net a net)"
proof -
  have "stoi (drop (length (inet_ntop (fst net)) + 1) (cidr net)) = Inr (int (snd net))"
    using assms by (simp add: cidr_def)
  moreover have "inet_pton (take (length (inet_ntop (fst net))) (cidr net)) = Some (fst net)"
    by (simp add: cidr_def)
  moreover have "nat (32 - int (snd net)) = 32 - snd net" using assms by linarith
  moreover have "in_net a net" if "snd net = 0" for a
    using that unat_u32_lt [of a] unat_u32_lt [of "fst net"] by (simp add: in_net_def)
  ultimately show ?thesis
    using assms mask_eq [of "32 - snd net"] by (auto simp: match_cidr_def cidr_find in_net_def split: option.splits)
qed

lemma check_once_nets:
  assumes "list_all (\<lambda>net. snd net \<le> 32) nets"
  shows "check_once (map cidr nets) host =
    Inr (case inet_pton host of None \<Rightarrow> False | Some a \<Rightarrow> list_ex (in_net a) nets)"
  using assms
  by (induction nets) (auto simp: match_cidr_net cidr_find split: option.splits)

lemma check_any_nets:
  assumes "list_all (\<lambda>net. snd net \<le> 32) nets"
  shows "check_any (map cidr nets) (map inet_ntop addrs) = Inr (list_ex (\<lambda>a. list_ex (in_net a) nets) addrs)"
  by (induction addrs) (auto simp: check_once_nets [OF assms])

text \<open>The addresses a host stands for: itself when it is an address, and what it resolves to.\<close>

definition addresses :: "(string \<Rightarrow> u32 list option) \<Rightarrow> string \<Rightarrow> u32 list" where
  "addresses getaddrinfo host =
     (case inet_pton host of None \<Rightarrow> [] | Some a \<Rightarrow> [a]) @
     (case getaddrinfo host of None \<Rightarrow> [] | Some as \<Rightarrow> as)"

section \<open>Properties\<close>

text \<open>C31: a blacklist of networks \<open>a.b.c.d/n\<close> with \<open>n\<close> at most 32 refuses a host exactly when one of the
  addresses it stands for, the literal address or one its name resolves to, lies in one of the
  networks, that is, agrees with the network's address in the first \<open>n\<close> bits. The check never throws on such
  a list.\<close>

theorem blacklist_networks:
  assumes "list_all (\<lambda>net. snd net \<le> 32) nets"
  shows "is_blacklisted (map cidr nets) getaddrinfo host =
    Inr (list_ex (\<lambda>a. list_ex (in_net a) nets) (addresses getaddrinfo host))"
proof (cases "getaddrinfo host")
  case None
  then show ?thesis
    by (auto simp: is_blacklisted_def check_once_nets [OF assms] addresses_def resolve_ipv4_def
        list_ex_iff split: option.splits)
next
  case (Some as)
  then show ?thesis
    by (auto simp: is_blacklisted_def check_once_nets [OF assms] check_any_nets [OF assms] addresses_def
        resolve_ipv4_def list_ex_iff split: option.splits)
qed

theorem blacklist_networks_witness:
  "is_blacklisted (map cidr [(0x0A000000, 8), (0xC0A80000, 16)]) (\<lambda>h. if h = ''lan'' then Some [0xC0A80105] else None) ''lan'' = Inr True \<and>
   is_blacklisted (map cidr [(0x0A000000, 8), (0xC0A80000, 16)]) (\<lambda>h. if h = ''lan'' then Some [0xC0A80105] else None) ''wan'' = Inr False"
proof -
  let ?g = "\<lambda>h. if h = ''lan'' then Some [0xC0A80105 :: u32] else None"
  have "inet_pton ''lan'' = None" "inet_pton ''wan'' = None" by code_simp+
  then have "addresses ?g ''lan'' = [0xC0A80105]" "addresses ?g ''wan'' = []" by (simp_all add: addresses_def)
  then show ?thesis
    using blacklist_networks [of "[(0x0A000000, 8), (0xC0A80000, 16)]" ?g "''lan''"]
      blacklist_networks [of "[(0x0A000000, 8), (0xC0A80000, 16)]" ?g "''wan''"]
    by (simp add: in_net_def)
qed

text \<open>The wildcards. \<open>*rest\<close> matches the hosts that end with \<open>rest\<close>, \<open>rest*\<close> the hosts that start with
  \<open>rest\<close>, and a star elsewhere is an ordinary character. (A pattern that starts with a star is a suffix
  pattern even when it also ends with one.)\<close>

theorem wildcard_correct:
  assumes "rest \<noteq> []" and "hd rest \<noteq> CHR ''*''" and "last rest \<noteq> CHR ''*''"
  shows "(match_wildcard host (CHR ''*'' # any) \<longleftrightarrow> suffix any host) \<and>
         (match_wildcard host (rest @ ''*'') \<longleftrightarrow> prefix rest host) \<and>
         (match_wildcard host rest \<longleftrightarrow> host = rest)"
proof (intro conjI)
  have suf: "take (length any) (drop (length host - length any) host) = any \<longleftrightarrow> suffix any host"
    if "length any \<le> length host"
  proof -
    have "take (length any) (drop (length host - length any) host) = drop (length host - length any) host"
      using that by simp
    then show ?thesis using that by (metis suffix_drop suffix_take suffix_def append_eq_append_conv
          append_take_drop_id length_drop diff_diff_cancel)
  qed
  show "match_wildcard host (CHR ''*'' # any) \<longleftrightarrow> suffix any host"
    using suf suffix_length_le [of any host] by (cases any) (auto simp: match_wildcard_def Let_def)
  have pre: "take (length rest) host = rest \<longleftrightarrow> prefix rest host"
    by (metis append_eq_conv_conj prefix_def take_is_prefix)
  show "match_wildcard host (rest @ ''*'') \<longleftrightarrow> prefix rest host"
    using assms pre prefix_length_le [of rest host] by (auto simp: match_wildcard_def Let_def)
  show "match_wildcard host rest \<longleftrightarrow> host = rest"
    using assms by (auto simp: match_wildcard_def Let_def)
qed

theorem wildcard_correct_witness:
  "match_wildcard ''cam.example.com'' ''*.example.com'' \<and> match_wildcard ''example.org'' ''example.*'' \<and>
   \<not> match_wildcard ''example.org'' ''example.''"
  using wildcard_correct [of "''example.''" "''cam.example.com''" "''.example.com''"]
    wildcard_correct [of "''example.''" "''example.org''" "[]"]
  by (simp add: suffix_def)

end
