(* ===== verification/Statistics.thy ===== *)
theory Statistics
  imports Prelude
begin

text \<open>
  \<open>include/core/statistics.h\<close> and the \<open>BandwidthEstimator\<close> of \<open>include/core/iclient.h\<close>: the byte counters of the proxy, which wrap at 64 bits,
  and the rates computed from them once a second. The floating-point quotient is a parameter of the operations that compute one: the number of
  bytes and of milliseconds are its arguments. The clock is an argument too, in milliseconds.
\<close>

record 'd statistics =
  total_upstream_bytes :: u64
  total_downstream_bytes :: u64
  upstream_period_bytes :: u64
  downstream_period_bytes :: u64
  active_clients :: u64
  upstream_bandwidth :: 'd
  downstream_bandwidth :: 'd
  last_update_time :: int

definition Statistics :: "'d \<Rightarrow> int \<Rightarrow> 'd statistics" where
  "Statistics zero now = \<lparr>total_upstream_bytes = 0, total_downstream_bytes = 0, upstream_period_bytes = 0,
     downstream_period_bytes = 0, active_clients = 0, upstream_bandwidth = zero, downstream_bandwidth = zero, last_update_time = now\<rparr>"

definition addUpstreamBytes :: "u64 \<Rightarrow> 'd statistics \<Rightarrow> 'd statistics" where
  "addUpstreamBytes bytes st = st\<lparr>total_upstream_bytes := total_upstream_bytes st + bytes,
     upstream_period_bytes := upstream_period_bytes st + bytes\<rparr>"

definition addDownstreamBytes :: "u64 \<Rightarrow> 'd statistics \<Rightarrow> 'd statistics" where
  "addDownstreamBytes bytes st = st\<lparr>total_downstream_bytes := total_downstream_bytes st + bytes,
     downstream_period_bytes := downstream_period_bytes st + bytes\<rparr>"

definition setActiveClients :: "u64 \<Rightarrow> 'd statistics \<Rightarrow> 'd statistics" where
  "setActiveClients n st = st\<lparr>active_clients := n\<rparr>"

definition getTotalBytes :: "'d statistics \<Rightarrow> u64" where
  "getTotalBytes st = total_upstream_bytes st + total_downstream_bytes st"

definition updateBandwidth :: "(u64 \<Rightarrow> int \<Rightarrow> 'd) \<Rightarrow> int \<Rightarrow> 'd statistics \<Rightarrow> 'd statistics" where
  "updateBandwidth quot now st =
     (let duration = now - last_update_time st in
      if 1000 \<le> duration then
        st\<lparr>upstream_period_bytes := 0, downstream_period_bytes := 0,
           upstream_bandwidth := quot (upstream_period_bytes st) duration,
           downstream_bandwidth := quot (downstream_period_bytes st) duration, last_update_time := now\<rparr>
      else st)"

definition getUpstreamBandwidth :: "(u64 \<Rightarrow> int \<Rightarrow> 'd) \<Rightarrow> int \<Rightarrow> 'd statistics \<Rightarrow> 'd \<times> 'd statistics" where
  "getUpstreamBandwidth quot now st = (let st1 = updateBandwidth quot now st in (upstream_bandwidth st1, st1))"

definition getDownstreamBandwidth :: "(u64 \<Rightarrow> int \<Rightarrow> 'd) \<Rightarrow> int \<Rightarrow> 'd statistics \<Rightarrow> 'd \<times> 'd statistics" where
  "getDownstreamBandwidth quot now st = (let st1 = updateBandwidth quot now st in (downstream_bandwidth st1, st1))"

record 'd estimator =
  bytes_in_period :: u64
  current_bandwidth :: 'd
  est_update_time :: int

definition addBytes :: "u64 \<Rightarrow> 'd estimator \<Rightarrow> 'd estimator" where
  "addBytes bytes st = st\<lparr>bytes_in_period := bytes_in_period st + bytes\<rparr>"

definition getBandwidth :: "(u64 \<Rightarrow> int \<Rightarrow> 'd) \<Rightarrow> int \<Rightarrow> 'd estimator \<Rightarrow> 'd \<times> 'd estimator" where
  "getBandwidth quot now st =
     (let duration = now - est_update_time st;
          st1 = (if 1000 \<le> duration then
             st\<lparr>bytes_in_period := 0, current_bandwidth := quot (bytes_in_period st) duration, est_update_time := now\<rparr> else st)
      in (current_bandwidth st1, st1))"

section \<open>Periods\<close>

text \<open>What is done to the counters: bytes relayed and rates asked for.\<close>

datatype stat_op = Up u64 | Down u64 | Ask int

definition stat_step :: "(u64 \<Rightarrow> int \<Rightarrow> 'd) \<Rightarrow> stat_op \<Rightarrow> 'd statistics \<times> u64 list \<Rightarrow> 'd statistics \<times> u64 list" where
  "stat_step quot op = (\<lambda>(st, closed).
     case op of
       Up n \<Rightarrow> (addUpstreamBytes n st, closed)
     | Down n \<Rightarrow> (addDownstreamBytes n st, closed)
     | Ask now \<Rightarrow> (updateBandwidth quot now st,
         if 1000 \<le> now - last_update_time st then closed @ [downstream_period_bytes st] else closed))"

lemma stat_step_total:
  "stat_step quot op (st, closed) = (st', closed') \<Longrightarrow>
   total_downstream_bytes st' - (sum_list closed' + downstream_period_bytes st') =
     total_downstream_bytes st - (sum_list closed + downstream_period_bytes st)"
  by (cases op) (auto simp: stat_step_def addUpstreamBytes_def addDownstreamBytes_def updateBandwidth_def Let_def
      split: if_splits)

text \<open>
  No byte is lost between two periods. Whatever bytes are counted and whenever rates are asked for, the bytes of the
  periods closed so far and those of the current one add up to the total, all modulo \<open>2 ^ 64\<close>.
\<close>

theorem periods_partition_total:
  "fold (stat_step quot) ops (Statistics zero now, []) = (st, closed) \<Longrightarrow>
   total_downstream_bytes st = sum_list closed + downstream_period_bytes st"
proof -
  have "fold (stat_step quot) ops (st0, cs) = (st1, cs') \<Longrightarrow>
    total_downstream_bytes st1 - (sum_list cs' + downstream_period_bytes st1) =
      total_downstream_bytes st0 - (sum_list cs + downstream_period_bytes st0)" for st0 cs st1 cs'
  proof (induction ops arbitrary: st0 cs)
    case (Cons op ops)
    obtain st2 cs2 where "stat_step quot op (st0, cs) = (st2, cs2)" by fastforce
    then show ?case using Cons stat_step_total by fastforce
  qed simp
  from this [of "Statistics zero now" "[]" st closed]
  show "fold (stat_step quot) ops (Statistics zero now, []) = (st, closed) \<Longrightarrow> ?thesis"
    by (simp add: Statistics_def)
qed

theorem periods_partition_total_witness:
  "total_downstream_bytes (fst (fold (stat_step (\<lambda>b d. b)) [Down 5, Ask 1500, Down 7] (Statistics 0 0, []))) = 12"
proof -
  have "fold (stat_step (\<lambda>b d. b)) [Down 5, Ask 1500, Down 7] (Statistics 0 0, []) =
    (\<lparr>total_upstream_bytes = 0, total_downstream_bytes = 12, upstream_period_bytes = 0,
     downstream_period_bytes = 7, active_clients = 0, upstream_bandwidth = 0, downstream_bandwidth = 5, last_update_time = 1500\<rparr>,
     [5])"
    by (simp add: stat_step_def addDownstreamBytes_def updateBandwidth_def Statistics_def)
  from periods_partition_total [OF this] show ?thesis
    by (simp add: stat_step_def addDownstreamBytes_def updateBandwidth_def Statistics_def)
qed

end
