(* ===== verification/Logger.thy ===== *)
theory Logger
  imports Server_Config
begin

text \<open>
  \<open>src/core/logger.cpp\<close>: the ring of recent messages that the API serves, the log file with its rotation, and the console. The
  file system is the content of the log file and of the rotated file; whether an \<open>open\<close> succeeds and the formatted time are
  arguments. The mutex is not modelled: each call is one step.
\<close>

section \<open>Operations\<close>

record logger =
  current_level :: log_level
  log_buffer :: "string list"
  log_file_open :: bool
  log_file_path :: string
  max_log_lines :: nat
  current_log_lines :: nat
  file_lines :: "string list"
  rotated_lines :: "string list"
  created_dirs :: "string list"
  flushes :: nat
  console :: "string list"

definition maxBufferSize :: nat where
  "maxBufferSize = 100"

text \<open>The numbers of the levels: \<open>DEBUG\<close> is 0 and \<open>ERROR\<close> 3; the levels are compared by them.\<close>

fun level_number :: "log_level \<Rightarrow> nat" where
  "level_number DEBUG = 0"
| "level_number INFO = 1"
| "level_number WARN = 2"
| "level_number ERROR = 3"

instantiation log_level :: linorder
begin

definition less_eq_log_level :: "log_level \<Rightarrow> log_level \<Rightarrow> bool" where
  "less_eq_log_level a b \<longleftrightarrow> level_number a \<le> level_number b"

definition less_log_level :: "log_level \<Rightarrow> log_level \<Rightarrow> bool" where
  "less_log_level a b \<longleftrightarrow> level_number a < level_number b"

instance
proof
  fix a b :: log_level
  show "a \<le> b \<Longrightarrow> b \<le> a \<Longrightarrow> a = b" by (cases a; cases b) (simp_all add: less_eq_log_level_def)
qed (auto simp: less_eq_log_level_def less_log_level_def)

end

fun logLevelToString :: "log_level \<Rightarrow> string" where
  "logLevelToString INFO = ''INFO''"
| "logLevelToString WARN = ''WARN''"
| "logLevelToString ERROR = ''ERROR''"
| "logLevelToString DEBUG = ''DEBUG''"

fun color_code :: "log_level \<Rightarrow> string" where
  "color_code ERROR = CHR 0x1B # ''[31m''"
| "color_code WARN = CHR 0x1B # ''[33m''"
| "color_code INFO = CHR 0x1B # ''[32m''"
| "color_code DEBUG = CHR 0x1B # ''[36m''"

definition setLogLevel :: "log_level \<Rightarrow> logger \<Rightarrow> logger" where
  "setLogLevel level st = st\<lparr>current_level := level\<rparr>"

definition getRecentLogs :: "logger \<Rightarrow> string list" where
  "getRecentLogs st = log_buffer st"

text \<open>The directories \<open>setLogFile\<close> makes: every prefix of the directory that ends before a slash, then the directory.\<close>

function dir_prefixes :: "string \<Rightarrow> nat \<Rightarrow> string list" where
  "dir_prefixes dir pos =
     (case str_find_from ''/'' dir pos of
        None \<Rightarrow> []
      | Some p \<Rightarrow> (if p < pos then [] else take p dir # dir_prefixes dir (p + 1)))"
  by pat_completeness auto
termination
  by (relation "measure (\<lambda>(dir, pos). Suc (length dir) - pos)")
    (auto simp: str_find_from_def str_find_Some_iff split: option.splits if_splits)

definition last_slash :: "string \<Rightarrow> nat option" where
  "last_slash path = (case str_find ''/'' (rev path) of None \<Rightarrow> None | Some i \<Rightarrow> Some (length path - 1 - i))"

text \<open>\<open>setLogFile\<close>: the content the file has when it is opened for appending, when it can be opened.\<close>

definition logger_setLogFile :: "string list option \<Rightarrow> string \<Rightarrow> nat \<Rightarrow> logger \<Rightarrow> logger" where
  "logger_setLogFile opened path maxLines st =
     (let st1 = st\<lparr>log_file_path := path, max_log_lines := maxLines, current_log_lines := 0, log_file_open := False\<rparr> in
      if path = [] then st1
      else
        (let st2 = (case last_slash path of
             None \<Rightarrow> st1
           | Some i \<Rightarrow> st1\<lparr>created_dirs := created_dirs st1 @ dir_prefixes (take i path) 1 @ [take i path]\<rparr>)
         in case opened of
              None \<Rightarrow> st2
            | Some lines \<Rightarrow> st2\<lparr>log_file_open := True, file_lines := lines\<rparr>))"

text \<open>The part of \<open>log\<close> that writes the file: the rotation renames it and opens the path again; either may fail, and
  the result of \<open>rename\<close> is not looked at.\<close>

type_synonym rotation = "bool \<times> bool"

definition rotate :: "rotation \<Rightarrow> logger \<Rightarrow> logger" where
  "rotate io st =
     (if max_log_lines st \<le> current_log_lines st then
        (let st1 = (if fst io then st\<lparr>rotated_lines := file_lines st, file_lines := []\<rparr> else st)
         in st1\<lparr>log_file_open := snd io, current_log_lines := 0\<rparr>)
      else st)"

definition write_file :: "rotation \<Rightarrow> log_level \<Rightarrow> string \<Rightarrow> logger \<Rightarrow> logger" where
  "write_file io level formatted_msg st =
     (if log_file_open st then
        (let st1 = rotate io st in
         if log_file_open st1 then
           st1\<lparr>file_lines := file_lines st1 @ [formatted_msg],
               flushes := (if level = ERROR \<or> level = WARN then flushes st1 + 1 else flushes st1),
               current_log_lines := current_log_lines st1 + 1\<rparr>
         else st1)
      else st)"

definition format_msg :: "string \<Rightarrow> log_level \<Rightarrow> string \<Rightarrow> string" where
  "format_msg timestamp level msg = ''['' @ timestamp @ ''] ['' @ logLevelToString level @ ''] '' @ msg @ [LF]"

definition log :: "string \<Rightarrow> rotation \<Rightarrow> log_level \<Rightarrow> string \<Rightarrow> logger \<Rightarrow> logger" where
  "log timestamp io level msg st =
     (if level < current_level st then st
      else
        (let formatted_msg = format_msg timestamp level msg;
             pushed = log_buffer st @ [formatted_msg];
             st1 = st\<lparr>log_buffer := (if maxBufferSize < length pushed then tl pushed else pushed)\<rparr>;
             st2 = write_file io level formatted_msg st1
         in st2\<lparr>console := console st2 @ [color_code level @ formatted_msg @ CHR 0x1B # ''[0m'']\<rparr>))"

definition logger_info :: "string \<Rightarrow> rotation \<Rightarrow> string \<Rightarrow> logger \<Rightarrow> logger" where
  "logger_info timestamp io msg = log timestamp io INFO msg"

definition logger_warn :: "string \<Rightarrow> rotation \<Rightarrow> string \<Rightarrow> logger \<Rightarrow> logger" where
  "logger_warn timestamp io msg = log timestamp io WARN msg"

definition logger_error :: "string \<Rightarrow> rotation \<Rightarrow> string \<Rightarrow> logger \<Rightarrow> logger" where
  "logger_error timestamp io msg = log timestamp io ERROR msg"

definition logger_debug :: "string \<Rightarrow> rotation \<Rightarrow> string \<Rightarrow> logger \<Rightarrow> logger" where
  "logger_debug timestamp io msg = log timestamp io DEBUG msg"

definition logger_flush :: "logger \<Rightarrow> logger" where
  "logger_flush st = (if log_file_open st then st\<lparr>flushes := flushes st + 1\<rparr> else st)"

section \<open>Messages\<close>

text \<open>A message as the callers hand it over, with its time and what a rotation at this moment would do.\<close>

type_synonym log_call = "string \<times> rotation \<times> log_level \<times> string"

definition log_all :: "log_call list \<Rightarrow> logger \<Rightarrow> logger" where
  "log_all calls st = fold (\<lambda>(ts, re, level, msg). log ts re level msg) calls st"

text \<open>The abstract log: every message whose level is high enough, formatted, in order.\<close>

definition accepted :: "log_level \<Rightarrow> log_call list \<Rightarrow> string list" where
  "accepted threshold calls =
     map (\<lambda>(ts, re, level, msg). format_msg ts level msg)
       (filter (\<lambda>(ts, re, level, msg). threshold \<le> level) calls)"

definition last_n :: "nat \<Rightarrow> 'a list \<Rightarrow> 'a list" where
  "last_n n xs = drop (length xs - n) xs"

lemma push_last_n:
  assumes "length xs \<le> n" and "0 < n"
  shows "(if n < length (xs @ [x]) then tl (xs @ [x]) else xs @ [x]) = last_n n (xs @ [x])"
proof (cases "n = length xs")
  case True
  then show ?thesis using assms(2) by (cases xs) (auto simp: last_n_def)
qed (use assms in \<open>simp add: last_n_def\<close>)

lemma write_file_frame [simp]:
  "log_buffer (write_file r l m st) = log_buffer st"
  "current_level (write_file r l m st) = current_level st"
  "max_log_lines (write_file r l m st) = max_log_lines st"
  by (simp_all add: write_file_def rotate_def Let_def)

lemma log_frame [simp]:
  "current_level (log ts r l m st) = current_level st"
  "max_log_lines (log ts r l m st) = max_log_lines st"
  by (simp_all add: log_def Let_def)

lemma log_buffer_step:
  assumes "length (log_buffer st) \<le> maxBufferSize"
  shows "log_buffer (log ts r l m st) = last_n maxBufferSize (log_buffer st @ accepted (current_level st) [(ts, r, l, m)])"
proof (cases "l < current_level st")
  case False
  have "0 < maxBufferSize" by (simp add: maxBufferSize_def)
  from push_last_n [OF assms this, of "format_msg ts l m"] show ?thesis
    using False by (simp add: log_def Let_def accepted_def flip: not_less)
qed (use assms in \<open>simp add: log_def accepted_def last_n_def flip: not_less\<close>)

lemma last_n_append: "last_n n (last_n n xs @ ys) = last_n n (xs @ ys)"
proof (cases "length xs \<le> n")
  case False
  then show ?thesis by (simp add: last_n_def add.commute)
qed (simp add: last_n_def)

lemma length_last_n: "length (last_n n xs) \<le> n"
  by (simp add: last_n_def)

text \<open>The log file: between two rotations it grows by one line for every accepted message.\<close>

definition file_ok :: "logger \<Rightarrow> bool" where
  "file_ok st \<longleftrightarrow> length (file_lines st) = current_log_lines st \<and> current_log_lines st \<le> max 1 (max_log_lines st)"

lemma log_file_ok: "file_ok st \<Longrightarrow> fst r \<Longrightarrow> file_ok (log ts r l m st)"
  by (auto simp: file_ok_def log_def write_file_def rotate_def Let_def)

text \<open>
  C37: The recent messages that the API serves are the last hundred. Whatever is logged, the ring holds the last 100 of the messages
  whose level reached the threshold, formatted and in order, after those it held before.
\<close>

theorem recent_logs_refine:
  assumes "length (log_buffer st) \<le> 100"
  shows "getRecentLogs (log_all calls st) = last_n 100 (log_buffer st @ accepted (current_level st) calls)"
  using assms
proof (induction calls arbitrary: st)
  case Nil
  then show ?case by (simp add: getRecentLogs_def log_all_def accepted_def last_n_def)
next
  case (Cons c calls)
  obtain ts r l m where c: "c = (ts, r, l, m)" by (cases c) auto
  let ?st = "log ts r l m st"
  have b: "log_buffer ?st = last_n 100 (log_buffer st @ accepted (current_level st) [c])"
    using log_buffer_step [of st ts r l m] Cons.prems by (simp add: c maxBufferSize_def)
  have "accepted t (c # calls) = accepted t [c] @ accepted t calls" for t by (simp add: accepted_def)
  moreover have "getRecentLogs (log_all calls ?st) = last_n 100 (log_buffer ?st @ accepted (current_level st) calls)"
    using Cons.IH [of ?st] unfolding b by (simp add: length_last_n)
  ultimately show ?case by (simp add: b last_n_append log_all_def c)
qed

definition example_logger :: logger where
  "example_logger = \<lparr>current_level = INFO, log_buffer = [], log_file_open = False, log_file_path = [], max_log_lines = 10000,
     current_log_lines = 0, file_lines = [], rotated_lines = [], created_dirs = [], flushes = 0, console = []\<rparr>"

theorem recent_logs_refine_witness:
  "getRecentLogs (log_all [(''t'', (True, True), DEBUG, ''a''), (''t'', (True, True), WARN, ''b'')] example_logger) =
     [format_msg ''t'' WARN ''b'']"
  using recent_logs_refine [of example_logger "[(''t'', (True, True), DEBUG, ''a''), (''t'', (True, True), WARN, ''b'')]"]
  by (simp add: example_logger_def accepted_def last_n_def less_eq_log_level_def)

text \<open>
  The log file is bounded. When logging starts on an empty file with a limit of \<open>n\<close> lines and the file can be renamed, it never
  holds more than \<open>n\<close> lines (one line when \<open>n\<close> is 0), whatever is logged and whether or not it can be opened again after a
  rotation.
\<close>

theorem log_file_bounded:
  assumes "path \<noteq> []" and "\<forall>c \<in> set calls. fst (fst (snd c))"
  shows "length (file_lines (log_all calls (logger_setLogFile (Some []) path n st))) \<le> max 1 n"
proof -
  have "file_ok (log_all calls st')" if "file_ok st'" for st'
    using that assms(2) by (induction calls arbitrary: st') (auto simp: log_all_def log_file_ok)
  moreover have "max_log_lines (log_all calls st') = max_log_lines st'" for st'
    by (induction calls arbitrary: st') (auto simp: log_all_def)
  moreover have "file_ok (logger_setLogFile (Some []) path n st)" "max_log_lines (logger_setLogFile (Some []) path n st) = n"
    using assms(1) by (auto simp: logger_setLogFile_def Let_def file_ok_def split: option.split)
  ultimately show ?thesis unfolding file_ok_def by metis
qed

theorem log_file_bounded_witness:
  "length (file_lines (log_all [(''t'', (True, True), WARN, ''a''), (''t'', (True, True), WARN, ''b'')]
     (logger_setLogFile (Some []) ''/var/log/rtsproxy.log'' 1 example_logger))) \<le> 1"
  using log_file_bounded [of "''/var/log/rtsproxy.log''" "[(''t'', (True, True), WARN, ''a''), (''t'', (True, True), WARN, ''b'')]" 1]
  by simp

end
