(* ===== verification/Json_Roundtrip.thy ===== *)
theory Json_Roundtrip
  imports Json_Parse Inet
begin

text \<open>
  What the serializer of the JSON library writes, its parser reads back: strings through their escapes and the UTF-8 tables of both
  sides, integers through their digits, arrays and objects through the stack of the parser.
\<close>

section \<open>Strings\<close>

lemma hex_value_digit: "n < 16 \<Longrightarrow> hex_value (hex_digit n) = Some n"
  by (auto simp: hex_value_def hex_digit_def Let_def)

lemma codepoint_digits:
  assumes "n < 0x10000"
  shows "get_codepoint (drop 2 (u_escape n) @ s) = Some (n, s)"
proof -
  have t: "n div 4096 mod 16 = n div 4096" "n div 4096 < 16" using assms by simp_all
  have "n div 4096 * 4096 + n div 256 mod 16 * 256 + n div 16 mod 16 * 16 + n mod 16 = n"
    using mod_mult2_eq [of n 16 16] mod_mult2_eq [of n 256 16] div_mult_mod_eq [of n 4096]
    by (simp add: div_mult2_eq [symmetric])
  then show ?thesis
    by (simp add: get_codepoint_def u_escape_def hex_value_digit push_bit_eq_mult t)
qed

lemma escape_control:
  assumes "(of_char c :: nat) \<le> 0x1F"
  shows "scan_escape (tl (u_escape (of_char c)) @ s) = Some ([c], s)"
proof -
  have "tl (u_escape (of_char c)) @ s = CHR ''u'' # drop 2 (u_escape (of_char c)) @ s" by (simp add: u_escape_def)
  moreover have "get_codepoint (drop 2 (u_escape (of_char c)) @ s) = Some (of_char c, s)"
    by (rule codepoint_digits) (use assms in simp)
  ultimately show ?thesis
    using assms by (simp add: scan_escape_def unicode_escape_def encode_codepoint_def)
qed

lemma special_chars:
  "(of_char c :: nat) = 0x08 \<longleftrightarrow> c = CHR 0x08" "(of_char c :: nat) = 0x09 \<longleftrightarrow> c = CHR 0x09" "(of_char c :: nat) = 0x0A \<longleftrightarrow> c = CHR 0x0A"
  "(of_char c :: nat) = 0x0C \<longleftrightarrow> c = CHR 0x0C" "(of_char c :: nat) = 0x0D \<longleftrightarrow> c = CHR 0x0D" "(of_char c :: nat) = 0x22 \<longleftrightarrow> c = CHR 0x22"
  "(of_char c :: nat) = 0x5C \<longleftrightarrow> c = CHR 0x5C"
  using of_char_eq_iff [where 'a = nat, of c "CHR 0x08"] of_char_eq_iff [where 'a = nat, of c "CHR 0x09"]
    of_char_eq_iff [where 'a = nat, of c "CHR 0x0A"] of_char_eq_iff [where 'a = nat, of c "CHR 0x0C"]
    of_char_eq_iff [where 'a = nat, of c "CHR 0x0D"] of_char_eq_iff [where 'a = nat, of c "CHR 0x22"]
    of_char_eq_iff [where 'a = nat, of c "CHR 0x5C"]
  by (simp_all del: of_char_eq_iff)

lemma escape_code_cases:
  assumes "n < 0x80"
  shows "escape_code (of_nat n) c =
    (if n = 0x08 then [CHR 0x5C, CHR ''b''] else if n = 0x09 then [CHR 0x5C, CHR ''t''] else if n = 0x0A then [CHR 0x5C, CHR ''n'']
     else if n = 0x0C then [CHR 0x5C, CHR ''f''] else if n = 0x0D then [CHR 0x5C, CHR ''r''] else if n = 0x22 then [CHR 0x5C, CHR 0x22]
     else if n = 0x5C then [CHR 0x5C, CHR 0x5C] else if n \<le> 0x1F then u_escape n else [c])"
proof -
  have u: "unat (of_nat n :: u32) = n" using assms by (simp add: unat_of_nat)
  have "((of_nat n :: u32) = k) = (n = unat k)" "((of_nat n :: u32) \<le> k) = (n \<le> unat k)" for k
    using u by (auto simp: word_unat_eq_iff word_le_nat_alt)
  then show ?thesis by (simp add: escape_code_def u)
qed

lemma scan_ascii:
  assumes "(of_char c :: nat) < 0x80"
  shows "scan_string b (escape_code (of_nat (of_char c)) c @ s) = scan_string (b @ [c]) s"
proof -
  let ?n = "of_char c :: nat"
  consider "?n = 0x08" | "?n = 0x09" | "?n = 0x0A" | "?n = 0x0C" | "?n = 0x0D" | "?n = 0x22" | "?n = 0x5C"
    | (control) "?n \<le> 0x1F" "?n \<notin> {0x08, 0x09, 0x0A, 0x0C, 0x0D}"
    | (plain) "0x20 \<le> ?n" "?n \<notin> {0x22, 0x5C}"
    by fastforce
  then show ?thesis
  proof cases
    case control
    then have "escape_code (of_nat ?n) c = CHR 0x5C # tl (u_escape ?n)"
      by (simp add: escape_code_cases [OF assms]) (simp add: u_escape_def)
    then show ?thesis using escape_control [OF control(1), of s] by simp
  next
    case plain
    then have "escape_code (of_nat ?n) c = [c]" by (simp add: escape_code_cases [OF assms])
    moreover have "c \<noteq> CHR 0x22" "c \<noteq> CHR 0x5C" using plain by auto
    ultimately show ?thesis using plain assms by simp
  qed (simp_all add: special_chars escape_code_def scan_escape_def)
qed

lemma range_three:
  assumes "utf8_bytes [a, b, c]"
  obtains lo hi where "utf8_ranges a = Some [(lo, hi), (0x80, 0xBF)]" "lo \<le> b" "b \<le> hi"
proof -
  consider "a = 0xE0" "0xA0 \<le> b" "b \<le> 0xBF" | "a = 0xED" "0x80 \<le> b" "b \<le> 0x9F"
    | "0xE1 \<le> a \<and> a \<le> 0xEC \<or> a = 0xEE \<or> a = 0xEF" "utf8_tail b"
    using assms by fastforce
  then show thesis by cases (auto simp: utf8_ranges_def utf8_tail_def intro: that)
qed

lemma scan_char:
  assumes "utf8_char w"
  shows "scan_string b (escape_char w @ s) = scan_string (b @ w) s"
  using assms
proof (cases rule: utf8_char_cases)
  case (one a)
  then show ?thesis by (simp add: escape_char_def scan_ascii)
next
  case (two x y)
  then have "x \<noteq> CHR 0x22" "x \<noteq> CHR 0x5C" "utf8_ranges (of_char x) = Some [(0x80, 0xBF)]" "\<not> (of_char x :: nat) < 0x80"
    by (auto simp: utf8_ranges_def)
  then show ?thesis using two by (simp add: escape_char_def utf8_tail_def)
next
  case (three x y z)
  then have "x \<noteq> CHR 0x22" "x \<noteq> CHR 0x5C" "\<not> (of_char x :: nat) < 0x80" by auto
  moreover obtain lo hi where "utf8_ranges (of_char x) = Some [(lo, hi), (0x80, 0xBF)]" "lo \<le> of_char y" "of_char y \<le> hi"
    using three(2) range_three by blast
  ultimately show ?thesis using three by (simp add: escape_char_def utf8_tail_def)
next
  case (four x y z u)
  then have "x \<noteq> CHR 0x22" "x \<noteq> CHR 0x5C" "\<not> (of_char x :: nat) < 0x80" by auto
  moreover obtain lo hi where "utf8_ranges (of_char x) = Some [(lo, hi), (0x80, 0xBF), (0x80, 0xBF)]" "lo \<le> of_char y" "of_char y \<le> hi"
    using four(2) by (auto simp: utf8_ranges_def utf8_tail_def)
  ultimately show ?thesis using four by (simp add: escape_char_def utf8_tail_def)
qed

lemma scan_chars:
  "list_all utf8_char ws \<Longrightarrow> scan_string b (concat (map escape_char ws) @ CHR 0x22 # s) = Some (b @ concat ws, s)"
proof (induction ws arbitrary: b)
  case Nil
  then show ?case by simp
next
  case (Cons w ws)
  then show ?case using scan_char [of w b "concat (map escape_char ws) @ CHR 0x22 # s"] by simp
qed

text \<open>A string that is UTF-8 is written, and what is written between quotes is read back as the string.\<close>

lemma string_text:
  assumes "utf8 v"
  obtains t where "dump_escaped v = Inr t" "\<And>s. scan_string [] (t @ CHR 0x22 # s) = Some (v, s)"
proof -
  obtain ws where ws: "list_all utf8_char ws" "v = concat ws" using utf8_chars [OF assms] by blast
  show thesis
    by (rule that [of "concat (map escape_char ws)"]) (simp_all add: ws dump_escaped_chars [OF ws(1)] scan_chars [OF ws(1)])
qed

section \<open>Numbers\<close>

definition ends_number :: "string \<Rightarrow> bool" where
  "ends_number s \<longleftrightarrow> (case s of [] \<Rightarrow> True | c # cs \<Rightarrow> \<not> c_isdigit c \<and> c \<noteq> CHR ''.'' \<and> \<not> to_exponent c)"

lemma any1_stops: "ends_number s \<Longrightarrow> number_loop Any1 ty b s = Some (ty, b, s)"
  by (cases s) (auto simp: ends_number_def number_at_def settle_type_def to_exponent_def c_isdigit_def)

lemma zero_stops: "ends_number s \<Longrightarrow> number_loop Zero ty b s = Some (ty, b, s)"
  by (cases s) (auto simp: ends_number_def number_at_def settle_type_def to_exponent_def)

lemma any1_digits:
  "\<forall>c \<in> set ds. c_isdigit c \<Longrightarrow> ends_number s \<Longrightarrow> number_loop Any1 ty b (ds @ s) = Some (ty, b @ ds, s)"
proof (induction ds arbitrary: b)
  case Nil
  then show ?case by (simp add: any1_stops)
next
  case (Cons d ds)
  then show ?case by (simp add: settle_type_def)
qed

lemma to_string_shape:
  obtains d ds where "to_string n = d # ds" "c_isdigit d" "\<forall>c \<in> set ds. c_isdigit c" "d = CHR ''0'' \<Longrightarrow> ds = []"
proof -
  obtain d ds where "to_string n = d # ds" by (cases "to_string n") auto
  with to_string_digits [of n] to_string_Cons_zero [of n] that show thesis by auto
qed

lemma scan_unsigned:
  assumes "ends_number s" and "to_string n = d # ds"
  shows "number_loop (if d = CHR ''0'' then Zero else Any1) ty (b @ [d]) (ds @ s) = Some (ty, b @ d # ds, s)"
proof -
  have "d = CHR ''0'' \<Longrightarrow> ds = []" "\<forall>c \<in> set ds. c_isdigit c"
    using assms(2) to_string_Cons_zero [of n] to_string_digits [of n] by auto
  then show ?thesis using zero_stops [OF assms(1)] any1_digits [OF _ assms(1), of ds ty "b @ [d]"] by auto
qed

section \<open>Tokens\<close>

lemma skip_none: "\<not> json_space c \<Longrightarrow> c \<noteq> CHR ''/'' \<Longrightarrow> skip_blank ic (c # s) = Some (c # s)"
  by (simp add: skip_blank.simps [of ic "c # s"])

lemma scan_punctuation [simp]:
  "scan sd ic (CHR ''['' # s) = (BeginArray, s)" "scan sd ic (CHR '']'' # s) = (EndArray, s)"
  "scan sd ic (CHR ''{'' # s) = (BeginObject, s)" "scan sd ic (CHR ''}'' # s) = (EndObject, s)"
  "scan sd ic (CHR '':'' # s) = (NameSeparator, s)" "scan sd ic (CHR '','' # s) = (ValueSeparator, s)"
  by (simp_all add: scan_def skip_none json_space_def)

lemma scan_literals [simp]:
  "scan sd ic (CHR ''t'' # ''rue'' @ s) = (LiteralTrue, s)" "scan sd ic (CHR ''f'' # ''alse'' @ s) = (LiteralFalse, s)"
  "scan sd ic (CHR ''n'' # ''ull'' @ s) = (LiteralNull, s)"
  by (simp_all add: scan_def skip_none json_space_def scan_literal_def)

lemma scan_quoted: "scan_string [] (t @ CHR 0x22 # s) = Some (v, s) \<Longrightarrow> scan sd ic (CHR 0x22 # t @ CHR 0x22 # s) = (ValueString v, s)"
  by (simp add: scan_def skip_none json_space_def)

lemma digit_free_space: "c_isdigit c \<Longrightarrow> \<not> json_space c \<and> c \<noteq> CHR ''/'' \<and> c \<notin> set ''[]{}:,tfn-'' \<and> c \<noteq> CHR 0x22"
  by (auto simp: json_space_def c_isdigit_def)

lemma scan_integer:
  assumes "- (2 ^ 63) \<le> i" and "i < 2 ^ 64" and "ends_number s"
  shows "scan sd ic (dump_integer i @ s) = (if i < 0 then ValueInteger i else ValueUnsigned (nat i), s)"
proof (cases "i < 0")
  case True
  obtain d ds where t: "to_string (nat (- i)) = d # ds" "c_isdigit d" by (rule to_string_shape)
  have n: "nat_of_digits (d # ds) = nat (- i)" using nat_of_digits_to_string [of "nat (- i)"] by (simp add: t(1))
  have le: "nat (- i) \<le> 2 ^ 63" using assms(1) by (simp add: nat_le_iff)
  have "number_loop Minus Unsigned_Number ''-'' (d # ds @ s) = Some (Integer_Number, CHR ''-'' # d # ds, s)"
    using scan_unsigned [OF assms(3) t(1), of Integer_Number "''-''"] t(2) by (auto simp: settle_type_def)
  then have "scan_number sd (CHR ''-'') (d # ds @ s) = (ValueInteger i, s)"
    using True le by (simp add: scan_number_def number_token_def n)
  then show ?thesis using True by (simp add: dump_integer_text t(1) scan_def skip_none json_space_def)
next
  case False
  obtain d ds where t: "to_string (nat i) = d # ds" "c_isdigit d" by (rule to_string_shape)
  have n: "nat_of_digits (d # ds) = nat i" using nat_of_digits_to_string [of "nat i"] by (simp add: t(1))
  have lt: "nat i < 2 ^ 64" using assms(2) False by (simp add: nat_less_iff)
  note sp = digit_free_space [OF t(2)]
  have "number_loop (if d = CHR ''0'' then Zero else Any1) Unsigned_Number [d] (ds @ s) = Some (Unsigned_Number, d # ds, s)"
    using scan_unsigned [OF assms(3) t(1), of Unsigned_Number "[]"] by simp
  then have "scan_number sd d (ds @ s) = (ValueUnsigned (nat i), s)"
    using lt sp by (simp add: scan_number_def number_token_def n)
  then show ?thesis using False sp t(2) by (simp add: dump_integer_text t(1) scan_def skip_none)
qed

section \<open>Values\<close>

lemma key_less_irrefl: "\<not> key_less k k"
  by (induction k) auto

lemma key_less_asym: "key_less j k \<Longrightarrow> \<not> key_less k j"
  by (induction j k rule: key_less.induct) auto

lemma object_put_last: "\<forall>m \<in> set ms. key_less (fst m) k \<Longrightarrow> object_put k v ms = ms @ [(k, v)]"
  using key_less_irrefl key_less_asym by (induction ms) fastforce+

text \<open>Values the library can hold and write: text in UTF-8, integers of 64 bits, the keys of an object sorted.\<close>

inductive printable :: "json \<Rightarrow> bool" where
  print_null: "printable JNull"
| print_bool: "printable (JBool b)"
| print_int: "- (2 ^ 63) \<le> i \<Longrightarrow> i < 2 ^ 64 \<Longrightarrow> printable (JInt i)"
| print_str: "utf8 s \<Longrightarrow> printable (JStr s)"
| print_arr: "\<forall>x \<in> set xs. printable x \<Longrightarrow> printable (JArr xs)"
| print_obj: "sorted_wrt key_less (map fst ms) \<Longrightarrow> \<forall>m \<in> set ms. utf8 (fst m) \<and> printable (snd m) \<Longrightarrow> printable (JObj ms)"

inductive_cases printable_strE: "printable (JStr s)"

text \<open>A text that the parser reads as a value, whatever follows it that does not go on with a number.\<close>

definition reads :: "(string \<Rightarrow> int option) \<Rightarrow> bool \<Rightarrow> string \<Rightarrow> json \<Rightarrow> bool" where
  "reads sd ic t v \<longleftrightarrow> (\<forall>rest st. ends_number rest \<longrightarrow> (\<exists>tok r. scan sd ic (t @ rest) = (tok, r) \<and> tok \<noteq> EndArray \<and>
     parse_value sd ic tok r st = after_value sd ic v rest st))"

lemma readsI: "(\<And>rest st. ends_number rest \<Longrightarrow> \<exists>tok r. scan sd ic (t @ rest) = (tok, r) \<and> tok \<noteq> EndArray \<and>
     parse_value sd ic tok r st = after_value sd ic v rest st) \<Longrightarrow> reads sd ic t v"
  by (simp add: reads_def)

lemma readsE:
  assumes "reads sd ic t v" and "ends_number rest"
  obtains tok r where "scan sd ic (t @ rest) = (tok, r)" "tok \<noteq> EndArray" "parse_value sd ic tok r st = after_value sd ic v rest st"
  using assms unfolding reads_def by blast

lemma ends_punctuation [simp]: "ends_number (CHR '','' # s)" "ends_number (CHR '']'' # s)" "ends_number (CHR ''}'' # s)" "ends_number []"
  by (simp_all add: ends_number_def to_exponent_def c_isdigit_def)

lemma elements_read:
  assumes "\<forall>x \<in> set xs. \<exists>t. dump ft x = Inr t \<and> reads sd ic t x" and "xs \<noteq> []"
  shows "\<exists>t. dump_elements ft xs = Inr t \<and> (\<forall>ys rest st. \<exists>tok r. scan sd ic (t @ CHR '']'' # rest) = (tok, r) \<and> tok \<noteq> EndArray \<and>
    parse_value sd ic tok r (InArray ys # st) = after_value sd ic (JArr (ys @ xs)) rest st)"
  using assms
proof (induction xs)
  case Nil
  then show ?case by simp
next
  case (Cons x xs)
  obtain t where t: "dump ft x = Inr t" "reads sd ic t x" using Cons.prems by auto
  show ?case
  proof (cases "xs = []")
    case True
    have "\<exists>tok r. scan sd ic (t @ CHR '']'' # rest) = (tok, r) \<and> tok \<noteq> EndArray \<and>
      parse_value sd ic tok r (InArray ys # st) = after_value sd ic (JArr (ys @ [x])) rest st" for ys rest st
      by (rule readsE [OF t(2), of "CHR '']'' # rest" "InArray ys # st"]) auto
    then show ?thesis using t(1) True by simp
  next
    case False
    obtain ts where ts: "dump_elements ft xs = Inr ts"
      and rd: "\<And>ys rest st. \<exists>tok r. scan sd ic (ts @ CHR '']'' # rest) = (tok, r) \<and> tok \<noteq> EndArray \<and>
        parse_value sd ic tok r (InArray ys # st) = after_value sd ic (JArr (ys @ xs)) rest st"
      using Cons.IH [OF _ False] Cons.prems(1) by auto
    have "\<exists>tok r. scan sd ic ((t @ '','' @ ts) @ CHR '']'' # rest) = (tok, r) \<and> tok \<noteq> EndArray \<and>
      parse_value sd ic tok r (InArray ys # st) = after_value sd ic (JArr (ys @ x # xs)) rest st" for ys rest st
    proof -
      obtain tok r where a: "scan sd ic (t @ CHR '','' # ts @ CHR '']'' # rest) = (tok, r)" "tok \<noteq> EndArray"
        "parse_value sd ic tok r (InArray ys # st) = after_value sd ic x (CHR '','' # ts @ CHR '']'' # rest) (InArray ys # st)"
        by (rule readsE [OF t(2), of "CHR '','' # ts @ CHR '']'' # rest" "InArray ys # st"]) auto
      obtain tok' r' where b: "scan sd ic (ts @ CHR '']'' # rest) = (tok', r')"
        "parse_value sd ic tok' r' (InArray (ys @ [x]) # st) = after_value sd ic (JArr ((ys @ [x]) @ xs)) rest st"
        using rd [of rest "ys @ [x]" st] by blast
      show ?thesis using a b by simp
    qed
    then show ?thesis using t(1) ts False by auto
  qed
qed

text \<open>A member: the key between quotes, a colon and the value.\<close>

lemma member_read:
  assumes "utf8 k" and "dump ft v = Inr t" and "reads sd ic t v" and "ends_number rest"
  obtains kt s1 s2 tok r where "dump_escaped k = Inr kt"
    "scan sd ic ((CHR 0x22 # kt @ [CHR 0x22] @ '':'' @ t) @ rest) = (ValueString k, s1)" "scan sd ic s1 = (NameSeparator, s2)"
    "scan sd ic s2 = (tok, r)" "parse_value sd ic tok r st = after_value sd ic v rest st"
proof -
  obtain kt where kt: "dump_escaped k = Inr kt" "\<And>s. scan_string [] (kt @ CHR 0x22 # s) = Some (k, s)"
    by (rule string_text [OF assms(1)]) blast
  obtain tok r where v: "scan sd ic (t @ rest) = (tok, r)" "parse_value sd ic tok r st = after_value sd ic v rest st"
    by (rule readsE [OF assms(3,4)])
  show thesis
    by (rule that [of kt "CHR '':'' # t @ rest" "t @ rest", OF kt(1) _ _ v(1,2)]) (simp_all add: scan_quoted [OF kt(2)])
qed

lemma members_read:
  assumes "\<forall>m \<in> set ms. utf8 (fst m) \<and> (\<exists>t. dump ft (snd m) = Inr t \<and> reads sd ic t (snd m))" and "ms \<noteq> []"
    and "sorted_wrt key_less (map fst ms)"
  shows "\<exists>t. dump_members ft ms = Inr t \<and> (\<forall>acc rest st. (\<forall>a \<in> set acc. \<forall>m \<in> set ms. key_less (fst a) (fst m)) \<longrightarrow>
    (\<exists>k s1 s2 tok r. scan sd ic (t @ CHR ''}'' # rest) = (ValueString k, s1) \<and> scan sd ic s1 = (NameSeparator, s2) \<and>
      scan sd ic s2 = (tok, r) \<and> parse_value sd ic tok r (InObject acc k # st) = after_value sd ic (JObj (acc @ ms)) rest st))"
  using assms
proof (induction ms)
  case Nil
  then show ?case by simp
next
  case (Cons m ms)
  obtain k v where m: "m = (k, v)" by (cases m)
  obtain t where t: "utf8 k" "dump ft v = Inr t" "reads sd ic t v" using Cons.prems(1) m by auto
  show ?case
  proof (cases "ms = []")
    case True
    obtain kt where kt: "dump_escaped k = Inr kt" by (rule string_text [OF t(1)])
    have "\<exists>k' s1 s2 tok r. scan sd ic ((CHR 0x22 # kt @ [CHR 0x22] @ '':'' @ t) @ CHR ''}'' # rest) = (ValueString k', s1) \<and>
      scan sd ic s1 = (NameSeparator, s2) \<and> scan sd ic s2 = (tok, r) \<and>
      parse_value sd ic tok r (InObject acc k' # st) = after_value sd ic (JObj (acc @ [(k, v)])) rest st"
      if "\<forall>a \<in> set acc. key_less (fst a) k" for acc rest st
      by (rule member_read [OF t, of "CHR ''}'' # rest" "InObject acc k # st"]) (use kt object_put_last [OF that] in auto)
    then show ?thesis using kt t(2) m True by (auto simp: Let_def)
  next
    case False
    let ?m = "\<lambda>kt. CHR 0x22 # kt @ [CHR 0x22] @ '':'' @ t"
    obtain kt where kt: "dump_escaped k = Inr kt" by (rule string_text [OF t(1)])
    obtain ts where ts: "dump_members ft ms = Inr ts"
      and rd: "\<And>acc rest st. \<forall>a \<in> set acc. \<forall>m \<in> set ms. key_less (fst a) (fst m) \<Longrightarrow>
        \<exists>k s1 s2 tok r. scan sd ic (ts @ CHR ''}'' # rest) = (ValueString k, s1) \<and> scan sd ic s1 = (NameSeparator, s2) \<and>
          scan sd ic s2 = (tok, r) \<and> parse_value sd ic tok r (InObject acc k # st) = after_value sd ic (JObj (acc @ ms)) rest st"
      using Cons.IH [OF _ False] Cons.prems(1,3) by auto
    have "\<exists>k' s1 s2 tok r. scan sd ic ((?m kt @ '','' @ ts) @ CHR ''}'' # rest) = (ValueString k', s1) \<and>
      scan sd ic s1 = (NameSeparator, s2) \<and> scan sd ic s2 = (tok, r) \<and>
      parse_value sd ic tok r (InObject acc k' # st) = after_value sd ic (JObj (acc @ m # ms)) rest st"
      if acc: "\<forall>a \<in> set acc. \<forall>m' \<in> set (m # ms). key_less (fst a) (fst m')" for acc rest st
    proof -
      have put: "object_put k v acc = acc @ [m]" using object_put_last [of acc k v] acc m by simp
      have "\<forall>a \<in> set (acc @ [m]). \<forall>m \<in> set ms. key_less (fst a) (fst m)" using acc Cons.prems(3) m by auto
      then obtain k2 s1 s2 tok r where b: "scan sd ic (ts @ CHR ''}'' # rest) = (ValueString k2, s1)" "scan sd ic s1 = (NameSeparator, s2)"
          "scan sd ic s2 = (tok, r)"
          "parse_value sd ic tok r (InObject (acc @ [m]) k2 # st) = after_value sd ic (JObj ((acc @ [m]) @ ms)) rest st"
        using rd by blast
      show ?thesis
        by (rule member_read [OF t, of "CHR '','' # ts @ CHR ''}'' # rest" "InObject acc k # st"]) (use kt b put in auto)
    qed
    then show ?thesis using kt t(2) ts m False by (auto simp: Let_def)
  qed
qed

lemma printable_reads: "printable v \<Longrightarrow> \<exists>t. dump ft v = Inr t \<and> reads sd ic t v"
proof (induction rule: printable.induct)
  case print_null
  have "reads sd ic ''null'' JNull" by (rule readsI) (simp add: scan_literals(3) [simplified])
  then show ?case by simp
next
  case (print_bool b)
  have "reads sd ic (if b then ''true'' else ''false'') (JBool b)"
    by (rule readsI) (simp add: scan_literals(1,2) [simplified])
  then show ?case by simp
next
  case (print_int i)
  have "reads sd ic (dump_integer i) (JInt i)" by (rule readsI) (simp add: scan_integer [OF print_int])
  then show ?case by simp
next
  case (print_str s)
  obtain t where t: "dump_escaped s = Inr t" "\<And>r. scan_string [] (t @ CHR 0x22 # r) = Some (s, r)"
    by (rule string_text [OF print_str]) blast
  have "reads sd ic (CHR 0x22 # t @ [CHR 0x22]) (JStr s)" by (rule readsI) (simp add: scan_quoted [OF t(2)])
  then show ?case by (simp add: t(1))
next
  case (print_arr xs)
  show ?case
  proof (cases "xs = []")
    case True
    have "reads sd ic ''[]'' (JArr [])" by (rule readsI) simp
    then show ?thesis by (simp add: True)
  next
    case False
    have "\<forall>x \<in> set xs. \<exists>t. dump ft x = Inr t \<and> reads sd ic t x" using print_arr by blast
    from elements_read [OF this False] obtain t where t: "dump_elements ft xs = Inr t"
      and rd: "\<And>ys rest st. \<exists>tok r. scan sd ic (t @ CHR '']'' # rest) = (tok, r) \<and> tok \<noteq> EndArray \<and>
        parse_value sd ic tok r (InArray ys # st) = after_value sd ic (JArr (ys @ xs)) rest st"
      by blast
    have "reads sd ic (CHR ''['' # t @ '']'') (JArr xs)"
    proof (rule readsI)
      fix rest st
      obtain tok r where b: "scan sd ic (t @ CHR '']'' # rest) = (tok, r)" "tok \<noteq> EndArray"
          "parse_value sd ic tok r (InArray [] # st) = after_value sd ic (JArr xs) rest st"
        using rd [of rest "[]" st] by auto
      have "parse_value sd ic BeginArray (t @ CHR '']'' # rest) st = after_value sd ic (JArr xs) rest st"
        using b by (cases tok) simp_all
      then show "\<exists>tok r. scan sd ic ((CHR ''['' # t @ '']'') @ rest) = (tok, r) \<and> tok \<noteq> EndArray \<and>
          parse_value sd ic tok r st = after_value sd ic (JArr xs) rest st"
        by simp
    qed
    then show ?thesis using t False by simp
  qed
next
  case (print_obj ms)
  show ?case
  proof (cases "ms = []")
    case True
    have "reads sd ic ''{}'' (JObj [])" by (rule readsI) simp
    then show ?thesis by (simp add: True)
  next
    case False
    have "\<forall>m \<in> set ms. utf8 (fst m) \<and> (\<exists>t. dump ft (snd m) = Inr t \<and> reads sd ic t (snd m))" using print_obj(2) by blast
    from members_read [OF this False print_obj(1)] obtain t where t: "dump_members ft ms = Inr t"
      and rd: "\<And>rest st. \<exists>k s1 s2 tok r. scan sd ic (t @ CHR ''}'' # rest) = (ValueString k, s1) \<and> scan sd ic s1 = (NameSeparator, s2) \<and>
        scan sd ic s2 = (tok, r) \<and> parse_value sd ic tok r (InObject [] k # st) = after_value sd ic (JObj ms) rest st"
      by (metis append_Nil empty_iff list.set(1))
    have "reads sd ic (CHR ''{'' # t @ ''}'') (JObj ms)"
    proof (rule readsI)
      fix rest st
      have "parse_value sd ic BeginObject (t @ CHR ''}'' # rest) st = after_value sd ic (JObj ms) rest st"
        using rd [of rest st] by auto
      then show "\<exists>tok r. scan sd ic ((CHR ''{'' # t @ ''}'') @ rest) = (tok, r) \<and> tok \<noteq> EndArray \<and>
          parse_value sd ic tok r st = after_value sd ic (JObj ms) rest st"
        by simp
    qed
    then show ?thesis using t False by simp
  qed
qed

lemma dump_head: "printable v \<Longrightarrow> dump ft v = Inr t \<Longrightarrow> \<exists>c cs. t = c # cs \<and> c \<noteq> CHR 0xEF"
proof (induction rule: printable.cases)
  case (print_int i)
  obtain d ds where d: "to_string (nat i) = d # ds" "c_isdigit d" by (rule to_string_shape)
  then have "d \<noteq> CHR 0xEF" by (auto simp: c_isdigit_def)
  with d print_int show ?case by (auto simp: dump_integer_text split: if_splits)
qed (auto simp: throwing_Inr split: if_splits)

text \<open>
  C29: What the library writes it reads back. A value without floats, whose texts are UTF-8, whose integers fit 64 bits and
  whose objects have their keys sorted, is always written, and parsing the text, with or without the treatment of comments, gives
  exactly the value.
\<close>

theorem json_roundtrip:
  assumes "printable v"
  shows "\<exists>t. dump ft v = Inr t \<and> json_parse sd ic t = Inr v"
proof -
  obtain t where t: "dump ft v = Inr t" "reads sd ic t v" using printable_reads [OF assms] by blast
  obtain tok r where p: "scan sd ic t = (tok, r)" "parse_value sd ic tok r [] = after_value sd ic v [] []"
    by (rule readsE [OF t(2), of "[]" "[]"]) auto
  have e: "scan sd ic [] = (EndOfInput, [])" by (simp add: scan_def skip_blank.simps [of ic "[]"])
  have "skip_bom t = Some t" using dump_head [OF assms t(1)] by (auto simp: skip_bom_def)
  then show ?thesis using t(1) p e by (simp add: json_parse_def)
qed

definition example_value :: json where
  "example_value = JObj [(''level'', JInt 2), (''logs'', JArr [JStr ''a'', JNull, JBool True, JInt (-7)])]"

lemma example_text:
  "dump (\<lambda>i. []) example_value =
     Inr (''{'' @ [CHR 0x22] @ ''level'' @ [CHR 0x22] @ '':2,'' @ [CHR 0x22] @ ''logs'' @ [CHR 0x22] @ '':['' @ [CHR 0x22] @ ''a'' @
       [CHR 0x22] @ '',null,true,-7]}'')"
  by code_simp

lemma example_printable: "printable example_value"
proof -
  have "utf8 ''level''" "utf8 ''logs''" "utf8 ''a''" by (rule ascii_utf8, simp)+
  then show ?thesis
    by (auto simp: example_value_def intro!: print_obj print_arr print_int print_str print_null print_bool)
qed

theorem json_roundtrip_witness:
  "json_parse (\<lambda>_. None) True (''{'' @ [CHR 0x22] @ ''level'' @ [CHR 0x22] @ '':2,'' @ [CHR 0x22] @ ''logs'' @ [CHR 0x22] @ '':['' @
     [CHR 0x22] @ ''a'' @ [CHR 0x22] @ '',null,true,-7]}'') = Inr example_value"
  using json_roundtrip [OF example_printable, of "\<lambda>i. []" "\<lambda>_. None" True] unfolding example_text by simp

end
