(* ===== verification/Handlers.thy ===== *)
theory Handlers
  imports Sessions Blacklist Statistics Logger Json_Roundtrip
begin

text \<open>
  \<open>src/handlers\<close>: what happens to a new connection. \<open>MasterHandle\<close> reads the first request and offers it to the admin
  interface (\<open>api_handle.cpp\<close>), to the HTTP streaming handler and to the RTSP proxy handler. What is done to the connection is a list:
  bytes sent and \<open>close\<close>. The file system of the web interface, the text of a float, the clock and the
  answers of the system are arguments. Of the messages logged on the way those of \<open>MasterHandle::handle\<close> are kept. An exception that a handler does not catch is \<^term>\<open>Inl\<close>: no caller catches it, so that the
  process ends.
\<close>

section \<open>Environment and state\<close>

datatype conn_effect = SendConn string | CloseConn

text \<open>What \<open>get_info\<close> tells of a client beyond its record: the address of the peer, the seconds since its start and its
  two rates.\<close>

type_synonym client_view = "sockaddr \<times> nat \<times> u64 \<times> u64"

record ('t, 'd) handler_env =
  env_cfg :: server_config
  env_clk :: "'t calendar"
  env_templates :: json
  env_dns :: "string \<Rightarrow> u32 list option"
  env_sockname :: "sockaddr option"
  env_addr :: sockaddr
  env_udp :: "nat \<Rightarrow> sys_answers \<times> sys_answers"
  env_tcp :: sys_answers
  env_junk :: "RtspMethod \<times> u16 \<times> u16 \<times> u16"
  env_exists :: "string \<Rightarrow> bool"
  env_read :: "string \<Rightarrow> string option"
  env_float :: "int \<Rightarrow> string"
  env_time :: string
  env_rotation :: rotation
  env_now :: int
  env_quot :: "u64 \<Rightarrow> int \<Rightarrow> 'd"
  env_trunc :: "'d \<Rightarrow> u64"
  env_view :: "session \<Rightarrow> client_view"

text \<open>The sessions of the event loop under their descriptors, the pools, the counters and the log.\<close>

record 'd server =
  srv_sessions :: "(int \<times> session) list"
  srv_blocks :: buffer_pool
  srv_ports :: port_pool
  srv_stats :: "'d statistics"
  srv_log :: logger

section \<open>The admin interface\<close>

definition get_mime_type :: "string \<Rightarrow> string" where
  "get_mime_type file_path =
     (if str_find ''.html'' file_path \<noteq> None then ''text/html''
      else if str_find ''.js'' file_path \<noteq> None then ''application/javascript''
      else if str_find ''.css'' file_path \<noteq> None then ''text/css''
      else if str_find ''.ico'' file_path \<noteq> None then ''image/x-icon''
      else if str_find ''.png'' file_path \<noteq> None then ''image/png''
      else ''application/octet-stream'')"

definition unauthorized_page :: string where
  "unauthorized_page =
     ''HTTP/1.1 401 Unauthorized'' @ CRLF @ ''Content-Type: text/html'' @ CRLF @ ''Connection: close'' @ CRLF @ CRLF @
     ''<html><head><title>401 Unauthorized</title></head>'' @
     ''<body style=\"font-family:sans-serif;text-align:center;padding-top:50px;\">'' @
     ''<h1>401 Unauthorized</h1>'' @ ''<p>Invalid or missing access token.</p>'' @
     ''<p>Usage: <code>/admin/?token=YOUR_TOKEN</code></p>'' @ ''</body></html>''"

definition send_unauthorized :: "conn_effect list" where
  "send_unauthorized = [SendConn unauthorized_page, CloseConn]"

definition send_json_response :: "(int \<Rightarrow> string) \<Rightarrow> json \<Rightarrow> cxx_error + conn_effect list" where
  "send_json_response ft j =
     throwing (dump ft j) (\<lambda>body.
      let header = ''HTTP/1.1 200 OK'' @ CRLF @ ''Content-Type: application/json'' @ CRLF @
                   ''Content-Length: '' @ to_string (length body) @ CRLF @ ''Access-Control-Allow-Origin: *'' @ CRLF @
                   ''Connection: close'' @ CRLF @ CRLF
      in Inr [SendConn header, SendConn body, CloseConn])"

definition not_found :: string where
  "not_found = ''HTTP/1.1 404 Not Found'' @ CRLF @ ''Content-Length: 0'' @ CRLF @ CRLF"

definition serve_admin_file :: "(string \<Rightarrow> bool) \<Rightarrow> (string \<Rightarrow> string option) \<Rightarrow> string \<Rightarrow> conn_effect list" where
  "serve_admin_file present contents uri =
     (if uri = ''/admin'' then
        [SendConn (''HTTP/1.1 301 Moved Permanently'' @ CRLF @ ''Location: /admin/'' @ CRLF @ ''Content-Length: 0'' @ CRLF @
                   ''Connection: close'' @ CRLF @ CRLF), CloseConn]
      else
        (let clean_path = (if uri = ''/admin/'' then ''/admin/index.html'' else uri);
             rel_path = ''webui'' @ drop 6 clean_path;
             sys_path = ''/usr/share/rtsproxy/www'' @ drop 6 clean_path;
             local_path = (if present rel_path then rel_path else sys_path)
         in case contents local_path of
              None \<Rightarrow> [SendConn not_found, CloseConn]
            | Some content \<Rightarrow>
                [SendConn (''HTTP/1.1 200 OK'' @ CRLF @ ''Content-Type: '' @ get_mime_type local_path @ CRLF @
                           ''Content-Length: '' @ to_string (length content) @ CRLF @ ''Connection: close'' @ CRLF @ CRLF),
                 SendConn content, CloseConn]))"

text \<open>\<open>EpollLoop::get_all_clients_info\<close>: the sessions that are not closed.\<close>

fun session_closed :: "session \<Rightarrow> bool" where
  "session_closed (Http st) = is_closed st"
| "session_closed (Mitm st) = closed st"

definition endpoint :: "sockaddr \<Rightarrow> string" where
  "endpoint a = inet_ntop (fst a) @ '':'' @ to_string (unat (snd a))"

definition client_info :: "string \<Rightarrow> bool \<Rightarrow> string \<Rightarrow> client_view \<Rightarrow> json" where
  "client_info kind tcp upstream = (\<lambda>(peer, secs, up, down).
     JObj [(''downstream'', JStr (endpoint peer)), (''downstream_bandwidth'', JInt (uint down)),
           (''proxy'', JStr (to_string secs)), (''transport'', JStr (if tcp then ''TCP'' else ''UDP'')),
           (''type'', JStr kind), (''upstream'', JStr upstream), (''upstream_bandwidth'', JInt (uint up))])"

fun get_info :: "client_view \<Rightarrow> session \<Rightarrow> json" where
  "get_info v (Http st) = client_info ''http-proxy'' (is_tcp_mode st)
     (server_ip (hctx st) @ '':'' @ to_string (unat (server_rtsp_port (hctx st)))) v"
| "get_info v (Mitm st) = client_info ''mitm'' (is_downstream_tcp st)
     (if snd (srv_rtp_addr st) \<noteq> 0 then endpoint (srv_rtp_addr st) else ''Connecting...'') v"

definition get_all_clients_info :: "(session \<Rightarrow> client_view) \<Rightarrow> (int \<times> session) list \<Rightarrow> json" where
  "get_all_clients_info view ss =
     JArr (map (\<lambda>(fd, ses). get_info (view ses) ses) (filter (\<lambda>(fd, ses). \<not> session_closed ses) ss))"

text \<open>The answer to \<open>/api/status\<close>. Asking for the rates may close a period of the counters.\<close>

definition api_status :: "('t, 'd) handler_env \<Rightarrow> 'd server \<Rightarrow> json \<times> 'd server" where
  "api_status e s =
     (let bp = srv_blocks s;
          stats1 = setActiveClients (of_nat (length (srv_sessions s))) (srv_stats s);
          (up, stats2) = getUpstreamBandwidth (env_quot e) (env_now e) stats1;
          (down, stats3) = getDownstreamBandwidth (env_quot e) (env_now e) stats2;
          num = (\<lambda>n. JInt (int n)); w = (\<lambda>x. JInt (uint x))
      in (JObj [(''clients'', get_all_clients_info (env_view e) (srv_sessions s)),
                (''pool'', JObj [(''allocated'', num (get_total_allocated bp)), (''available'', num (get_available_count bp)),
                   (''buffer_size'', num (get_buffer_size bp)), (''peak'', num (get_peak_used bp)),
                   (''total_bytes'', num (get_total_allocated bp * get_buffer_size bp)),
                   (''used'', num (get_total_allocated bp - get_available_count bp))]),
                (''stats'', JObj [(''active_clients'', w (active_clients stats3)), (''down_bandwidth'', w (env_trunc e down)),
                   (''down_traffic'', w (total_downstream_bytes stats1)), (''traffic'', w (getTotalBytes stats1)),
                   (''up_bandwidth'', w (env_trunc e up)), (''up_traffic'', w (total_upstream_bytes stats1))])],
          s\<lparr>srv_stats := stats3\<rparr>))"

definition api_logs :: "logger \<Rightarrow> json" where
  "api_logs lg = JObj [(''level'', JInt (int (level_number (current_level lg)))),
                       (''logs'', JArr (map JStr (getRecentLogs lg)))]"

definition is_static :: "string \<Rightarrow> bool" where
  "is_static uri \<longleftrightarrow> str_find ''.js'' uri \<noteq> None \<or> str_find ''.css'' uri \<noteq> None \<or> str_find ''.ico'' uri \<noteq> None"

text \<open>\<open>ApiHandle::dispatch\<close>: whether the request was handled, what was done to the connection, and the state.\<close>

definition api_dispatch :: "('t, 'd) handler_env \<Rightarrow> RequestInfo \<Rightarrow> 'd server \<Rightarrow> cxx_error + bool \<times> conn_effect list \<times> 'd server" where
  "api_dispatch e info s =
     (let uri = clean_uri info;
          is_api = (str_find ''/api/'' uri = Some 0);
          is_admin = (str_find ''/admin'' uri = Some 0);
          is_favicon = (uri = ''/favicon.ico'')
      in if \<not> is_api \<and> \<not> is_admin \<and> \<not> is_favicon then Inr (False, [], s)
         else if \<not> is_authorized info \<and> \<not> is_static uri then Inr (True, send_unauthorized, s)
         else if is_favicon then Inr (True, [SendConn not_found, CloseConn], s)
         else if is_api \<and> str_find ''/api/status'' uri = Some 0 then
           (case api_status e s of (j, s1) \<Rightarrow>
              throwing (send_json_response (env_float e) j) (\<lambda>acts. Inr (True, acts, s1)))
         else if is_api \<and> str_find ''/api/logs'' uri = Some 0 then
           throwing (send_json_response (env_float e) (api_logs (srv_log s))) (\<lambda>acts. Inr (True, acts, s))
         else if is_admin then Inr (True, serve_admin_file (env_exists e) (env_read e) uri, s)
         else Inr (False, [], s))"

section \<open>Starting a session\<close>

text \<open>The tests both streaming handlers make: the URL must parse, its host must not be blacklisted nor be the proxy itself.\<close>

definition check_upstream :: "('t, 'd) handler_env \<Rightarrow> string \<Rightarrow> cxx_error + rtspCtx" where
  "check_upstream e url =
     (case parse_url url (new_ctx (snd (env_junk e))) of
        (rc, ctx) \<Rightarrow>
          (if rc \<noteq> 0 then Inl (RuntimeError (''Failed to parse RTSP URL: '' @ url))
           else throwing (is_blacklisted (blacklist (env_cfg e)) (env_dns e) (server_ip ctx)) (\<lambda>b.
             if b then Inl (RuntimeError (''Upstream '' @ server_ip ctx @ '' is blacklisted.''))
             else if is_loopback (server_ip ctx) (server_rtsp_port ctx) (env_sockname e) then
               Inl (RuntimeError ''Recursive connection detected.'')
             else Inr ctx)))"

text \<open>\<open>add_client_to_map\<close> and the callback of the client of the map. A client whose descriptor is in use already is destroyed
  again: the connection is closed and its blocks and ports go back.\<close>

fun session_blocks :: "session \<Rightarrow> buffer_pool" where
  "session_blocks (Http st) = blocks st"
| "session_blocks (Mitm st) = mblocks st"

fun session_ports :: "session \<Rightarrow> port_pool" where
  "session_ports (Http st) = hports st"
| "session_ports (Mitm st) = mports st"

fun with_callback :: "session \<Rightarrow> session" where
  "with_callback (Http st) = Http (set_on_closed_callback st)"
| "with_callback (Mitm st) = Mitm (mitm_set_on_closed_callback st)"

fun destroy_session :: "session \<Rightarrow> session" where
  "destroy_session (Http st) = Http (destroy_http_client st)"
| "destroy_session (Mitm st) = Mitm (destroy_rtsp_client st)"

definition add_session :: "int \<Rightarrow> session \<Rightarrow> 'd server \<Rightarrow> bool \<times> conn_effect list \<times> 'd server" where
  "add_session fd ses s =
     (if map_of (srv_sessions s) fd = None then
        (True, [], s\<lparr>srv_sessions := srv_sessions s @ [(fd, with_callback ses)], srv_blocks := session_blocks ses,
                     srv_ports := session_ports ses\<rparr>)
      else
        (True, [CloseConn],
           s\<lparr>srv_blocks := session_blocks (destroy_session ses), srv_ports := session_ports (destroy_session ses),
             srv_sessions := map (\<lambda>(k, x). (k, if k = fd then with_callback x else x)) (srv_sessions s)\<rparr>))"

text \<open>An exception makes a handler decline; undefined behaviour is no exception.\<close>

definition declining :: "conn_effect list \<Rightarrow> 'd server \<Rightarrow> cxx_error + bool \<times> conn_effect list \<times> 'd server \<Rightarrow>
  cxx_error + bool \<times> conn_effect list \<times> 'd server" where
  "declining acts s r = (case r of Inl UndefinedBehaviour \<Rightarrow> Inl UndefinedBehaviour | Inl err \<Rightarrow> Inr (False, acts, s) | Inr x \<Rightarrow> Inr x)"

definition http_dispatch ::
  "('t, 'd) handler_env \<Rightarrow> int \<Rightarrow> RequestInfo \<Rightarrow> 'd server \<Rightarrow> cxx_error + bool \<times> conn_effect list \<times> 'd server" where
  "http_dispatch e fd info s =
     (if \<not> is_http info \<or> upstream_url info = [] then Inr (False, [], s)
      else declining [] s (throwing (check_upstream e (upstream_url info)) (\<lambda>ctx.
        case RTSPToHttpClient (env_cfg e) (env_udp e) (env_tcp e) (fst (env_junk e)) ctx (srv_blocks s) (srv_ports s) of
          None \<Rightarrow> Inl UndefinedBehaviour
        | Some st \<Rightarrow> Inr (add_session fd (Http st) s))))"

text \<open>The RTSP handler resolves the request once more. A constructor that throws has closed the connection: the guard of
  the descriptor is destroyed with the half-built client.\<close>

definition mitm_dispatch ::
  "('t, 'd) handler_env \<Rightarrow> int \<Rightarrow> RequestInfo \<Rightarrow> string \<Rightarrow> 'd server \<Rightarrow> cxx_error + bool \<times> conn_effect list \<times> 'd server" where
  "mitm_dispatch e fd info raw_request s =
     (if is_http info \<or> upstream_url info = [] then Inr (False, [], s)
      else declining [] s (throwing (check_upstream e (upstream_url info)) (\<lambda>_.
        throwing (resolve_upstream (auth_token (env_cfg e)) (env_clk e) (env_templates e) (snd (env_junk e)) raw_request) (\<lambda>config.
          declining [CloseConn] s
            (throwing (RTSPToRtspClient (env_cfg e) (env_tcp e) (env_addr e) config raw_request (srv_blocks s) (srv_ports s)) (\<lambda>st.
              Inr (add_session fd (Mitm st) s)))))))"

section \<open>The first request\<close>

datatype first_read = Request string | NotYet | Gone

definition unauthorized_reply :: "RequestInfo \<Rightarrow> string" where
  "unauthorized_reply info =
     (if is_http info then ''HTTP/1.1 401 Unauthorized'' @ CRLF @ ''Content-Length: 0'' @ CRLF @ CRLF
      else ''RTSP/1.0 401 Unauthorized'' @ CRLF @ ''CSeq: 1'' @ CRLF @ ''Content-Length: 0'' @ CRLF @ CRLF)"

definition client_host :: "('t, 'd) handler_env \<Rightarrow> string" where
  "client_host e = endpoint (env_addr e)"

definition warn_unauthorized :: "('t, 'd) handler_env \<Rightarrow> RequestInfo \<Rightarrow> 'd server \<Rightarrow> 'd server" where
  "warn_unauthorized e info s = s\<lparr>srv_log := logger_warn (env_time e) (env_rotation e)
     (''[MASTER] Unauthorized request from '' @ client_host e @ '': '' @ clean_uri info) (srv_log s)\<rparr>"

definition report_unmatched :: "('t, 'd) handler_env \<Rightarrow> RequestInfo \<Rightarrow> 'd server \<Rightarrow> 'd server" where
  "report_unmatched e info s = s\<lparr>srv_log := logger_error (env_time e) (env_rotation e)
     (''[MASTER] No handler found for '' @ client_host e @ '' request: '' @ clean_uri info) (srv_log s)\<rparr>"

definition stream_dispatch ::
  "('t, 'd) handler_env \<Rightarrow> int \<Rightarrow> RequestInfo \<Rightarrow> string \<Rightarrow> 'd server \<Rightarrow> cxx_error + conn_effect list \<times> 'd server" where
  "stream_dispatch e fd info req s =
     throwing (http_dispatch e fd info s) (\<lambda>(handled, acts, s1).
       if handled then Inr (acts, s1)
       else throwing (mitm_dispatch e fd info req s1) (\<lambda>(handled', acts', s2).
         if handled' then Inr (acts @ acts', s2)
         else Inr (acts @ acts' @ [CloseConn], report_unmatched e info s2)))"

definition master_handle ::
  "('t, 'd) handler_env \<Rightarrow> int \<Rightarrow> first_read \<Rightarrow> 'd server \<Rightarrow> cxx_error + conn_effect list \<times> 'd server" where
  "master_handle e fd r s =
     (if fd < 0 then Inr ([], s)
      else
        (case r of
           NotYet \<Rightarrow> Inr ([], s)
         | Gone \<Rightarrow> Inr ([CloseConn], s)
         | Request req \<Rightarrow>
             throwing (parse_request (auth_token (env_cfg e)) (env_clk e) (env_templates e) req) (\<lambda>info.
               throwing (api_dispatch e info s) (\<lambda>(handled, acts, s1).
                 if handled then Inr (acts, s1)
                 else if \<not> is_authorized info then
                   Inr ([SendConn (unauthorized_reply info), CloseConn], warn_unauthorized e info s1)
                 else stream_dispatch e fd info req s1))))"

section \<open>Lemmas\<close>

lemma declining_Inr:
  "declining acts s r = Inr x \<longleftrightarrow> r = Inr x \<or> (x = (False, acts, s) \<and> (\<exists>err. r = Inl err \<and> err \<noteq> UndefinedBehaviour))"
  by (auto simp: declining_def split: sum.splits cxx_error.splits)

definition admitted :: "('t, 'd) handler_env \<Rightarrow> string \<Rightarrow> bool" where
  "admitted e url \<longleftrightarrow> (\<exists>ctx. parse_url url (new_ctx (snd (env_junk e))) = (0, ctx) \<and>
     is_blacklisted (blacklist (env_cfg e)) (env_dns e) (server_ip ctx) = Inr False \<and>
     \<not> is_loopback (server_ip ctx) (server_rtsp_port ctx) (env_sockname e))"

lemma check_upstream_Inr: "check_upstream e url = Inr ctx \<Longrightarrow> admitted e url"
  by (auto simp: check_upstream_def admitted_def throwing_Inr split: prod.splits if_splits)

definition started :: "'d server \<Rightarrow> 'd server \<Rightarrow> bool" where
  "started s s' \<longleftrightarrow> length (srv_sessions s') = Suc (length (srv_sessions s))"

lemma add_session_cases:
  assumes "add_session fd ses s = (handled, acts, s')"
  shows "handled \<and> (acts = [] \<and> started s s' \<or>
    acts = [CloseConn] \<and> length (srv_sessions s') = length (srv_sessions s))"
  using assms by (auto simp: add_session_def started_def split: if_splits)

text \<open>The sessions and the pools, apart from counters and log.\<close>

definition sys_of :: "'d server \<Rightarrow> sys_state" where
  "sys_of s = (map snd (srv_sessions s), srv_blocks s, srv_ports s)"

lemma log_sel [simp]:
  "sys_of (warn_unauthorized e info s) = sys_of s" "srv_sessions (warn_unauthorized e info s) = srv_sessions s"
  "srv_blocks (warn_unauthorized e info s) = srv_blocks s" "srv_ports (warn_unauthorized e info s) = srv_ports s"
  "sys_of (report_unmatched e info s) = sys_of s" "srv_sessions (report_unmatched e info s) = srv_sessions s"
  by (simp_all add: sys_of_def warn_unauthorized_def report_unmatched_def)

text \<open>What a streaming handler can have done: declined with the state untouched, or created a session.\<close>

lemma http_dispatch_cases:
  assumes "http_dispatch e fd info s = Inr r"
  obtains "r = (False, [], s)"
  | ctx st where "check_upstream e (upstream_url info) = Inr ctx" "r = add_session fd (Http st) s"
      "RTSPToHttpClient (env_cfg e) (env_udp e) (env_tcp e) (fst (env_junk e)) ctx (srv_blocks s) (srv_ports s) = Some st"
  using assms by (auto simp: http_dispatch_def declining_Inr throwing_Inr split: if_splits option.splits)

lemma mitm_dispatch_cases:
  assumes "mitm_dispatch e fd info req s = Inr r"
  obtains acts where "r = (False, acts, s)" "set acts \<subseteq> {CloseConn}"
  | ctx config st where "check_upstream e (upstream_url info) = Inr ctx" "r = add_session fd (Mitm st) s"
      "resolve_upstream (auth_token (env_cfg e)) (env_clk e) (env_templates e) (snd (env_junk e)) req = Inr config"
      "RTSPToRtspClient (env_cfg e) (env_tcp e) (env_addr e) config req (srv_blocks s) (srv_ports s) = Inr st"
  using assms by (auto simp: mitm_dispatch_def declining_Inr throwing_Inr split: if_splits)

lemma stream_dispatch_cases:
  assumes "stream_dispatch e fd info req s = Inr (acts, s')"
  obtains "sys_of s' = sys_of s" "srv_sessions s' = srv_sessions s" "CloseConn \<in> set acts"
  | ctx st where "check_upstream e (upstream_url info) = Inr ctx" "add_session fd (Http st) s = (True, acts, s')"
      "RTSPToHttpClient (env_cfg e) (env_udp e) (env_tcp e) (fst (env_junk e)) ctx (srv_blocks s) (srv_ports s) = Some st"
  | ctx config st where "check_upstream e (upstream_url info) = Inr ctx" "add_session fd (Mitm st) s = (True, acts, s')"
      "resolve_upstream (auth_token (env_cfg e)) (env_clk e) (env_templates e) (snd (env_junk e)) req = Inr config"
      "RTSPToRtspClient (env_cfg e) (env_tcp e) (env_addr e) config req (srv_blocks s) (srv_ports s) = Inr st"
proof -
  obtain h a1 s1 where h: "http_dispatch e fd info s = Inr (h, a1, s1)"
    using assms by (auto simp: stream_dispatch_def throwing_Inr)
  from h show thesis
  proof (cases rule: http_dispatch_cases)
    case 1
    then obtain h2 a2 s2 where m: "mitm_dispatch e fd info req s = Inr (h2, a2, s2)"
      "(acts, s') = (if h2 then (a2, s2) else (a2 @ [CloseConn], report_unmatched e info s2))"
      using assms h by (auto simp: stream_dispatch_def throwing_Inr split: if_splits)
    from m(1) show thesis
    proof (cases rule: mitm_dispatch_cases)
      case (1 as)
      then show thesis using m(2) by (intro that(1)) auto
    next
      case (2 ctx config st)
      have "h2" using add_session_cases [OF 2(2) [symmetric]] by simp
      then show thesis using m(2) 2(2) by (intro that(3) [OF 2(1) _ 2(3,4)]) simp
    qed
  next
    case (2 ctx st)
    have h: "h" using 2(2) [symmetric] add_session_cases by blast
    then have "(acts, s') = (a1, s1)" using assms \<open>http_dispatch e fd info s = Inr (h, a1, s1)\<close>
      by (auto simp: stream_dispatch_def)
    then show thesis using 2 h that(2) by simp
  qed
qed

lemma stream_dispatched:
  assumes "stream_dispatch e fd info req s = Inr (acts, s')"
  shows "(started s s' \<and> acts = [] \<and> admitted e (upstream_url info)) \<or>
    (length (srv_sessions s') = length (srv_sessions s) \<and> CloseConn \<in> set acts)"
  using assms by (cases rule: stream_dispatch_cases) (auto dest!: add_session_cases check_upstream_Inr)

lemma api_status_frame: "api_status e s = (j, s') \<Longrightarrow> srv_sessions s' = srv_sessions s \<and> srv_blocks s' = srv_blocks s \<and> srv_ports s' = srv_ports s"
  by (auto simp: api_status_def Let_def split: prod.splits)

text \<open>The admin interface answers and closes; it starts no session.\<close>

lemma serve_admin_file_closes: "CloseConn \<in> set (serve_admin_file present contents uri)"
  by (simp add: serve_admin_file_def Let_def split: option.split)

lemma api_dispatch_frame:
  assumes "api_dispatch e info s = Inr (handled, acts, s')"
  shows "srv_sessions s' = srv_sessions s \<and> srv_blocks s' = srv_blocks s \<and> srv_ports s' = srv_ports s \<and> (handled \<longrightarrow> CloseConn \<in> set acts) \<and> (\<not> handled \<longrightarrow> s' = s)"
  using assms api_status_frame [of e s] serve_admin_file_closes
  by (auto simp: api_dispatch_def Let_def send_unauthorized_def send_json_response_def throwing_Inr split: if_splits prod.splits)

text \<open>The request line decides what the handlers see.\<close>

lemma master_request:
  assumes "0 \<le> fd" and "parse_request (auth_token (env_cfg e)) (env_clk e) (env_templates e) req = Inr info"
    and "api_dispatch e info s = Inr (h, acts, s1)"
  shows "master_handle e fd (Request req) s =
    (if h then Inr (acts, s1)
     else if is_authorized info then stream_dispatch e fd info req s1
     else Inr ([SendConn (unauthorized_reply info), CloseConn], warn_unauthorized e info s1))"
  using assms by (simp add: master_handle_def)

lemma request_info:
  assumes "word_ok m" and "word_ok uri" and "word_ok v" and "parse_request tok clk templates (request_line m uri v rest) = Inr info"
  shows "is_authorized info \<longleftrightarrow> tok = [] \<or> ''token='' @ tok \<in> set (uri_params uri)"
    and "clean_uri info = without_tokens uri"
proof -
  obtain mp where "parse_request tok clk templates (request_line m uri v rest) =
       resolve_path clk templates
         \<lparr>request_method = m, raw_uri = uri, version = v, clean_uri = without_tokens uri, upstream_url = [],
          params = mp, is_authorized = (tok = [] \<or> ''token='' @ tok \<in> set (uri_params uri)),
          is_http = prefix ''HTTP/'' v\<rparr>"
    by (rule parse_request_line [OF assms(1-3)])
  with assms(4) have "resolve_path clk templates
         \<lparr>request_method = m, raw_uri = uri, version = v, clean_uri = without_tokens uri, upstream_url = [],
          params = mp, is_authorized = (tok = [] \<or> ''token='' @ tok \<in> set (uri_params uri)),
          is_http = prefix ''HTTP/'' v\<rparr> = Inr info" by simp
  from resolve_path_fields [OF this] obtain url where i: "info = \<lparr>request_method = m, raw_uri = uri, version = v, clean_uri = without_tokens uri, upstream_url = url,
          params = mp, is_authorized = (tok = [] \<or> ''token='' @ tok \<in> set (uri_params uri)),
          is_http = prefix ''HTTP/'' v\<rparr>"
    by auto
  show "is_authorized info \<longleftrightarrow> tok = [] \<or> ''token='' @ tok \<in> set (uri_params uri)" and "clean_uri info = without_tokens uri"
    by (simp_all add: i)
qed

text \<open>Starting a session is a step of the system of sessions.\<close>

lemma add_session_new:
  assumes "map_of (srv_sessions s) fd = None" and "add_session fd ses s = (h, acts, s')"
  shows "map snd (srv_sessions s') = map snd (srv_sessions s) @ [with_callback ses] \<and> srv_blocks s' = session_blocks ses \<and>
    srv_ports s' = session_ports ses"
  using assms by (auto simp: add_session_def)

lemma stream_dispatch_run:
  assumes "stream_dispatch e fd info req s = Inr (acts, s')" and fresh: "map_of (srv_sessions s) fd = None"
  shows "sys_run (env_cfg e) (sys_of s) (sys_of s')"
  using assms(1)
proof (cases rule: stream_dispatch_cases)
  case 1
  then show ?thesis by (simp add: sys_refl)
next
  case (2 ctx st)
  show ?thesis
    using add_session_new [OF fresh 2(2)] http_new [OF 2(3)] by (auto simp: sys_of_def intro: sys_more [OF sys_refl])
next
  case (3 ctx config st)
  show ?thesis
    using add_session_new [OF fresh 3(2)] mitm_new [OF 3(4)] by (auto simp: sys_of_def intro: sys_more [OF sys_refl])
qed

text \<open>Handling a connection leaves the sessions and the pools alone, or reaches the streaming handlers with a request that parses
  and is authorised.\<close>

lemma master_handle_cases:
  assumes "master_handle e fd r s = Inr (acts, s')"
  obtains (idle) "sys_of s' = sys_of s" "srv_sessions s' = srv_sessions s"
  | (dispatched) req info where "r = Request req" "0 \<le> fd"
      "parse_request (auth_token (env_cfg e)) (env_clk e) (env_templates e) req = Inr info" "is_authorized info"
      "stream_dispatch e fd info req s = Inr (acts, s')"
proof (cases "0 \<le> fd \<and> (\<exists>req. r = Request req)")
  case True
  then obtain req where r: "r = Request req" and fd: "0 \<le> fd" by blast
  obtain info where p: "parse_request (auth_token (env_cfg e)) (env_clk e) (env_templates e) req = Inr info"
    using assms r fd by (auto simp: master_handle_def throwing_Inr)
  obtain h a s1 where d: "api_dispatch e info s = Inr (h, a, s1)"
    using assms fd unfolding r by (auto simp: master_handle_def throwing_Inr p)
  note fr = api_dispatch_frame [OF d]
  have mh: "(if h then Inr (a, s1) else if is_authorized info then stream_dispatch e fd info req s1
     else Inr ([SendConn (unauthorized_reply info), CloseConn], warn_unauthorized e info s1)) = Inr (acts, s')"
    using assms unfolding r master_request [OF fd p d] .
  show thesis
  proof (cases "\<not> h \<and> is_authorized info")
    case False
    then show thesis using mh fr by (intro idle) (auto simp: sys_of_def split: if_splits)
  next
    case True
    then have "stream_dispatch e fd info req s = Inr (acts, s')" using mh fr by simp
    with r fd p True show thesis by (intro dispatched) simp_all
  qed
qed (use assms idle in \<open>auto simp: master_handle_def split: first_read.splits if_splits\<close>)

lemma master_handle_run:
  assumes "master_handle e fd r s = Inr (acts, s')" and "map_of (srv_sessions s) fd = None"
  shows "sys_run (env_cfg e) (sys_of s) (sys_of s')"
  using assms(1)
proof (cases rule: master_handle_cases)
  case (dispatched req info)
  then show ?thesis using stream_dispatch_run assms(2) by blast
qed (simp add: sys_refl)

section \<open>Properties\<close>

text \<open>
  C1: No stream without permission. When the first request of a connection has been handled, either a session was started and the
  connection left open to it, or the number of sessions is the same and the connection was closed. A session is only started when
  no token is configured or the configured one is among the parameters of the request, and when the upstream URL parses, its host
  is not blacklisted and it is not the proxy itself.
\<close>

theorem stream_admission:
  assumes "word_ok m" and "word_ok uri" and "word_ok v" and "0 \<le> fd"
    and "master_handle e fd (Request (request_line m uri v rest)) s = Inr (acts, s')"
  shows "(length (srv_sessions s') = Suc (length (srv_sessions s)) \<and> acts = [] \<and>
      (auth_token (env_cfg e) = [] \<or> ''token='' @ auth_token (env_cfg e) \<in> set (uri_params uri)) \<and>
      (\<exists>info. parse_request (auth_token (env_cfg e)) (env_clk e) (env_templates e) (request_line m uri v rest) = Inr info \<and>
         admitted e (upstream_url info))) \<or>
    (length (srv_sessions s') = length (srv_sessions s) \<and> CloseConn \<in> set acts)"
proof -
  let ?tok = "auth_token (env_cfg e)"
  let ?parse = "parse_request ?tok (env_clk e) (env_templates e) (request_line m uri v rest)"
  obtain info where p: "?parse = Inr info" using assms(4,5) by (auto simp: master_handle_def throwing_Inr)
  obtain h a s1 where d: "api_dispatch e info s = Inr (h, a, s1)"
    using assms p by (auto simp: master_handle_def throwing_Inr split: first_read.splits if_splits)
  note fr = api_dispatch_frame [OF d]
  note auth = request_info(1) [OF assms(1-3) p]
  have mh: "(if h then Inr (a, s1)
     else if is_authorized info then stream_dispatch e fd info (request_line m uri v rest) s1
     else Inr ([SendConn (unauthorized_reply info), CloseConn], warn_unauthorized e info s1)) = Inr (acts, s')"
    using assms(5) unfolding master_request [OF assms(4) p d] .
  show ?thesis
  proof (cases "\<not> h \<and> is_authorized info")
    case True
    then have "stream_dispatch e fd info (request_line m uri v rest) s = Inr (acts, s')" using mh fr by simp
    from stream_dispatched [OF this] show ?thesis unfolding started_def using True auth p by blast
  next
    case False
    then show ?thesis using mh fr by (auto split: if_splits)
  qed
qed

text \<open>A request for the admin interface: it parses, and the token decides whether it is authorised.\<close>

lemma api_request:
  assumes "word_ok m" and "word_ok (p @ q)" and "word_ok v" and "0 \<le> fd" and "CHR ''?'' \<notin> set p"
    and "str_find ''/rtp/'' (without_tokens (p @ q)) = None" and "str_find ''/tv/'' (without_tokens (p @ q)) = None"
  obtains info where "clean_uri info = p @ without_tokens q"
    "is_authorized info \<longleftrightarrow> auth_token (env_cfg e) = [] \<or> ''token='' @ auth_token (env_cfg e) \<in> set (uri_params (p @ q))"
    "master_handle e fd (Request (request_line m (p @ q) v rest)) s =
      throwing (api_dispatch e info s) (\<lambda>(handled, acts, s1).
        if handled then Inr (acts, s1)
        else if \<not> is_authorized info then Inr ([SendConn (unauthorized_reply info), CloseConn], warn_unauthorized e info s1)
        else stream_dispatch e fd info (request_line m (p @ q) v rest) s1)"
proof -
  let ?tok = "auth_token (env_cfg e)"
  from without_tokens_append [OF assms(5), of q] have w: "without_tokens (p @ q) = p @ without_tokens q" .
  obtain info where i: "parse_request ?tok (env_clk e) (env_templates e) (request_line m (p @ q) v rest) = Inr info"
    using parse_request_line [OF assms(1-3), of ?tok "env_clk e" "env_templates e" rest] assms(6,7)
    by (auto simp: resolve_path_def Let_def)
  show thesis
    using request_info [OF assms(1-3) i] assms(4) i by (intro that [of info]) (simp_all add: w master_handle_def)
qed

text \<open>
  C35: What the status page is guarded by. A request for \<open>/api/status\<close> is answered with the status exactly when it carries the token (or
  none is configured) or its URI contains \<open>.js\<close>, \<open>.css\<close> or \<open>.ico\<close> anywhere, the query included; otherwise it gets the 401 page and nothing changes. So the
  token can be left out by asking for \<open>/api/status?.js\<close>.
\<close>

theorem api_status_guard:
  assumes "word_ok m" and "word_ok (''/api/status'' @ q)" and "word_ok v" and "0 \<le> fd" and "uri = ''/api/status'' @ q"
    and "str_find ''/rtp/'' (without_tokens uri) = None" and "str_find ''/tv/'' (without_tokens uri) = None"
  shows "master_handle e fd (Request (request_line m uri v rest)) s =
    (if auth_token (env_cfg e) = [] \<or> ''token='' @ auth_token (env_cfg e) \<in> set (uri_params uri) \<or> is_static (without_tokens uri)
     then (case api_status e s of (j, s1) \<Rightarrow> throwing (send_json_response (env_float e) j) (\<lambda>acts. Inr (acts, s1)))
     else Inr (send_unauthorized, s))"
proof -
  have "CHR ''?'' \<notin> set ''/api/status''" by simp
  from api_request [OF assms(1-4) this assms(6,7) [unfolded assms(5)], of e rest s] obtain info where info:
    "clean_uri info = ''/api/status'' @ without_tokens q"
    "is_authorized info \<longleftrightarrow> auth_token (env_cfg e) = [] \<or> ''token='' @ auth_token (env_cfg e) \<in> set (uri_params (''/api/status'' @ q))"
    "master_handle e fd (Request (request_line m (''/api/status'' @ q) v rest)) s =
      throwing (api_dispatch e info s) (\<lambda>(handled, acts, s1).
        if handled then Inr (acts, s1)
        else if \<not> is_authorized info then Inr ([SendConn (unauthorized_reply info), CloseConn], warn_unauthorized e info s1)
        else stream_dispatch e fd info (request_line m (''/api/status'' @ q) v rest) s1)" .
  have w: "without_tokens uri = ''/api/status'' @ without_tokens q"
    using without_tokens_append [of "''/api/status''" q] by (simp add: assms(5))
  have pre: "str_find ''/api/'' (clean_uri info) = Some 0" "str_find ''/api/status'' (clean_uri info) = Some 0"
    "clean_uri info \<noteq> ''/favicon.ico''"
    by (simp_all add: info(1))
  obtain j s1 where st: "api_status e s = (j, s1)" by fastforce
  have "api_dispatch e info s =
    (if is_authorized info \<or> is_static (without_tokens uri)
     then throwing (send_json_response (env_float e) j) (\<lambda>acts. Inr (True, acts, s1)) else Inr (True, send_unauthorized, s))"
    using pre st by (simp add: api_dispatch_def Let_def w info(1))
  then show ?thesis
    using info(2,3) st by (cases "send_json_response (env_float e) j") (simp_all add: assms(5))
qed

section \<open>A server to look at\<close>

definition example_env :: "(int, u64) handler_env" where
  "example_env = \<lparr>env_cfg = default_config, env_clk = utc, env_templates = JNull, env_dns = (\<lambda>_. None), env_sockname = None,
     env_addr = (0x0A000002, 40000), env_udp = (\<lambda>_. (ok_answers 7, ok_answers 8)), env_tcp = ok_answers 9,
     env_junk = (OPTIONS, 0, 0, 0), env_exists = (\<lambda>_. False), env_read = (\<lambda>_. None), env_float = (\<lambda>_. ''0.0''), env_time = ''2026-01-01 00:00:00'', env_rotation = (True, True), env_now = 0,
     env_quot = (\<lambda>b d. b), env_trunc = id, env_view = (\<lambda>_. ((0, 0), 0, 0, 0))\<rparr>"

definition example_server :: "u64 server" where
  "example_server = \<lparr>srv_sessions = [], srv_blocks = BufferPool 2048 2, srv_ports = PortPool, srv_stats = Statistics 0 0,
     srv_log = example_logger\<rparr>"

lemma example_parsed:
  obtains mp where "parse_request [] utc JNull (request_line ''GET'' ''/rtp/10.0.0.1:554/a'' ''HTTP/1.1'' []) =
    Inr \<lparr>request_method = ''GET'', raw_uri = ''/rtp/10.0.0.1:554/a'', version = ''HTTP/1.1'', clean_uri = ''/rtp/10.0.0.1:554/a'',
         upstream_url = ''rtsp://10.0.0.1:554/a'', params = mp, is_authorized = True, is_http = True\<rparr>"
proof -
  have w: "word_ok ''GET''" "word_ok ''/rtp/10.0.0.1:554/a''" "word_ok ''HTTP/1.1''"
    "without_tokens ''/rtp/10.0.0.1:554/a'' = ''/rtp/10.0.0.1:554/a''" by code_simp+
  have r: "rewrite_path utc JNull ''/rtp/10.0.0.1:554/a'' [] = Inr (True, ''rtsp://10.0.0.1:554/a'')"
    by (simp add: rewrite_path_def Let_def)
  show thesis
    by (rule parse_request_line [OF w(1-3), of "[]" utc JNull "[]"], rule that) (simp add: w(4) resolve_path_def Let_def r)
qed

lemma example_upstream:
  "\<exists>ctx. check_upstream example_env ''rtsp://10.0.0.1:554/a'' = Inr ctx"
proof -
  have "fst (parse_url ''rtsp://10.0.0.1:554/a'' (new_ctx (0, 0, 0))) = 0" by code_simp
  then obtain ctx where "parse_url ''rtsp://10.0.0.1:554/a'' (new_ctx (0, 0, 0)) = (0, ctx)" by (metis prod.collapse)
  then show ?thesis by (simp add: check_upstream_def example_env_def default_config_def is_blacklisted_def is_loopback_def)
qed

lemma example_started:
  assumes "srv_sessions s = []" and "bp_inv (srv_blocks s)" and "64 \<le> get_buffer_size (srv_blocks s)"
  obtains s' where
    "master_handle example_env 7 (Request (request_line ''GET'' ''/rtp/10.0.0.1:554/a'' ''HTTP/1.1'' [])) s = Inr ([], s')"
    "length (srv_sessions s') = 1"
proof -
  obtain mp where p: "parse_request [] utc JNull (request_line ''GET'' ''/rtp/10.0.0.1:554/a'' ''HTTP/1.1'' []) =
    Inr \<lparr>request_method = ''GET'', raw_uri = ''/rtp/10.0.0.1:554/a'', version = ''HTTP/1.1'', clean_uri = ''/rtp/10.0.0.1:554/a'',
         upstream_url = ''rtsp://10.0.0.1:554/a'', params = mp, is_authorized = True, is_http = True\<rparr>" (is "_ = Inr ?info")
    by (rule example_parsed)
  obtain ctx where c: "check_upstream example_env ''rtsp://10.0.0.1:554/a'' = Inr ctx" using example_upstream by blast
  obtain st where "RTSPToHttpClient default_config (\<lambda>_. (ok_answers 7, ok_answers 8)) (ok_answers 9) OPTIONS ctx
      (srv_blocks s) (srv_ports s) = Some st"
    using assms(2,3) by (rule new_client_ok)
  then have h: "http_dispatch example_env 7 ?info s = Inr (add_session 7 (Http st) s)"
    using c by (simp add: http_dispatch_def declining_def) (simp add: example_env_def)
  have a: "api_dispatch example_env ?info s = Inr (False, [], s)"
    by (simp add: api_dispatch_def Let_def)
  obtain s' where s: "add_session 7 (Http st) s = (True, [], s')" "length (srv_sessions s') = 1"
    using assms(1) by (simp add: add_session_def)
  have "master_handle example_env 7 (Request (request_line ''GET'' ''/rtp/10.0.0.1:554/a'' ''HTTP/1.1'' [])) s =
    stream_dispatch example_env 7 ?info (request_line ''GET'' ''/rtp/10.0.0.1:554/a'' ''HTTP/1.1'' []) s"
    using master_request [OF _ _ a, of 7 "request_line ''GET'' ''/rtp/10.0.0.1:554/a'' ''HTTP/1.1'' []"] p
    by (simp add: example_env_def default_config_def)
  also have "\<dots> = Inr ([], s')" using h s by (simp add: stream_dispatch_def)
  finally show thesis using s(2) by (rule that)
qed

lemma example_server_ok: "srv_sessions example_server = []" "bp_inv (srv_blocks example_server)"
  "64 \<le> get_buffer_size (srv_blocks example_server)"
  by (simp_all add: example_server_def get_buffer_size_def) (simp add: BufferPool_def)

theorem stream_admission_witness:
  "\<exists>s'. master_handle example_env 7 (Request (request_line ''GET'' ''/rtp/10.0.0.1:554/a'' ''HTTP/1.1'' [])) example_server = Inr ([], s') \<and>
     length (srv_sessions s') = 1 \<and>
     (\<exists>info. parse_request [] utc JNull (request_line ''GET'' ''/rtp/10.0.0.1:554/a'' ''HTTP/1.1'' []) = Inr info \<and>
        admitted example_env (upstream_url info))"
proof -
  obtain s' where m: "master_handle example_env 7 (Request (request_line ''GET'' ''/rtp/10.0.0.1:554/a'' ''HTTP/1.1'' [])) example_server = Inr ([], s')"
    "length (srv_sessions s') = 1" by (rule example_started [OF example_server_ok])
  have w: "word_ok ''GET''" "word_ok ''/rtp/10.0.0.1:554/a''" "word_ok ''HTTP/1.1''" by code_simp+
  have e: "auth_token (env_cfg example_env) = []" "env_clk example_env = utc" "env_templates example_env = JNull"
    by (simp_all add: example_env_def default_config_def)
  have "length (srv_sessions example_server) = 0" by (simp add: example_server_def)
  with stream_admission [OF w _ m(1)] m(2) have
    "\<exists>info. parse_request [] utc JNull (request_line ''GET'' ''/rtp/10.0.0.1:554/a'' ''HTTP/1.1'' []) = Inr info \<and>
        admitted example_env (upstream_url info)" unfolding e by auto
  then show ?thesis using m by blast
qed

lemma printable_dumps: "printable v \<Longrightarrow> \<exists>t. dump ft v = Inr t"
  using printable_reads by blast

lemma word_printable: "printable (JInt (uint (w :: u64)))"
proof (rule print_int)
  show "- (2 ^ 63) \<le> uint w" by (rule order_trans [of _ 0]) simp_all
  show "uint w < 2 ^ 64" using unsigned_less [of w, where 'a = int] by simp
qed

text \<open>The status of a server without sessions can be written.\<close>

lemma status_printable:
  assumes "srv_sessions s = []" and "get_total_allocated (srv_blocks s) * get_buffer_size (srv_blocks s) < 2 ^ 32"
    and "get_total_allocated (srv_blocks s) < 2 ^ 32" and "get_available_count (srv_blocks s) < 2 ^ 32"
    and "get_buffer_size (srv_blocks s) < 2 ^ 32" and "get_peak_used (srv_blocks s) < 2 ^ 32"
  shows "printable (fst (api_status e s))"
proof -
  have num: "printable (JInt (int n))" if "n < 2 ^ 32" for n by (rule print_int) (use that in simp_all)
  have k: "list_all utf8 [''clients'', ''pool'', ''stats'', ''allocated'', ''available'', ''buffer_size'', ''peak'', ''total_bytes'', ''used'',
    ''active_clients'', ''down_bandwidth'', ''down_traffic'', ''traffic'', ''up_bandwidth'', ''up_traffic'']"
    by (simp add: ascii_utf8)
  show ?thesis
    using k num [OF assms(2)] num [OF assms(3)] num [OF assms(4)] num [OF assms(5)] num [OF assms(6)]
      num [of "get_total_allocated (srv_blocks s) - get_available_count (srv_blocks s)"] assms(1,3)
    by (auto simp: api_status_def Let_def get_all_clients_info_def word_printable split: prod.split intro!: print_obj print_arr)
qed

lemma example_pool_numbers:
  "get_total_allocated (BufferPool 2048 2) = 2" "get_available_count (BufferPool 2048 2) = 2" "get_buffer_size (BufferPool 2048 2) = 2048"
  "get_peak_used (BufferPool 2048 2) = 0"
  by code_simp+

theorem api_status_guard_witness:
  "\<exists>header body s'. master_handle (example_env\<lparr>env_cfg := default_config\<lparr>auth_token := ''k''\<rparr>\<rparr>) 7
     (Request (request_line ''GET'' ''/api/status?x=.js'' ''HTTP/1.1'' [])) example_server = Inr ([SendConn header, SendConn body, CloseConn], s')"
proof -
  let ?e = "example_env\<lparr>env_cfg := default_config\<lparr>auth_token := ''k''\<rparr>\<rparr>"
  have w: "word_ok ''GET''" "word_ok (''/api/status'' @ ''?x=.js'')" "word_ok ''HTTP/1.1''"
    "without_tokens ''/api/status?x=.js'' = ''/api/status?x=.js''" by code_simp+
  have st: "is_static ''/api/status?x=.js''" by (simp add: is_static_def)
  obtain j s1 where j: "api_status ?e example_server = (j, s1)" by fastforce
  have "printable j"
    using status_printable [of example_server ?e] j by (simp add: example_server_def example_pool_numbers)
  then obtain t where "dump (env_float ?e) j = Inr t" using printable_dumps by blast
  then have "\<exists>header body. send_json_response (env_float ?e) j = Inr [SendConn header, SendConn body, CloseConn]"
    by (simp add: send_json_response_def)
  with api_status_guard [OF w(1-3), of 7 "''/api/status?x=.js''" ?e "[]" example_server] w(4) st j show ?thesis
    by auto
qed

definition shift_templates :: json where
  "shift_templates = JArr [JObj [(''action'', JStr ''timeshift''),
     (''match'', JStr (''playseek=('' @ [CHR 0x5C] @ ''d*)-('' @ [CHR 0x5C] @ ''d*)'')), (''shift_hours'', JInt 8)]]"

lemma shift_throws: "rewrite_path clk shift_templates ''/tv/h/ch?playseek=-'' [] = Inl InvalidArgument"
  by code_simp

text \<open>
  C40: A malformed time in a request ends the server. The request is parsed before the token is checked and outside of any handler for
  exceptions. With a time shift for \<open>playseek\<close> whose groups may be empty, a request with empty times makes \<open>stoll\<close> throw,
  whatever the token, the clock and the state.
\<close>

theorem bad_time_ends_server:
  fixes e :: "('t, 'd) handler_env"
  shows "master_handle (e\<lparr>env_templates := shift_templates\<rparr>) 7
     (Request (request_line ''GET'' ''/tv/h/ch?playseek=-'' ''HTTP/1.1'' rest)) s = Inl InvalidArgument"
proof -
  have w: "word_ok ''GET''" "word_ok ''/tv/h/ch?playseek=-''" "word_ok ''HTTP/1.1''"
    "without_tokens ''/tv/h/ch?playseek=-'' = ''/tv/h/ch?playseek=-''" by code_simp+
  have "parse_request tok clk shift_templates (request_line ''GET'' ''/tv/h/ch?playseek=-'' ''HTTP/1.1'' rest) = Inl InvalidArgument"
    for tok and clk :: "'t calendar"
    by (rule parse_request_line [OF w(1-3), of tok clk shift_templates rest])
       (simp add: w(4) resolve_path_def Let_def shift_throws)
  then show ?thesis by (simp add: master_handle_def)
qed

text \<open>A message that is logged at \<open>WARN\<close> is among the recent ones.\<close>

lemma warned:
  assumes "current_level lg \<le> WARN"
  shows "format_msg ts WARN msg \<in> set (getRecentLogs (logger_warn ts io msg lg))"
proof -
  let ?pushed = "log_buffer lg @ [format_msg ts WARN msg]"
  have "format_msg ts WARN msg \<in> set (if maxBufferSize < length ?pushed then tl ?pushed else ?pushed)"
    by (cases "log_buffer lg") (auto simp: maxBufferSize_def)
  moreover have "\<not> WARN < current_level lg" using assms by (simp add: less_log_level_def less_eq_log_level_def)
  ultimately show ?thesis by (simp add: logger_warn_def log_def getRecentLogs_def Let_def)
qed

text \<open>A byte above \<open>0xF4\<close> occurs in no UTF-8 text, so a log that holds one cannot be written.\<close>

lemma bad_log:
  assumes "0xF5 \<le> (of_char c :: nat)" and "c \<in> set line" and "line \<in> set (getRecentLogs lg)"
  shows "send_json_response ft (api_logs lg) = Inl JsonError"
proof -
  have "byte_class (of_char c) = 8" using assms(1) by (simp add: byte_class_def)
  from dump_strings_bad [OF this assms(2,3)] have "dump_elements ft (map JStr (getRecentLogs lg)) = Inl JsonError" .
  moreover have "getRecentLogs lg \<noteq> []" using assms(3) by auto
  moreover obtain t where "dump_escaped ''level'' = Inr t" by (rule string_text [of "''level''"]) (simp_all add: ascii_utf8)
  moreover obtain t' where "dump_escaped ''logs'' = Inr t'" by (rule string_text [of "''logs''"]) (simp_all add: ascii_utf8)
  ultimately show ?thesis by (simp add: send_json_response_def api_logs_def)
qed

text \<open>A request without the token that is not for the admin interface is refused and logged.\<close>

lemma refused:
  assumes "parse_request (auth_token (env_cfg e)) (env_clk e) (env_templates e) req = Inr info" and "0 \<le> fd" and "\<not> is_authorized info"
    and "str_find ''/api/'' (clean_uri info) \<noteq> Some 0" and "str_find ''/admin'' (clean_uri info) \<noteq> Some 0"
    and "clean_uri info \<noteq> ''/favicon.ico''"
  shows "master_handle e fd (Request req) s = Inr ([SendConn (unauthorized_reply info), CloseConn], warn_unauthorized e info s)"
proof -
  have "api_dispatch e info s = Inr (False, [], s)" using assms by (simp add: api_dispatch_def Let_def)
  from master_request [OF assms(2,1) this] assms(3) show ?thesis by simp
qed

text \<open>
  C34: Bytes that are not UTF-8 end the server. A request without the token is refused and logged with its URI. When the log
  keeps warnings and the URI has a byte above \<open>0xF4\<close>, which no UTF-8 text has, the next authorised request for \<open>/api/logs\<close> makes
  \<open>dump\<close> throw, and nothing catches it: the process ends. So anybody who can connect can prepare the end of the server, and whoever
  looks at the log page brings it about.
\<close>

theorem bad_utf8_ends_server:
  assumes "word_ok m" and "word_ok uri" and "word_ok v" and "0 \<le> fd"
    and "auth_token (env_cfg e) \<noteq> []" and "''token='' @ auth_token (env_cfg e) \<notin> set (uri_params uri)"
    and "str_find ''/api/'' (without_tokens uri) \<noteq> Some 0" and "str_find ''/admin'' (without_tokens uri) \<noteq> Some 0"
    and "c \<in> set (without_tokens uri)" and "0xF5 \<le> (of_char c :: nat)"
    and "current_level (srv_log s) \<le> WARN"
    and "master_handle e fd (Request (request_line m uri v rest)) s = Inr (acts, s1)"
    and "word_ok m'" and "word_ok (''/api/logs'' @ q)" and "word_ok v'" and "0 \<le> fd'"
    and "str_find ''/rtp/'' (without_tokens (''/api/logs'' @ q)) = None" and "str_find ''/tv/'' (without_tokens (''/api/logs'' @ q)) = None"
    and "auth_token (env_cfg e') = [] \<or> ''token='' @ auth_token (env_cfg e') \<in> set (uri_params (''/api/logs'' @ q))"
  shows "CloseConn \<in> set acts \<and> master_handle e' fd' (Request (request_line m' (''/api/logs'' @ q) v' rest')) s1 = Inl JsonError"
proof -
  obtain info where i: "parse_request (auth_token (env_cfg e)) (env_clk e) (env_templates e) (request_line m uri v rest) = Inr info"
    using assms(4,12) by (auto simp: master_handle_def throwing_Inr)
  note info = request_info [OF assms(1-3) i]
  have "clean_uri info \<noteq> ''/favicon.ico''" using assms(9,10) by (auto simp: info(2))
  from refused [OF i assms(4) _ _ _ this] assms(5-8) info
  have r: "master_handle e fd (Request (request_line m uri v rest)) s =
      Inr ([SendConn (unauthorized_reply info), CloseConn], warn_unauthorized e info s)" by simp
  then have s1: "acts = [SendConn (unauthorized_reply info), CloseConn]" "s1 = warn_unauthorized e info s" using assms(12) by auto
  let ?msg = "''[MASTER] Unauthorized request from '' @ client_host e @ '': '' @ clean_uri info"
  have "format_msg (env_time e) WARN ?msg \<in> set (getRecentLogs (srv_log s1))"
    using warned [OF assms(11)] by (simp add: s1(2) warn_unauthorized_def)
  moreover have "c \<in> set (format_msg (env_time e) WARN ?msg)" using assms(9) by (simp add: format_msg_def info(2))
  ultimately have bad: "send_json_response (env_float e') (api_logs (srv_log s1)) = Inl JsonError" using bad_log [OF assms(10)] by blast
  have "CHR ''?'' \<notin> set ''/api/logs''" by simp
  from api_request [OF assms(13-16) this assms(17,18), of e' rest' s1] obtain info' where i':
    "clean_uri info' = ''/api/logs'' @ without_tokens q"
    "is_authorized info' \<longleftrightarrow> auth_token (env_cfg e') = [] \<or> ''token='' @ auth_token (env_cfg e') \<in> set (uri_params (''/api/logs'' @ q))"
    "master_handle e' fd' (Request (request_line m' (''/api/logs'' @ q) v' rest')) s1 =
      throwing (api_dispatch e' info' s1) (\<lambda>(handled, acts, s2).
        if handled then Inr (acts, s2)
        else if \<not> is_authorized info' then Inr ([SendConn (unauthorized_reply info'), CloseConn], warn_unauthorized e' info' s2)
        else stream_dispatch e' fd' info' (request_line m' (''/api/logs'' @ q) v' rest') s2)" .
  have "str_find ''/api/'' (clean_uri info') = Some 0" "str_find ''/api/logs'' (clean_uri info') = Some 0"
    "str_find ''/api/status'' (clean_uri info') \<noteq> Some 0" "clean_uri info' \<noteq> ''/favicon.ico''"
    by (simp_all add: i'(1) str_find_Some_iff)
  then have "api_dispatch e' info' s1 = Inl JsonError" using i'(2) assms(19) bad by (simp add: api_dispatch_def Let_def)
  then show ?thesis using i'(3) s1(1) by simp
qed

theorem bad_utf8_ends_server_witness:
  "\<exists>acts s1. master_handle (example_env\<lparr>env_cfg := default_config\<lparr>auth_token := ''k''\<rparr>\<rparr>) 7
      (Request (request_line ''GET'' [CHR ''/'', CHR 0xFF] ''HTTP/1.1'' [])) example_server = Inr (acts, s1) \<and>
    master_handle (example_env\<lparr>env_cfg := default_config\<lparr>auth_token := ''k''\<rparr>\<rparr>) 8
      (Request (request_line ''GET'' ''/api/logs?token=k'' ''HTTP/1.1'' [])) s1 = Inl JsonError"
proof -
  let ?e = "example_env\<lparr>env_cfg := default_config\<lparr>auth_token := ''k''\<rparr>\<rparr>" and ?uri = "[CHR ''/'', CHR 0xFF]"
  have w: "word_ok ''GET''" "word_ok ?uri" "word_ok ''HTTP/1.1''" "word_ok (''/api/logs'' @ ''?token=k'')"
    "without_tokens ?uri = ?uri" "''token='' @ ''k'' \<notin> set (uri_params ?uri)"
    "''token='' @ ''k'' \<in> set (uri_params (''/api/logs'' @ ''?token=k''))" "without_tokens (''/api/logs'' @ ''?token=k'') = ''/api/logs''"
    by code_simp+
  have e: "auth_token (env_cfg ?e) = ''k''" "current_level (srv_log example_server) \<le> WARN"
    by (simp_all add: example_server_def example_logger_def less_eq_log_level_def)
  obtain info where i: "parse_request ''k'' (env_clk ?e) (env_templates ?e) (request_line ''GET'' ?uri ''HTTP/1.1'' []) = Inr info"
    using parse_request_line [OF w(1-3), of "''k''" "env_clk ?e" "env_templates ?e" "[]"] by (auto simp: w(5) resolve_path_def Let_def)
  note info = request_info [OF w(1-3) i]
  have m: "\<exists>acts s1. master_handle ?e 7 (Request (request_line ''GET'' ?uri ''HTTP/1.1'' [])) example_server = Inr (acts, s1)"
    using refused [of ?e _ info 7 example_server] i info w(5,6) unfolding e(1) by auto
  then obtain acts s1 where m: "master_handle ?e 7 (Request (request_line ''GET'' ?uri ''HTTP/1.1'' [])) example_server = Inr (acts, s1)"
    by blast
  have "master_handle ?e 8 (Request (request_line ''GET'' (''/api/logs'' @ ''?token=k'') ''HTTP/1.1'' [])) s1 = Inl JsonError"
    by (rule bad_utf8_ends_server [where c = "CHR 0xFF", OF w(1-3) _ _ _ _ _ _ _ e(2) m w(1,4,3), THEN conjunct2])
      (insert w(5-8), simp_all add: e(1))
  with m show ?thesis by auto
qed

end
