(* ===== verification/Session_Home.thy ===== *)
theory Session_Home
  imports Sessions "HOL-Library.Multiset"
begin

text \<open>
  What every session keeps to itself: the pairs of ports it holds in the shared port pool, and the upstream host it was created for. The
  locale \<open>port_holder\<close> is what the port pool needs of a client; both kinds of client are interpretations, and the pairs of
  all sessions stay disjoint over any interleaving of their events.
\<close>

section \<open>Pairs in the pool\<close>

definition pairs_ok :: "port_pool \<Rightarrow> nat list \<Rightarrow> bool" where
  "pairs_ok pp ps \<longleftrightarrow> standard_pool pp \<and> held_ok (used_ports pp) ps \<and> (\<forall>p \<in> set ps. 20000 \<le> p \<and> p < 40000)"

lemma pairs_ok_perm: "mset ps = mset qs \<Longrightarrow> pairs_ok pp ps = pairs_ok pp qs"
  using mset_eq_imp_distinct_iff [of ps qs] mset_eq_setD [of ps qs] by (simp add: pairs_ok_def held_ok_def)

text \<open>The number zero stands for no port.\<close>

definition nonzero :: "u16 list \<Rightarrow> nat list" where
  "nonzero ws = map unat (filter (\<lambda>w. w \<noteq> 0) ws)"

lemma nonzero_simps [simp]:
  "nonzero [] = []" "nonzero (w # ws) = (if w = 0 then [] else [unat w]) @ nonzero ws"
  by (simp_all add: nonzero_def)

lemma pairs_ok_release:
  assumes "pairs_ok pp (ps @ nonzero [w])"
  shows "pairs_ok (if w \<noteq> 0 then release_pair (unat w) pp else pp) ps"
proof (cases "w = 0")
  case False
  let ?p = "unat w"
  have ok: "standard_pool pp" "held_ok (used_ports pp) (ps @ [?p])" "\<forall>q \<in> set (ps @ [?p]). 20000 \<le> q \<and> q < 40000"
    using assms False by (auto simp: pairs_ok_def)
  have "?p \<notin> set ps" using ok(2) by (simp add: held_ok_def)
  then have "remove1 ?p (ps @ [?p]) = ps" by (simp add: remove1_append)
  with held_ok_release [OF ok(2), of ?p] ppool.release_used [of pp ?p] ppool.release_inv [OF ok(1)] ok(1,3) False
  show ?thesis by (auto simp: pairs_ok_def)
qed (use assms in simp)

lemma pairs_ok_release_two:
  assumes "pairs_ok pp (ps @ nonzero [v, w])"
  shows "pairs_ok (let pp1 = (if v \<noteq> 0 then release_pair (unat v) pp else pp)
    in if w \<noteq> 0 then release_pair (unat w) pp1 else pp1) ps"
proof -
  have "pairs_ok pp ((ps @ nonzero [w]) @ nonzero [v])"
    using assms pairs_ok_perm [of "ps @ nonzero [v, w]" "(ps @ nonzero [w]) @ nonzero [v]"] by simp
  from pairs_ok_release [OF pairs_ok_release [OF this]] show ?thesis by (simp add: Let_def)
qed

text \<open>Binding a pair replaces the pair held before, if any; that one stays marked.\<close>

lemma pairs_ok_bind:
  assumes "bind_udp_pair_from_pool env iface
      \<lparr>rtp_fd = -1, rtcp_fd = -1, rtp_port = unat w, ports = pp, open_fds = []\<rparr> = (rc, st)"
    and "pairs_ok pp (ps @ nonzero [w])"
  shows "pairs_ok (ports st) (ps @ nonzero [of_nat (rtp_port st)])"
proof -
  have sp: "standard_pool pp" and held: "held_ok (used_ports pp) (ps @ nonzero [w])"
    and rng: "\<forall>q \<in> set (ps @ nonzero [w]). 20000 \<le> q \<and> q < 40000"
    using assms(2) by (auto simp: pairs_ok_def)
  obtain tried where t: "\<forall>q \<in> set tried. even q \<and> 20000 \<le> q \<and> q < 40000 \<and> q \<notin> used_ports pp \<and> q + 1 \<notin> used_ports pp"
    "used_ports (ports st) = used_ports pp \<union> (\<Union>q \<in> set tried. {q, q + 1})" "standard_pool (ports st)"
    "rtp_port st \<in> insert 0 (insert (unat w) (set tried))"
    using bind_pair_loop_ok [OF assms(1) [unfolded bind_udp_pair_from_pool_def]] sp by auto
  have old: "pairs_ok (ports st) (ps @ nonzero [w])" "pairs_ok (ports st) ps"
    using held rng t(2,3) by (auto simp: pairs_ok_def held_ok_def)
  from t(4) consider "rtp_port st = 0" | "rtp_port st = unat w" | "rtp_port st \<in> set tried" by auto
  then show ?thesis
  proof cases
    case 3
    let ?p = "rtp_port st"
    have p: "even ?p" "20000 \<le> ?p" "?p < 40000" "?p \<notin> used_ports pp" using t(1) 3 by auto
    have u: "unat (of_nat ?p :: u16) = ?p" using p(3) by (simp add: unat_of_nat)
    have "{?p, ?p + 1} \<subseteq> used_ports (ports st)" using t(2) 3 by auto
    moreover have "?p \<notin> set ps" using held p(4) by (auto simp: held_ok_def)
    ultimately have "pairs_ok (ports st) (ps @ [?p])" using old(2) p by (simp add: pairs_ok_def held_ok_def)
    moreover have "(of_nat ?p :: u16) \<noteq> 0" using u p(2) by (metis unat_0 not_numeral_le_zero)
    ultimately show ?thesis using u by simp
  qed (use old in simp_all)
qed

section \<open>Where a session sends to\<close>

text \<open>The addresses the effects of a session send media and trigger packets to on its upstream sockets, and the address the text of a host
  denotes.\<close>

fun uplink :: "effect \<Rightarrow> u32 list" where
  "uplink (SendUdp RtpUp d a) = [fst a]"
| "uplink (SendUdp RtcpUp d a) = [fst a]"
| "uplink _ = []"

definition uplinks :: "effect list \<Rightarrow> u32 list" where
  "uplinks es = concat (map uplink es)"

lemma uplinks_append [simp]: "uplinks (es @ fs) = uplinks es @ uplinks fs"
  by (simp add: uplinks_def)

lemma uplinks_Cons [simp]: "uplinks [] = []" "uplinks (e # es) = uplink e @ uplinks es"
  by (simp_all add: uplinks_def)

definition host_addr :: "string \<Rightarrow> u32" where
  "host_addr host = (case inet_pton host of Some a \<Rightarrow> a | None \<Rightarrow> 0)"

section \<open>HTTP sessions\<close>

text \<open>A session stays still when it keeps its host, its ports and its idea of the address of the server, and sends nothing upstream over UDP.\<close>

definition http_still :: "http_client \<Rightarrow> http_client \<Rightarrow> bool" where
  "http_still st st' \<longleftrightarrow> hports st' = hports st \<and> hrtp_port st' = hrtp_port st \<and>
     server_ip (hctx st') = server_ip (hctx st) \<and> server_rtsp_port (hctx st') = server_rtsp_port (hctx st) \<and> server_rtp_addr st' = server_rtp_addr st \<and> uplinks (out st') = uplinks (out st)"

lemma http_still_refl [simp, intro]: "http_still st st"
  by (simp add: http_still_def)

lemma http_still_trans: "http_still a b \<Longrightarrow> http_still b c \<Longrightarrow> http_still a c"
  by (simp add: http_still_def)

lemma emit_addr [simp]: "server_rtp_addr (emit e st) = server_rtp_addr st"
  by (simp add: emit_def)

lemma ctx_parsers [simp]:
  "server_ip (snd (parse_session_id r ctx)) = server_ip ctx"
  "server_ip (parseSDP b ctx) = server_ip ctx"
  "server_rtsp_port (snd (parse_session_id r ctx)) = server_rtsp_port ctx"
  "server_rtsp_port (parseSDP b ctx) = server_rtsp_port ctx"
  by (simp_all add: parse_session_id_def parseSDP_def Let_def split: option.split)

lemma parse_port_block_ip: "parse_port_block k t ctx = Some (rc, ctx') \<Longrightarrow>
    server_ip ctx' = server_ip ctx \<and> server_rtsp_port ctx' = server_rtsp_port ctx"
  by (auto simp: parse_port_block_def Let_def split: option.splits sum.splits)

lemma parse_server_ports_ip: "parse_server_ports r ctx = (rc, ctx') \<Longrightarrow>
    server_ip ctx' = server_ip ctx \<and> server_rtsp_port ctx' = server_rtsp_port ctx"
  by (auto simp: parse_server_ports_def Let_def dest: parse_port_block_ip split: option.splits)

lemma http_still_build: "http_still st (build_and_send_request (push_request_into_queue m u h b st))"
  by (simp add: http_still_def build_and_send_request_def push_request_into_queue_def split: list.splits)

lemma http_still_option: "http_still st (send_rtsp_option cfg a st)"
proof -
  have "http_still st (connect_server cfg a st)"
    by (simp add: http_still_def connect_server_def split: prod.splits)
  then show ?thesis unfolding send_rtsp_option_def Let_def by (rule http_still_trans) (rule http_still_build)
qed

lemma http_still_describe: "http_still st (send_rtsp_describe cfg st)"
  unfolding send_rtsp_describe_def Let_def by (rule http_still_build)

lemma http_still_setup: "http_still st (send_rtsp_setup cfg body st)"
proof -
  let ?st = "if body \<noteq> [] then st\<lparr>hctx := parseSDP body (hctx st)\<rparr> else st"
  have "http_still st ?st" by (simp add: http_still_def)
  moreover have "http_still ?st (send_rtsp_setup cfg body st)"
    unfolding send_rtsp_setup_def Let_def by (simp only: if_split http_still_build) (simp add: http_still_def)
  ultimately show ?thesis by (rule http_still_trans)
qed

lemma http_still_play: "http_still st (send_rtsp_play cfg st)"
  unfolding send_rtsp_play_def Let_def by (rule http_still_build)

lemmas http_still_sel [simp] = http_still_build [unfolded http_still_def] http_still_option [unfolded http_still_def]
  http_still_describe [unfolded http_still_def] http_still_setup [unfolded http_still_def] http_still_play [unfolded http_still_def]

lemma http_still_forward_case:
  "case forward_block cfg buf n st of None \<Rightarrow> True | Some (f, b1, n1, st1) \<Rightarrow> http_still st st1"
  by (simp add: forward_block_def Let_def http_still_def split: bind_split option.split prod.split)

lemma http_still_forward: "forward_block cfg buf n st = Some (f, b1, n1, st1) \<Longrightarrow> http_still st st1"
  using http_still_forward_case [where cfg = cfg and buf = buf and n = n and st = st] by simp

lemma http_still_interleaved:
  "handle_interleaved_packet cfg ch dat st = Some st' \<Longrightarrow> http_still st st'"
proof -
  have "case handle_interleaved_packet cfg ch dat st of None \<Rightarrow> True | Some st' \<Rightarrow> http_still st st'"
    using http_still_forward [of cfg _ _ "st\<lparr>blocks := bp\<rparr>" for bp]
    by (auto simp: handle_interleaved_packet_def Let_def http_still_def split: bind_split option.split prod.split)
  then show "handle_interleaved_packet cfg ch dat st = Some st' \<Longrightarrow> http_still st st'" by simp
qed

lemma http_still_rtp:
  "on_rtp_readable cfg a d st = Some st' \<Longrightarrow> http_still st st'"
proof -
  have "case on_rtp_readable cfg a d st of None \<Rightarrow> True | Some st' \<Rightarrow> http_still st st'"
    using http_still_forward [of cfg _ _ "emit x (emit y (st\<lparr>blocks := bp\<rparr>))" for x y bp]
    by (auto simp: on_rtp_readable_def Let_def http_still_def split: bind_split option.split prod.split)
  then show "on_rtp_readable cfg a d st = Some st' \<Longrightarrow> http_still st st'" by simp
qed

lemma http_still_drain: "http_still st (fst (client_drain rs st))"
proof (induction rs arbitrary: st)
  case (Cons r rs)
  show ?case
  proof (cases "send_queue st")
    case (Cons p q)
    have "http_still st (fst (client_drain rs x))" if "http_still st x" for x
      using that Cons.IH by (rule http_still_trans)
    then show ?thesis using Cons by (auto simp: Let_def http_still_def split: send_result.split)
  qed simp
qed simp

lemma http_still_client: "http_still st (handle_client ev rs st)"
  using http_still_drain [of st rs]
  by (auto simp: handle_client_def on_client_writable_def on_client_closed_def http_still_def Let_def split: prod.split)

lemma http_still_writable: "http_still st (on_rtsp_writable ok sn r st)"
  by (auto simp: on_rtsp_writable_def send_request_bytes_def rtsp_connected_def http_still_def Let_def
      split: send_result.split option.split)

text \<open>The session is at home at a host: its address of the server is that of the host, or still none, and so is everything it sent. This and
  its pairs of ports, whatever the others hold, are kept by every step.\<close>

definition http_home :: "http_client \<Rightarrow> bool" where
  "http_home st \<longleftrightarrow> (let here = {0, host_addr (server_ip (hctx st))} in
     fst (server_rtp_addr st) \<in> here \<and> set (uplinks (out st)) \<subseteq> here)"

definition http_stays :: "http_client \<Rightarrow> http_client \<Rightarrow> bool" where
  "http_stays st st' \<longleftrightarrow> hports st' = hports st \<and> hrtp_port st' = hrtp_port st \<and>
     server_ip (hctx st') = server_ip (hctx st) \<and> server_rtsp_port (hctx st') = server_rtsp_port (hctx st) \<and> (http_home st \<longrightarrow> http_home st')"

lemma http_still_stays: "http_still st st' \<Longrightarrow> http_stays st st'"
  by (simp add: http_still_def http_stays_def http_home_def)

lemma http_stays_trans: "http_stays a b \<Longrightarrow> http_stays b c \<Longrightarrow> http_stays a c"
  by (simp add: http_stays_def)

lemma init_addr_home:
  "http_stays st (send_rtp_trigger (init_rtp_rtcp_server_addr st))" "http_stays st (send_zte_heartbeat (init_rtp_rtcp_server_addr st))"
  by (auto simp: http_stays_def http_home_def send_rtp_trigger_def send_zte_heartbeat_def init_rtp_rtcp_server_addr_def
      host_addr_def emit_def Let_def split: option.splits)

lemma http_stays_response: "http_stays st (step_state (handle_response cfg h b st))"
proof -
  let ?udp = "\<lambda>s. if nat_zte cfg then send_zte_heartbeat s else send_rtp_trigger s"
  obtain rc ctx1 where ctx: "parse_server_ports h (snd (parse_session_id h (hctx st))) = (rc, ctx1)"
    by (cases "parse_server_ports h (snd (parse_session_id h (hctx st)))")
  show ?thesis
  proof (cases "parse_status_code h = 200 \<and> req_method (current_request st) = SETUP \<and> rc = 0 \<and> str_find ''interleaved='' h = None")
    case True
    let ?s = "st\<lparr>hctx := ctx1, is_tcp_mode := False\<rparr>"
    have "step_state (handle_response cfg h b st) = send_rtsp_play cfg (?udp (init_rtp_rtcp_server_addr ?s))"
      using True ctx by (simp add: handle_response_def Let_def)
    moreover have "http_still st ?s" using parse_server_ports_ip [OF ctx] by (simp add: http_still_def)
    moreover have "http_stays s (send_rtsp_play cfg (?udp (init_rtp_rtcp_server_addr s)))" for s
      using http_stays_trans [OF init_addr_home(1) http_still_stays [OF http_still_play]]
        http_stays_trans [OF init_addr_home(2) http_still_stays [OF http_still_play]] by simp
    ultimately show ?thesis using http_stays_trans [OF http_still_stays] by simp
  next
    case False
    with ctx parse_server_ports_ip [OF ctx] have "http_still st (step_state (handle_response cfg h b st))"
      by (simp add: handle_response_def Let_def http_still_def init_timer_fd_def)
    then show ?thesis by (rule http_still_stays)
  qed
qed

lemma http_stays_resp_step:
  assumes "resp_step cfg st = Some r"
  shows "http_stays st (step_state r)"
proof -
  have trim: "http_still s (s\<lparr>resp_buf := x\<rparr>)" for s x by (simp add: http_still_def)
  have "http_stays st (step_state (handle_response cfg h b (st\<lparr>resp_buf := x\<rparr>)))" for h b x
    by (rule http_stays_trans [OF http_still_stays [OF trim] http_stays_response])
  moreover have "http_stays st (s\<lparr>resp_buf := x\<rparr>)"
    if "handle_interleaved_packet cfg ch dat (emit (AddUp n) (emit (EstUp n) st)) = Some s" for ch dat n s x
    using http_still_interleaved [OF that] by (intro http_still_stays) (simp add: http_still_def)
  ultimately show ?thesis
    using assms http_still_stays [OF http_still_refl, of st]
    by (auto simp: resp_step_def Let_def split: if_splits option.splits bind_splits)
qed

lemma http_stays_resp_loop: "resp_loop n cfg st = Some (Some (st', ret)) \<Longrightarrow> http_stays st st'"
proof (induction n arbitrary: st)
  case 0
  then show ?case by (auto split: if_splits intro: http_still_stays)
next
  case (Suc n)
  show ?case
  proof (cases "resp_buf st = []")
    case False
    with Suc.prems obtain s where s: "resp_step cfg st = Some s" by (auto split: option.splits)
    from http_stays_resp_step [OF s] show ?thesis using Suc False s by (cases s) (auto intro: http_stays_trans)
  qed (use Suc.prems in \<open>auto intro: http_still_stays\<close>)
qed

lemma http_stays_readable: "on_rtsp_readable n cfg cs fin st = Some (Some st') \<Longrightarrow> http_stays st st'"
proof (induction cs arbitrary: st)
  case Nil
  then show ?case by (cases fin) (auto simp: http_still_def intro!: http_still_stays)
next
  case (Cons c cs)
  then obtain st1 ret where l: "resp_loop n cfg (st\<lparr>resp_buf := resp_buf st @ c\<rparr>) = Some (Some (st1, ret))"
    by (auto split: option.splits)
  have "http_still st (st\<lparr>resp_buf := resp_buf st @ c\<rparr>)" by (simp add: http_still_def)
  from http_stays_trans [OF http_still_stays [OF this] http_stays_resp_loop [OF l]] show ?case
    using Cons l by (cases ret) (auto intro: http_stays_trans)
qed

lemma http_step_stays: "http_step cfg st st' \<Longrightarrow> http_stays st st'"
  by (cases rule: http_step.cases, assumption)
     (auto simp: handle_timer_def intro: http_still_stays http_still_rtp http_stays_readable http_still_writable http_still_client
       http_still_build)

section \<open>MITM sessions\<close>

definition mitm_pairs :: "rtsp_client \<Rightarrow> nat list" where
  "mitm_pairs st = nonzero [local_rtp_us_port st, local_rtp_ds_port st]"

definition mitm_home :: "rtsp_client \<Rightarrow> bool" where
  "mitm_home st \<longleftrightarrow> (let here = {0, host_addr (server_ip (mctx st))} in
     fst (srv_rtp_addr st) \<in> here \<and> fst (srv_rtcp_addr st) \<in> here \<and> set (uplinks (mout st)) \<subseteq> here)"

definition mitm_still :: "rtsp_client \<Rightarrow> rtsp_client \<Rightarrow> bool" where
  "mitm_still st st' \<longleftrightarrow> mports st' = mports st \<and> local_rtp_us_port st' = local_rtp_us_port st \<and>
     local_rtp_ds_port st' = local_rtp_ds_port st \<and> server_ip (mctx st') = server_ip (mctx st) \<and>
     server_rtsp_port (mctx st') = server_rtsp_port (mctx st) \<and> srv_rtp_addr st' = srv_rtp_addr st \<and> srv_rtcp_addr st' = srv_rtcp_addr st \<and> uplinks (mout st') = uplinks (mout st)"

definition mitm_stays :: "rtsp_client \<Rightarrow> rtsp_client \<Rightarrow> bool" where
  "mitm_stays st st' \<longleftrightarrow> server_ip (mctx st') = server_ip (mctx st) \<and>
     server_rtsp_port (mctx st') = server_rtsp_port (mctx st) \<and> (mitm_home st \<longrightarrow> mitm_home st') \<and>
     (\<forall>ps. pairs_ok (mports st) (ps @ mitm_pairs st) \<longrightarrow> pairs_ok (mports st') (ps @ mitm_pairs st'))"

lemma mitm_still_refl [simp, intro]: "mitm_still st st"
  by (simp add: mitm_still_def)

lemma mitm_still_trans: "mitm_still a b \<Longrightarrow> mitm_still b c \<Longrightarrow> mitm_still a c"
  by (simp add: mitm_still_def)

lemma mitm_still_stays: "mitm_still st st' \<Longrightarrow> mitm_stays st st'"
  by (simp add: mitm_still_def mitm_stays_def mitm_home_def mitm_pairs_def)

lemma mitm_stays_refl [simp, intro]: "mitm_stays st st"
  by (simp add: mitm_stays_def)

lemma mitm_stays_trans: "mitm_stays a b \<Longrightarrow> mitm_stays b c \<Longrightarrow> mitm_stays a c"
  by (simp add: mitm_stays_def)

lemma mitm_stays_then: "mitm_stays a b \<Longrightarrow> mitm_still b c \<Longrightarrow> mitm_stays a c"
  by (blast intro: mitm_stays_trans mitm_still_stays)

lemma mitm_still_then: "mitm_still a b \<Longrightarrow> mitm_stays b c \<Longrightarrow> mitm_stays a c"
  by (blast intro: mitm_stays_trans mitm_still_stays)

lemma put_home [simp]:
  "mports (put e st) = mports st" "local_rtp_us_port (put e st) = local_rtp_us_port st"
  "local_rtp_ds_port (put e st) = local_rtp_ds_port st"
  by (simp_all add: put_def)

lemma mitm_still_put [simp]: "uplink e = [] \<Longrightarrow> mitm_still st (put e st') = mitm_still st st'"
  by (simp add: mitm_still_def)

lemma mitm_stays_put [simp]: "uplink e = [] \<Longrightarrow> mitm_stays st (put e st') = mitm_stays st st'"
  by (simp add: mitm_stays_def mitm_home_def mitm_pairs_def)

lemma mitm_stays_send:
  assumes "mitm_stays st s" and "a = srv_rtp_addr s \<or> a = srv_rtcp_addr s"
  shows "mitm_stays st (put (SendUdp r d a) s)"
proof -
  have "set (uplink (SendUdp r d a)) \<subseteq> {fst a}" by (cases r) auto
  then have "mitm_stays s (put (SendUdp r d a) s)"
    using assms(2) by (auto simp: mitm_stays_def mitm_home_def mitm_pairs_def Let_def)
  with assms(1) show ?thesis by (rule mitm_stays_trans)
qed

lemma mitm_stays_punch: "mitm_stays st (punch cfg st)"
  by (auto simp: punch_def mitm_send_zte_heartbeat_def mitm_send_rtp_trigger_def Let_def intro!: mitm_stays_send)

lemma mitm_still_close [simp]: "mitm_still st (close_all st)"
  by (simp add: mitm_still_def close_all_def Let_def)

lemma mitm_stays_learn: "learn_server_ports cfg t st = Inr st' \<Longrightarrow> mitm_stays st st'"
proof -
  let ?ip = "\<lambda>old. case inet_pton (server_ip (mctx st)) of Some a \<Rightarrow> a | None \<Rightarrow> fst old"
  have "mitm_stays st (st\<lparr>srv_rtp_addr := (?ip (srv_rtp_addr st), x), srv_rtcp_addr := (?ip (srv_rtcp_addr st), y)\<rparr>)" for x y
    by (auto simp: mitm_stays_def mitm_home_def mitm_pairs_def host_addr_def Let_def split: option.split)
  then have "mitm_stays st (punch cfg (st\<lparr>srv_rtp_addr := (?ip (srv_rtp_addr st), x), srv_rtcp_addr := (?ip (srv_rtcp_addr st), y)\<rparr>))"
    for x y
    using mitm_stays_punch by (rule mitm_stays_trans)
  then show "learn_server_ports cfg t st = Inr st' \<Longrightarrow> mitm_stays st st'"
    by (auto simp: learn_server_ports_def throwing_Inr Let_def split: option.splits prod.splits)
qed

lemma mitm_stays_patch_response: "patch_response_for_client cfg proxy resp st = Inr (r, st') \<Longrightarrow> mitm_stays st st'"
  by (auto simp: patch_response_for_client_def throwing_Inr Let_def dest: mitm_stays_learn split: if_splits)

lemma mitm_still_patch_transport: "patch_transport_for_upstream cfg req st = Inr (r, st') \<Longrightarrow> mitm_still st st'"
  by (auto simp: patch_transport_for_upstream_def Let_def mitm_still_def split: if_splits prod.splits)

lemma mitm_still_pending: "process_pending_setup cfg st = Inr st' \<Longrightarrow> mitm_still st st'"
  by (auto simp: process_pending_setup_def throwing_Inr Let_def mitm_still_def dest: mitm_still_patch_transport)

lemma mitm_still_note: "note_transport req st = Inr st' \<Longrightarrow> mitm_still st st'"
  by (auto simp: note_transport_def throwing_Inr Let_def mitm_still_def split: option.splits)

lemma mitm_still_forward_request [simp]: "mitm_still st (forward_request b req st)"
  by (simp add: forward_request_def mitm_still_def)

text \<open>The two pairs are bound one after the other, each in the place of the one held before.\<close>

lemma mitm_stays_relay_sockets:
  assumes "init_relay_sockets cfg env_us env_ds st = (ok, st')"
  shows "mitm_stays st st'"
proof -
  obtain rc1 ps1 where b1: "bind_udp_pair_from_pool env_us (mitm_upstream_interface cfg)
      \<lparr>rtp_fd = -1, rtcp_fd = -1, rtp_port = unat (local_rtp_us_port st), ports = mports st, open_fds = []\<rparr> = (rc1, ps1)"
    by (metis surj_pair)
  obtain rc2 ps2 where b2: "bind_udp_pair_from_pool env_ds []
      \<lparr>rtp_fd = -1, rtcp_fd = -1, rtp_port = unat (local_rtp_ds_port st), ports = ports ps1, open_fds = []\<rparr> = (rc2, ps2)"
    by (metis surj_pair)
  let ?us = "of_nat (rtp_port ps1) :: u16" and ?ds = "of_nat (rtp_port ps2) :: u16"
  have one: "pairs_ok (ports ps1) (ps @ nonzero [?us, local_rtp_ds_port st])"
    if "pairs_ok (mports st) (ps @ mitm_pairs st)" for ps
  proof -
    have "pairs_ok (mports st) ((ps @ nonzero [local_rtp_ds_port st]) @ nonzero [local_rtp_us_port st])"
      using that pairs_ok_perm [of "ps @ mitm_pairs st" "(ps @ nonzero [local_rtp_ds_port st]) @ nonzero [local_rtp_us_port st]"]
      by (simp add: mitm_pairs_def)
    from pairs_ok_bind [OF b1 this]
    show ?thesis
      using pairs_ok_perm [of "(ps @ nonzero [local_rtp_ds_port st]) @ nonzero [?us]" "ps @ nonzero [?us, local_rtp_ds_port st]"]
      by simp
  qed
  have two: "pairs_ok (ports ps2) (ps @ nonzero [?us, ?ds])" if "pairs_ok (mports st) (ps @ mitm_pairs st)" for ps
    using pairs_ok_bind [OF b2, of "ps @ nonzero [?us]"] one [OF that] by simp
  have home: "mitm_home st \<Longrightarrow> mitm_home st'" "server_ip (mctx st') = server_ip (mctx st)"
    "server_rtsp_port (mctx st') = server_rtsp_port (mctx st)"
    using assms b1 b2 by (auto simp: init_relay_sockets_def Let_def mitm_home_def split: if_splits)
  have "mports st' = ports ps1 \<and> mitm_pairs st' = nonzero [?us, local_rtp_ds_port st] \<or>
      mports st' = ports ps2 \<and> mitm_pairs st' = nonzero [?us, ?ds]"
    using assms b1 b2 by (auto simp: init_relay_sockets_def Let_def mitm_pairs_def split: if_splits)
  with home one two show ?thesis unfolding mitm_stays_def by metis
qed

lemma mitm_stays_prepare:
  assumes "prepare_setup cfg env_us env_ds req st = Inr r"
  shows "mitm_stays st (setup_state r)"
proof -
  obtain st1 where st1: "note_transport req st = Inr st1"
    using assms by (auto simp: prepare_setup_def throwing_Inr)
  obtain ok st2 where st2: "(if relay_ready st1 then (True, st1) else init_relay_sockets cfg env_us env_ds st1) = (ok, st2)"
    by (cases "if relay_ready st1 then (True, st1) else init_relay_sockets cfg env_us env_ds st1")
  then have "mitm_stays st1 st2" using mitm_stays_relay_sockets by (auto split: if_splits)
  with mitm_still_note [OF st1] have s2: "mitm_stays st st2" by (rule mitm_still_then)
  have p: "mitm_still st2 st3" if "patch_transport_for_upstream cfg req (st2\<lparr>relay_ready := True, last_setup_req := req\<rparr>) = Inr (x, st3)"
    for x st3
    using mitm_still_patch_transport [OF that] by (simp add: mitm_still_def)
  have "mitm_still st2 (setup_state r)"
  proof (cases ok)
    case False
    with assms st1 st2 have "r = Return (req, close_all st2)" by (simp add: prepare_setup_def)
    then show ?thesis by simp
  next
    case True
    with assms st1 st2 p show ?thesis
      by (cases "nat_stun cfg") (auto simp: prepare_setup_def Let_def throwing_Inr mitm_still_def [of st2 "put _ _\<lparr>mstate := _, pending_setup_req := _\<rparr>"])
  qed
  with s2 show ?thesis by (rule mitm_stays_then)
qed

lemma mitm_stays_from_client: "mitm_stays st (handle_interleaved_from_client ch dat st)"
  by (auto simp: handle_interleaved_from_client_def intro!: mitm_stays_send)

lemma mitm_stays_down_turn:
  assumes "down_turn cfg env_us env_ds st = Inr r"
  shows "mitm_stays st (turn_state r)"
proof -
  have cut: "mitm_still s (s\<lparr>downstream_recv_buf := x\<rparr>)" for s x by (simp add: mitm_still_def)
  have client: "mitm_stays st ((handle_interleaved_from_client ch dat st)\<lparr>downstream_recv_buf := x\<rparr>)" for ch dat x
    using mitm_stays_from_client cut by (rule mitm_stays_then)
  have fwd: "mitm_stays st (forward_request b q s)" if "mitm_stays st s" for b q s
    using that mitm_still_forward_request by (rule mitm_stays_then)
  have prep: "mitm_stays st (setup_state r1)" if "prepare_setup cfg env_us env_ds q (st\<lparr>downstream_recv_buf := x\<rparr>) = Inr r1" for q x r1
    using cut mitm_stays_prepare [OF that] by (rule mitm_still_then)
  have after: "mitm_stays st (turn_state (after_setup b r1))" if "mitm_stays st (setup_state r1)" for b r1
    using that fwd by (cases "(b, r1)" rule: after_setup.cases) auto
  show ?thesis
    using assms client fwd [OF mitm_still_stays [OF cut]]
    by (auto simp: down_turn_def Let_def throwing_Inr split: if_splits option.splits dest!: prep intro!: after)
qed

lemma mitm_stays_down_loop: "down_loop n cfg env_us env_ds st = Some (Inr st') \<Longrightarrow> mitm_stays st st'"
proof (induction n arbitrary: st)
  case 0
  then show ?case by (auto split: if_splits)
next
  case (Suc n)
  show ?case
  proof (cases "downstream_recv_buf st = []")
    case False
    with Suc.prems obtain r where r: "down_turn cfg env_us env_ds st = Inr r" by (auto split: sum.splits)
    from mitm_stays_down_turn [OF r] show ?thesis
      using Suc False r by (cases r) (auto intro: mitm_stays_trans)
  qed (use Suc.prems in auto)
qed

lemma mitm_still_up_drain: "mitm_still st (fst (up_drain rs st))"
proof (induction rs arbitrary: st)
  case (Cons r rs)
  have "mitm_still st (fst (up_drain rs x))" if "mitm_still st x" for x
    using that Cons.IH by (rule mitm_still_trans)
  then show ?case by (auto simp: Let_def mitm_still_def split: list.split send_result.split)
qed simp

lemma mitm_still_upstream_writable: "mitm_still st (on_upstream_writable ok sn rs st)"
proof -
  have "mitm_still st (upstream_connected sn st)"
    by (simp add: upstream_connected_def mitm_still_def Let_def split: option.split prod.split)
  then have "mitm_still st (fst (up_drain rs (if mstate st = WAIT_UPSTREAM_CONNECT then upstream_connected sn st else st)))"
    using mitm_still_up_drain mitm_still_trans [OF _ mitm_still_up_drain] by simp
  then show ?thesis
    by (auto simp: on_upstream_writable_def split: prod.split intro: mitm_still_trans)
qed

lemma mitm_stays_start: "mitm_stays st (start_streaming cfg status st)"
proof -
  have "mitm_still st ((mitm_init_timer_fd (st\<lparr>pending_play := False, mwait := w\<rparr>))\<lparr>mstate := STREAMING\<rparr>)" for w
    by (simp add: mitm_still_def mitm_init_timer_fd_def)
  from mitm_still_then [OF this mitm_stays_punch] show ?thesis by (simp add: start_streaming_def)
qed

lemma mitm_still_send_interleaved: "send_interleaved_downstream ch dat st = Inr st' \<Longrightarrow> mitm_still st st'"
  by (auto simp: send_interleaved_downstream_def Let_def throwing_Inr case_prod_unfold mitm_still_def split: if_splits)

lemma mitm_still_relay: "relay_rtp cfg est buf n st = Inr st' \<Longrightarrow> mitm_still st st'"
  by (auto simp: relay_rtp_def Let_def throwing_Inr mitm_still_def dest!: mitm_still_send_interleaved split: if_splits)

lemma mitm_still_rtp_up_loop: "rtp_up_loop cfg ds st = Inr st' \<Longrightarrow> mitm_still st st'"
proof (induction ds arbitrary: st)
  case Nil
  then show ?case by (auto simp: mitm_still_def split: prod.splits)
next
  case (Cons d ds)
  obtain buf bp where acq: "acquire (mblocks st) = (buf, bp)" by (cases "acquire (mblocks st)")
  have b: "mitm_still s (s\<lparr>mblocks := x\<rparr>)" for s x by (simp add: mitm_still_def)
  have undo: "mitm_still st s" if "mitm_still (put (AddUp n) (put (EstUp n) (st\<lparr>mblocks := bp\<rparr>))) s" for n s
    using that by (simp add: mitm_still_def)
  with Cons acq b show ?case
    by (auto simp: Let_def throwing_Inr split: if_splits dest!: mitm_still_relay undo intro: mitm_still_trans)
qed

lemma mitm_still_rtp_from_upstream: "handle_rtp_from_upstream cfg ds st = Inr st' \<Longrightarrow> mitm_still st st'"
  by (auto simp: handle_rtp_from_upstream_def Let_def throwing_Inr mitm_still_def
      dest!: mitm_still_rtp_up_loop mitm_still_pending split: prod.splits if_splits)

lemma mitm_still_rtcp_from_upstream: "handle_rtcp_from_upstream ds st = Inr st' \<Longrightarrow> mitm_still st st'"
proof (induction ds arbitrary: st)
  case Nil
  then show ?case by (auto simp: mitm_still_def split: prod.splits)
next
  case (Cons d ds)
  obtain buf bp where acq: "acquire (mblocks st) = (buf, bp)" by (cases "acquire (mblocks st)")
  let ?give = "\<lambda>s. s\<lparr>mblocks := release (fill buf d) (mblocks s)\<rparr>"
  let ?n = "min (length d) (get_buffer_size bp)"
  let ?st2 = "put (AddUp ?n) (put (EstUp ?n) (st\<lparr>mblocks := bp\<rparr>))"
  have st2: "mitm_still st ?st2" and b: "mitm_still st (?give s)" if "mitm_still st s" for s
    using that by (simp_all add: mitm_still_def)
  have "\<exists>s. mitm_still st s \<and> (st' = ?give s \<or> handle_rtcp_from_upstream ds (?give s) = Inr st')"
  proof (cases "is_downstream_tcp st \<and> ?n \<noteq> 0")
    case True
    then obtain st3 where s: "send_interleaved_downstream (ds_interleaved_rtcp ?st2) (take ?n (fill buf d)) ?st2 = Inr st3"
      "handle_rtcp_from_upstream ds (?give st3) = Inr st'"
      using Cons.prems acq by (auto simp: Let_def throwing_Inr)
    then show ?thesis
      using mitm_still_trans [OF st2 [OF mitm_still_refl] mitm_still_send_interleaved [OF s(1)]] by blast
  next
    case False
    let ?st3 = "put (AddDown ?n) (put (EstDown ?n) (put (SendUdp RtcpDown (take ?n (fill buf d)) (client_rtcp_addr ?st2)) ?st2))"
    have "st' = ?give (st\<lparr>mblocks := bp\<rparr>) \<or> handle_rtcp_from_upstream ds (?give ?st2) = Inr st' \<or>
        handle_rtcp_from_upstream ds (?give ?st3) = Inr st'"
      using False Cons.prems acq by (auto simp: Let_def split: if_splits)
    moreover have "mitm_still st (st\<lparr>mblocks := bp\<rparr>)" "mitm_still st ?st3" by (simp_all add: mitm_still_def)
    ultimately show ?thesis using st2 [OF mitm_still_refl] by blast
  qed
  then show ?case using Cons.IH b by (blast intro: mitm_still_trans)
qed

lemma mitm_stays_clients:
  "mitm_stays st (handle_rtp_from_client dgs st)" "mitm_stays st (handle_rtcp_from_client dgs st)"
proof -
  have b: "mitm_still s (s\<lparr>mblocks := x\<rparr>)" "mitm_still s (s\<lparr>client_rtp_addr := a\<rparr>)" "mitm_still s (s\<lparr>client_rtcp_addr := a\<rparr>)" for s x a
    by (simp_all add: mitm_still_def)
  note then_rules = mitm_stays_then [OF _ b(1)] mitm_stays_then [OF _ b(2)] mitm_stays_then [OF _ b(3)]
  show "mitm_stays st (handle_rtp_from_client dgs st)"
  proof (induction dgs arbitrary: st)
    case Nil
    then show ?case by (auto intro: then_rules split: prod.split)
  next
    case (Cons x dgs)
    have keep: "mitm_stays st (handle_rtp_from_client dgs s)" if "mitm_stays st s" for s
      using that Cons.IH by (rule mitm_stays_trans)
    then show ?case by (cases x) (auto simp: Let_def intro!: keep then_rules mitm_stays_send split: prod.split)
  qed
  show "mitm_stays st (handle_rtcp_from_client dgs st)"
  proof (induction dgs arbitrary: st)
    case Nil
    then show ?case by (auto intro: then_rules split: prod.split)
  next
    case (Cons x dgs)
    have keep: "mitm_stays st (handle_rtcp_from_client dgs s)" if "mitm_stays st s" for s
      using that Cons.IH by (rule mitm_stays_trans)
    then show ?case by (cases x) (auto simp: Let_def intro!: keep then_rules mitm_stays_send split: prod.split)
  qed
qed

lemma mitm_still_from_upstream_tcp: "handle_interleaved_from_upstream cfg ch dat st = Inr st' \<Longrightarrow> mitm_still st st'"
  by (auto simp: handle_interleaved_from_upstream_def Let_def throwing_Inr case_prod_unfold mitm_still_def
      dest!: mitm_still_relay mitm_still_send_interleaved split: if_splits)

lemma mitm_still_queue_response: "queue_response r st = Inr st' \<Longrightarrow> mitm_still st st'"
  by (auto simp: queue_response_def throwing_Inr case_prod_unfold mitm_still_def)

lemma mitm_stays_response:
  assumes "handle_upstream_response cfg proxy so_ok sn rs resp st = Inr st'"
  shows "mitm_stays st st'"
  using assms
proof (cases rule: upstream_response_cases)
  case (retry q)
  have "mitm_still st (st\<lparr>mctx := snd (parse_session_id resp (mctx st)), retried_with_tcp := True, to_upstream_q := q\<rparr>)"
    by (simp add: mitm_still_def)
  then show ?thesis unfolding retry by (intro mitm_still_stays) (rule mitm_still_trans [OF _ mitm_still_upstream_writable])
next
  case (answer st1 r1 st2)
  have "mitm_still st st1" using answer(1) by (auto simp: mitm_still_def)
  from mitm_stays_trans [OF mitm_still_then [OF this mitm_stays_patch_response [OF answer(2)]] mitm_stays_start]
    mitm_still_queue_response [OF answer(3)]
  show ?thesis by (rule mitm_stays_then)
qed simp

lemma mitm_stays_up_turn:
  assumes "up_turn cfg proxy so_ok sn rs st = Inr r"
  shows "mitm_stays st (turn_state r)"
proof -
  have cut: "mitm_still s (s\<lparr>upstream_recv_buf := x\<rparr>)" for s x by (simp add: mitm_still_def)
  have tcp: "mitm_stays st (s\<lparr>upstream_recv_buf := x\<rparr>)" if "handle_interleaved_from_upstream cfg ch dat st = Inr s" for ch dat s x
    using mitm_still_from_upstream_tcp [OF that] cut by (blast intro: mitm_still_trans mitm_still_stays)
  have "mitm_stays st s" if "handle_upstream_response cfg proxy so_ok sn rs q (st\<lparr>upstream_recv_buf := x\<rparr>) = Inr s" for q x s
    using cut mitm_stays_response [OF that] by (rule mitm_still_then)
  then show ?thesis
    using assms tcp by (auto simp: up_turn_def Let_def throwing_Inr split: if_splits option.splits)
qed

lemma mitm_stays_up_loop: "up_loop n cfg proxy so_ok sn rs st = Some (Inr st') \<Longrightarrow> mitm_stays st st'"
proof (induction n arbitrary: st)
  case 0
  then show ?case by (auto split: if_splits)
next
  case (Suc n)
  show ?case
  proof (cases "upstream_recv_buf st = []")
    case False
    with Suc.prems obtain r where r: "up_turn cfg proxy so_ok sn rs st = Inr r" by (auto split: sum.splits)
    from mitm_stays_up_turn [OF r] show ?thesis
      using Suc False r by (cases r) (auto intro: mitm_stays_trans)
  qed (use Suc.prems in auto)
qed

lemma mitm_still_drain: "mitm_still st (fst (mitm_drain rs st))"
proof (induction rs arbitrary: st)
  case (Cons r rs)
  have "mitm_still st (fst (mitm_drain rs x))" if "mitm_still st x" for x
    using that Cons.IH by (rule mitm_still_trans)
  then show ?case by (auto simp: Let_def mitm_still_def split: list.split send_result.split)
qed simp

lemma mitm_still_downstream_writable: "mitm_still st (on_downstream_writable rs st)"
  using mitm_still_drain [of st rs] mitm_still_trans [OF mitm_still_drain mitm_still_close, of st rs]
  by (auto simp: on_downstream_writable_def on_downstream_closed_def split: prod.split)

lemma mitm_stays_downstream:
  assumes "handle_downstream fuel cfg env_us env_ds ev r rs st = Some (Inr st')"
  shows "mitm_stays st st'"
proof -
  have "mitm_stays st s" if "on_downstream_readable fuel cfg env_us env_ds r st = Some (Inr s)" for s
  proof (cases r)
    case (Received c)
    have "mitm_still st (st\<lparr>downstream_recv_buf := downstream_recv_buf st @ c\<rparr>)" by (simp add: mitm_still_def)
    moreover have "mitm_stays (st\<lparr>downstream_recv_buf := downstream_recv_buf st @ c\<rparr>) s"
      using that Received by (intro mitm_stays_down_loop) (simp add: on_downstream_readable_def)
    ultimately show ?thesis by (rule mitm_still_then)
  next
    case (NotReceived e)
    with that show ?thesis
      by (cases e) (auto simp: on_downstream_readable_def on_downstream_closed_def intro: mitm_still_stays)
  qed
  then show ?thesis
    using assms mitm_stays_then [OF _ mitm_still_downstream_writable]
    by (auto simp: handle_downstream_def on_downstream_closed_def intro: mitm_still_stays mitm_still_downstream_writable
        split: if_splits option.splits sum.splits)
qed

lemma mitm_stays_upstream:
  assumes "handle_upstream fuel cfg proxy so_ok sn rs rs' ev r st = Some (Inr st')"
  shows "mitm_stays st st'"
proof -
  have readable: "mitm_stays s s1" if "on_upstream_readable fuel cfg proxy so_ok sn rs' r s = Some (Inr s1)" for s s1
  proof (cases r)
    case (Received c)
    have "mitm_still s (s\<lparr>upstream_recv_buf := upstream_recv_buf s @ c\<rparr>)" by (simp add: mitm_still_def)
    moreover have "mitm_stays (s\<lparr>upstream_recv_buf := upstream_recv_buf s @ c\<rparr>) s1"
      using that Received by (intro mitm_stays_up_loop) (simp add: on_upstream_readable_def)
    ultimately show ?thesis by (rule mitm_still_then)
  next
    case (NotReceived e)
    with that show ?thesis by (cases e) (auto simp: on_upstream_readable_def intro: mitm_still_stays)
  qed
  let ?s = "if EPOLLOUT \<in> set ev then on_upstream_writable so_ok sn rs st else st"
  obtain s2 where s2: "(if EPOLLIN \<in> set ev then on_upstream_readable fuel cfg proxy so_ok sn rs' r ?s else Some (Inr ?s)) = Some (Inr s2)"
    and st': "st' = (if EPOLLHUP \<in> set ev \<or> EPOLLRDHUP \<in> set ev \<or> EPOLLERR \<in> set ev then close_all s2 else s2)"
    using assms unfolding handle_upstream_def Let_def by (auto split: option.splits sum.splits)
  have "mitm_still st ?s" by (simp add: mitm_still_upstream_writable)
  moreover have "mitm_stays ?s s2"
  proof (cases "EPOLLIN \<in> set ev")
    case True
    with s2 show ?thesis by (intro readable) simp
  qed (use s2 in simp)
  ultimately have "mitm_stays st s2" by (rule mitm_still_then)
  then show ?thesis unfolding st' by (auto intro: mitm_stays_then)
qed

lemma mitm_step_stays: "mitm_step cfg st st' \<Longrightarrow> mitm_stays st st'"
proof (cases rule: mitm_step.cases, assumption, goal_cases)
  case 7
  then show ?case by (auto simp: mitm_handle_timer_def Let_def mitm_still_def intro!: mitm_still_stays)
qed (auto intro: mitm_still_stays mitm_still_rtp_from_upstream mitm_still_rtcp_from_upstream mitm_stays_clients
    mitm_stays_downstream mitm_stays_upstream)

section \<open>Holders of ports\<close>

text \<open>
  What the port pool needs of a client: whatever the others hold, its steps turn the pairs it holds into pairs it may hold, and it gives them
  back when it is destroyed.
\<close>

locale port_holder =
  fixes step :: "'s \<Rightarrow> 's \<Rightarrow> bool"
    and pairs_of :: "'s \<Rightarrow> nat list"
    and ports_of :: "'s \<Rightarrow> port_pool"
    and with_pools :: "buffer_pool \<Rightarrow> port_pool \<Rightarrow> 's \<Rightarrow> 's"
    and destroy :: "'s \<Rightarrow> 's"
    and wrap :: "'s \<Rightarrow> session"
  assumes step_pairs: "step st st' \<Longrightarrow> pairs_ok (ports_of st) (ps @ pairs_of st) \<Longrightarrow> pairs_ok (ports_of st') (ps @ pairs_of st')"
    and destroy_pairs: "pairs_ok (ports_of st) (ps @ pairs_of st) \<Longrightarrow> pairs_ok (ports_of (destroy st)) ps"
    and ports_with: "ports_of (with_pools bp pp st) = pp" "pairs_of (with_pools bp pp st) = pairs_of st"
begin

text \<open>The pairs of all sessions, read off by a function that agrees with the one of this kind of client.\<close>

lemma event_pairs:
  assumes "pairs_ok pp (concat (map f ss))" and "i < length ss" and "ss ! i = wrap st" and "\<And>s. f (wrap s) = pairs_of s"
    and "step (with_pools bp pp st) st'"
  shows "pairs_ok (ports_of st') (concat (map f (ss[i := wrap st'])))"
proof -
  let ?ps = "concat (map f (take i ss)) @ concat (map f (drop (Suc i) ss))"
  have m: "mset (concat (map f ss)) = mset (?ps @ pairs_of st)"
    using arg_cong [OF id_take_nth_drop [OF assms(2)], of "\<lambda>xs. mset (concat (map f xs))"] by (simp add: assms(3,4))
  have m': "mset (concat (map f (ss[i := wrap st']))) = mset (?ps @ pairs_of st')"
    using assms(2) by (simp add: upd_conv_take_nth_drop assms(4))
  have "pairs_ok pp (?ps @ pairs_of st)" using assms(1) unfolding pairs_ok_perm [OF m] .
  then have "pairs_ok (ports_of st') (?ps @ pairs_of st')"
    using step_pairs [OF assms(5), of ?ps] by (simp only: ports_with)
  then show ?thesis unfolding pairs_ok_perm [OF m'] .
qed

lemma end_pairs:
  assumes "pairs_ok pp (concat (map f ss))" and "i < length ss" and "ss ! i = wrap st" and "\<And>s. f (wrap s) = pairs_of s"
  shows "pairs_ok (ports_of (destroy (with_pools bp pp st))) (concat (map f (without i ss)))"
proof -
  let ?ps = "concat (map f (take i ss)) @ concat (map f (drop (Suc i) ss))"
  have m: "mset (concat (map f ss)) = mset (?ps @ pairs_of st)"
    using arg_cong [OF id_take_nth_drop [OF assms(2)], of "\<lambda>xs. mset (concat (map f xs))"] by (simp add: assms(3,4))
  have "pairs_ok pp (?ps @ pairs_of st)" using assms(1) unfolding pairs_ok_perm [OF m] .
  then have "pairs_ok (ports_of (destroy (with_pools bp pp st))) ?ps"
    by (intro destroy_pairs) (simp add: ports_with)
  then show ?thesis by (simp add: without_def)
qed

end

definition http_pairs :: "http_client \<Rightarrow> nat list" where
  "http_pairs st = nonzero [hrtp_port st]"

interpretation http_holder: port_holder "http_step cfg" http_pairs hports http_with destroy_http_client Http
proof (unfold_locales, goal_cases)
  case (1 st st' ps)
  then show ?case using http_step_stays [OF 1(1)] by (simp add: http_stays_def http_pairs_def)
next
  case (2 st ps)
  then show ?case
    using pairs_ok_release [of "hports st" ps "hrtp_port st"] by (simp add: http_pairs_def destroy_http_client_def)
qed (simp_all add: http_pairs_def)

interpretation mitm_holder: port_holder "mitm_step cfg" mitm_pairs mports mitm_with destroy_rtsp_client Mitm
proof (unfold_locales, goal_cases)
  case (1 st st' ps)
  then show ?case using mitm_step_stays [OF 1(1)] by (simp add: mitm_stays_def)
next
  case (2 st ps)
  then show ?case
    using pairs_ok_release_two [of "mports st" ps "local_rtp_us_port st" "local_rtp_ds_port st"]
    by (simp add: mitm_pairs_def destroy_rtsp_client_def Let_def)
qed (simp_all add: mitm_pairs_def)

section \<open>All sessions\<close>

fun session_pairs :: "session \<Rightarrow> nat list" where
  "session_pairs (Http st) = http_pairs st"
| "session_pairs (Mitm st) = mitm_pairs st"

fun session_ctx :: "session \<Rightarrow> rtspCtx" where
  "session_ctx (Http st) = hctx st"
| "session_ctx (Mitm st) = mctx st"

text \<open>The upstream server of a session.\<close>

definition session_server :: "session \<Rightarrow> string \<times> u16" where
  "session_server s = (server_ip (session_ctx s), server_rtsp_port (session_ctx s))"

fun session_home :: "session \<Rightarrow> bool" where
  "session_home (Http st) = http_home st"
| "session_home (Mitm st) = mitm_home st"

definition held_pairs :: "session list \<Rightarrow> nat list" where
  "held_pairs ss = concat (map session_pairs ss)"

fun ports_inv :: "sys_state \<Rightarrow> bool" where
  "ports_inv (ss, bp, pp) = pairs_ok pp (held_pairs ss)"

lemma event_ports_inv: "sys_event cfg s s' \<Longrightarrow> ports_inv s \<Longrightarrow> ports_inv s'"
  unfolding held_pairs_def
proof (induction rule: sys_event.induct)
  case (http_event i ss st bp pp st')
  then show ?case using http_holder.event_pairs [of pp session_pairs ss i st] by (simp add: held_pairs_def)
next
  case (mitm_event i ss ms bp pp ms')
  then show ?case using mitm_holder.event_pairs [of pp session_pairs ss i ms] by (simp add: held_pairs_def)
next
  case (http_end i ss st bp pp)
  then show ?case using http_holder.end_pairs [of pp session_pairs ss i st] by (simp add: held_pairs_def)
next
  case (mitm_end i ss ms bp pp)
  then show ?case using mitm_holder.end_pairs [of pp session_pairs ss i ms] by (simp add: held_pairs_def)
qed

text \<open>A new HTTP session binds its pair, a new RTSP session none yet. Both start at home.\<close>

lemma init_sockets_pairs:
  assumes "pairs_ok (hports st) (ps @ http_pairs st)"
  shows "pairs_ok (hports (init_rtp_rtcp_sockets cfg env st)) (ps @ http_pairs (init_rtp_rtcp_sockets cfg env st))"
proof -
  obtain rc p where b: "bind_udp_pair_from_pool env (http_upstream_interface cfg)
      \<lparr>rtp_fd = -1, rtcp_fd = -1, rtp_port = unat (hrtp_port st), ports = hports st, open_fds = []\<rparr> = (rc, p)"
    by (metis surj_pair)
  from pairs_ok_bind [OF b assms [unfolded http_pairs_def]] b show ?thesis
    by (cases "of_nat (rtp_port p) = (0 :: u16)") (simp_all add: init_rtp_rtcp_sockets_def Let_def http_pairs_def)
qed

lemma http_new_cases:
  assumes "RTSPToHttpClient cfg env a junk ctx bp pp = Some st"
  obtains st1 where "http_still (init_rtp_rtcp_sockets cfg env st1) st" "hports st1 = pp" "hrtp_port st1 = 0"
    "hctx st1 = ctx" "http_home st1"
proof -
  let ?init = "emit (Watch DownstreamSock [EPOLLRDHUP, EPOLLHUP, EPOLLERR])
                 (emit (Unwatch DownstreamSock) (initial_client ctx junk cfg bp pp))"
  obtain st1 where st1: "send_http_response ?init = Some st1"
    using assms by (auto simp: RTSPToHttpClient_def Let_def split: bind_splits)
  let ?st2 = "init_rtp_rtcp_sockets cfg env st1"
  have f: "hports st1 = pp" "hrtp_port st1 = 0" "hctx st1 = ctx" "http_home st1"
    using st1 by (auto simp: send_http_response_def initial_client_def http_home_def emit_def split: prod.splits bind_splits)
  have "http_still ?st2 (send_rtsp_option cfg a (?st2\<lparr>is_init_ok := True\<rparr>))"
    by (rule http_still_trans [OF _ http_still_option]) (simp add: http_still_def)
  moreover have "http_still ?st2 (emit StunRequest ?st2)" by (simp add: http_still_def)
  ultimately have "http_still ?st2 st" using assms st1 by (simp add: RTSPToHttpClient_def Let_def split: if_splits)
  from this f show thesis by (rule that)
qed

lemma http_new_home:
  assumes "RTSPToHttpClient cfg env a junk ctx bp pp = Some st"
  shows "server_ip (hctx st) = server_ip ctx \<and> server_rtsp_port (hctx st) = server_rtsp_port ctx \<and> http_home st"
proof -
  obtain st1 where s: "http_still (init_rtp_rtcp_sockets cfg env st1) st" "hports st1 = pp" "hrtp_port st1 = 0"
    "hctx st1 = ctx" "http_home st1" using assms by (rule http_new_cases)
  have "hctx (init_rtp_rtcp_sockets cfg env st1) = ctx" "http_home (init_rtp_rtcp_sockets cfg env st1)"
    using s(4,5) by (auto simp: init_rtp_rtcp_sockets_def http_home_def Let_def emit_def split: prod.split)
  with s(1) show ?thesis by (auto simp: http_still_def http_home_def)
qed

lemma http_new_pairs:
  assumes "RTSPToHttpClient cfg env a junk ctx bp pp = Some st" and "pairs_ok pp ps"
  shows "pairs_ok (hports st) (ps @ http_pairs st)"
proof -
  obtain st1 where s: "http_still (init_rtp_rtcp_sockets cfg env st1) st" "hports st1 = pp" "hrtp_port st1 = 0"
    using assms(1) by (rule http_new_cases)
  have "pairs_ok (hports st1) (ps @ http_pairs st1)" using assms(2) s(2,3) by (simp add: http_pairs_def)
  from init_sockets_pairs [OF this] s(1) show ?thesis by (simp add: http_still_def http_pairs_def)
qed

lemma mitm_new_home:
  assumes "RTSPToRtspClient cfg a addr config req bp pp = Inr ms"
  shows "mctx ms = cfg_ctx config \<and> mports ms = pp \<and> mitm_pairs ms = [] \<and> mitm_home ms"
  using assms
  by (auto simp: RTSPToRtspClient_def connect_upstream_def initial_mitm_def Let_def mitm_pairs_def mitm_home_def put_def
      split: prod.splits if_splits)

lemma step_ports_inv: "sys_step cfg s s' \<Longrightarrow> ports_inv s \<Longrightarrow> ports_inv s'"
proof (induction rule: sys_step.induct)
  case (http_new env a junk ctx bp pp st ss)
  then show ?case
    using http_new_pairs [OF http_new.hyps] by (simp add: held_pairs_def set_on_closed_callback_def http_pairs_def)
next
  case (mitm_new a addr config req bp pp ms ss)
  then show ?case
    using mitm_new_home [OF mitm_new.hyps] by (simp add: held_pairs_def mitm_set_on_closed_callback_def mitm_pairs_def)
qed (rule event_ports_inv)

lemma run_ports_inv: "sys_run cfg s s' \<Longrightarrow> ports_inv s \<Longrightarrow> ports_inv s'"
  by (induction rule: sys_run.induct) (auto intro: step_ports_inv)

section \<open>Properties\<close>

text \<open>
  C5: No two sessions ever share a port. From the fresh pool, in any interleaving of events of HTTP and RTSP sessions, of their creation and
  destruction, the relay port pairs the living sessions hold are all different, so that the two ports of one are none of the ports of
  another; they are even, inside the range of the pool and marked as used, those of a session whose sockets could not be bound included.
\<close>

theorem session_ports_exclusive:
  assumes "sys_run cfg ([], bp0, PortPool) (ss, bp, pp)"
  shows "distinct (held_pairs ss) \<and>
    (\<forall>p \<in> set (held_pairs ss). even p \<and> 20000 \<le> p \<and> p < 40000 \<and> {p, p + 1} \<subseteq> used_ports pp) \<and>
    (\<forall>p \<in> set (held_pairs ss). \<forall>q \<in> set (held_pairs ss). p \<noteq> q \<longrightarrow> {p, p + 1} \<inter> {q, q + 1} = {})"
proof -
  have "ports_inv ([], bp0, PortPool)" by (simp add: held_pairs_def pairs_ok_def held_ok_def)
  from run_ports_inv [OF assms this] have ok: "pairs_ok pp (held_pairs ss)" by simp
  then have h: "held_ok (used_ports pp) (held_pairs ss)" by (simp add: pairs_ok_def)
  have "\<forall>p \<in> set (held_pairs ss). \<forall>q \<in> set (held_pairs ss). p \<noteq> q \<longrightarrow> {p, p + 1} \<inter> {q, q + 1} = {}"
    using held_ok_disjoint [OF h] by blast
  moreover have "distinct (held_pairs ss)"
    "\<forall>p \<in> set (held_pairs ss). even p \<and> 20000 \<le> p \<and> p < 40000 \<and> {p, p + 1} \<subseteq> used_ports pp"
    using ok h by (auto simp: pairs_ok_def held_ok_def)
  ultimately show ?thesis by blast
qed

text \<open>Two sessions that live at the same time.\<close>

lemma example_two:
  obtains ss bp pp where "sys_run default_config ([], BufferPool 128 2, PortPool) (ss, bp, pp)" "length ss = 2"
proof -
  have new: "\<exists>st. RTSPToHttpClient default_config (\<lambda>_. (ok_answers 7, ok_answers 8)) (ok_answers 9) OPTIONS
       (new_ctx (554, 0, 0)) bp pp = Some st" if "bp_inv bp" "64 \<le> get_buffer_size bp" for bp pp
    using new_client_ok [OF that] by metis
  have b: "bp_inv (BufferPool 128 2)" "64 \<le> get_buffer_size (BufferPool 128 2)"
    by (simp_all add: get_buffer_size_def) (simp add: BufferPool_def)
  obtain s1 where s1: "RTSPToHttpClient default_config (\<lambda>_. (ok_answers 7, ok_answers 8)) (ok_answers 9) OPTIONS
       (new_ctx (554, 0, 0)) (BufferPool 128 2) PortPool = Some s1"
    using new [OF b] by blast
  let ?c1 = "([Http (set_on_closed_callback s1)], blocks s1, hports s1)"
  have r1: "sys_run default_config ([], BufferPool 128 2, PortPool) ?c1"
    using http_new [OF s1, of "[]"] by (auto intro: sys_more [OF sys_refl])
  have "sys_inv 128 ([], BufferPool 128 2)"
    using b by (simp add: sys_inv_def held_def on_loan_def get_total_allocated_def get_available_count_def get_buffer_size_def BufferPool_def)
  with sys_run_inv [OF r1] have "bp_inv (blocks s1)" "64 \<le> get_buffer_size (blocks s1)" by (auto simp: sys_inv_def)
  with new obtain s2 where "RTSPToHttpClient default_config (\<lambda>_. (ok_answers 7, ok_answers 8)) (ok_answers 9) OPTIONS
       (new_ctx (554, 0, 0)) (blocks s1) (hports s1) = Some s2" by blast
  from sys_more [OF r1 http_new [OF this]] show thesis by (rule that) simp
qed

theorem session_ports_exclusive_witness:
  "\<exists>ss bp pp. sys_run default_config ([], BufferPool 128 2, PortPool) (ss, bp, pp) \<and> length ss = 2 \<and> distinct (held_pairs ss)"
proof -
  obtain ss bp pp where r: "sys_run default_config ([], BufferPool 128 2, PortPool) (ss, bp, pp)" "length ss = 2"
    by (rule example_two)
  from session_ports_exclusive [OF r(1)] r show ?thesis by blast
qed

end
