(* ===== verification/Server_System.thy ===== *)
theory Server_System
  imports Handlers Session_Home
begin

text \<open>
  The server as a whole: connections are handled one after the other, each in its own environment, and between them the handlers of the living sessions
  run and sessions end. The sessions are those of the event loop under their descriptors; a new connection has a descriptor that no
  session has. The configuration stays the same.
\<close>

section \<open>Steps of the server\<close>

text \<open>The counters change with what the sessions send and receive; nothing below depends on them.\<close>

inductive server_step ::
  "server_config \<Rightarrow> ('t, 'd) handler_env list \<Rightarrow> 'd server \<Rightarrow> 'd server \<Rightarrow> bool" for cfg where
  connection: "env_cfg e = cfg \<Longrightarrow> map_of (srv_sessions s) fd = None \<Longrightarrow> master_handle e fd r s = Inr (acts, s') \<Longrightarrow>
    server_step cfg [e] s s'"
| session: "sys_event cfg (sys_of s) (ss', bp', pp') \<Longrightarrow> length ss' = length (srv_sessions s) \<Longrightarrow>
    server_step cfg [] s (s\<lparr>srv_sessions := zip (map fst (srv_sessions s)) ss', srv_blocks := bp', srv_ports := pp',
                            srv_stats := counters\<rparr>)"
| ended: "sys_event cfg (sys_of s) (without i (map snd (srv_sessions s)), bp', pp') \<Longrightarrow> i < length (srv_sessions s) \<Longrightarrow>
    server_step cfg [] s (s\<lparr>srv_sessions := without i (srv_sessions s), srv_blocks := bp', srv_ports := pp'\<rparr>)"

inductive_cases server_stepE [elim]: "server_step cfg es s s'"

text \<open>A run, with the environments of the connections it handled.\<close>

inductive server_run ::
  "server_config \<Rightarrow> ('t, 'd) handler_env list \<Rightarrow> 'd server \<Rightarrow> 'd server \<Rightarrow> bool" for cfg where
  server_start: "server_run cfg [] s s"
| server_more: "server_run cfg es s s' \<Longrightarrow> server_step cfg fs s' s'' \<Longrightarrow> server_run cfg (es @ fs) s s''"

text \<open>The server a worker starts: no sessions, a block pool of the configured size, a fresh port pool. The two numbers are converted to
  \<open>size_t\<close>; memory is unlimited.\<close>

definition worker_server :: "server_config \<Rightarrow> 'd statistics \<Rightarrow> logger \<Rightarrow> 'd server" where
  "worker_server cfg counters lg =
     \<lparr>srv_sessions = [],
      srv_blocks = BufferPool (nat (buffer_pool_block_size cfg mod 2 ^ 64)) (nat (buffer_pool_count cfg mod 2 ^ 64)),
      srv_ports = PortPool, srv_stats = counters, srv_log = lg\<rparr>"

section \<open>The server and the system of sessions\<close>

lemma sys_run_trans: "sys_run cfg b c \<Longrightarrow> sys_run cfg a b \<Longrightarrow> sys_run cfg a c"
  by (induction rule: sys_run.induct) (auto intro: sys_more)

lemma sys_run_event: "sys_event cfg a b \<Longrightarrow> sys_run cfg a b"
  using sys_more [OF sys_refl event] .

lemma map_without: "map f (without i xs) = without i (map f xs)"
  by (simp add: without_def take_map drop_map)

lemma server_step_run: "server_step cfg es s s' \<Longrightarrow> sys_run cfg (sys_of s) (sys_of s')"
proof (induction rule: server_step.induct)
  case (connection e s fd r acts s')
  then show ?case using master_handle_run by blast
next
  case (session s ss' bp' pp' counters)
  then show ?case using sys_run_event by (simp add: sys_of_def)
next
  case (ended s i bp' pp')
  then show ?case using sys_run_event by (simp add: sys_of_def map_without)
qed

lemma server_run_sys: "server_run cfg es s s' \<Longrightarrow> sys_run cfg (sys_of s) (sys_of s')"
  by (induction rule: server_run.induct) (auto intro: sys_refl sys_run_trans server_step_run)

lemma worker_server_inv:
  "sys_inv (nat (buffer_pool_block_size cfg mod 2 ^ 64))
     (map snd (srv_sessions (worker_server cfg counters lg)), srv_blocks (worker_server cfg counters lg))"
  by (simp add: worker_server_def sys_inv_def held_def on_loan_def get_total_allocated_def get_available_count_def get_buffer_size_def)
     (simp add: BufferPool_def)

section \<open>The upstream server of a session\<close>

text \<open>A session is admitted by an environment when its host is not blacklisted there and its server is not the proxy itself.\<close>

definition admits :: "('t, 'd) handler_env \<Rightarrow> string \<times> u16 \<Rightarrow> bool" where
  "admits e server = (case server of (ip, p) \<Rightarrow>
     is_blacklisted (blacklist (env_cfg e)) (env_dns e) ip = Inr False \<and> \<not> is_loopback ip p (env_sockname e))"

lemma check_upstream_admits:
  assumes "check_upstream e url = Inr ctx"
  shows "parse_url url (new_ctx (snd (env_junk e))) = (0, ctx)" "admits e (server_ip ctx, server_rtsp_port ctx)"
  using assms by (auto simp: check_upstream_def admits_def throwing_Inr split: prod.splits if_splits)

text \<open>Both handlers parse the URL into a context of their own, with the same result.\<close>

lemma parse_url_again: "parse_url url (ctx\<lparr>rtsp_url := u\<rparr>) = parse_url url ctx"
  by (simp add: parse_url_def)

lemma resolve_upstream_ctx:
  assumes "resolve_upstream tok clk templates junk req = Inr config"
    and "parse_request tok clk templates req = Inr info" and "parse_url (upstream_url info) (new_ctx junk) = (0, ctx)"
  shows "cfg_ctx config = ctx"
  using assms by (auto simp: resolve_upstream_def parse_url_again split: if_splits)

text \<open>What the connection handler starts is admitted and at home.\<close>

lemma master_handle_admits:
  assumes "master_handle e fd r s = Inr (acts, s')" and "map_of (srv_sessions s) fd = None"
  shows "srv_sessions s' = srv_sessions s \<or>
    (\<exists>ses. map snd (srv_sessions s') = map snd (srv_sessions s) @ [ses] \<and> session_home ses \<and> admits e (session_server ses))"
  using assms(1)
proof (cases rule: master_handle_cases)
  case (dispatched req info)
  from dispatched(5) show ?thesis
  proof (cases rule: stream_dispatch_cases)
    case (2 ctx st)
    note c = check_upstream_admits(2) [OF 2(1)]
    have "session_home (Http (set_on_closed_callback st))" "admits e (session_server (Http (set_on_closed_callback st)))"
      using http_new_home [OF 2(3)] c by (auto simp: set_on_closed_callback_def http_home_def session_server_def)
    then show ?thesis using add_session_new [OF assms(2) 2(2)] by auto
  next
    case (3 ctx config st)
    note c = check_upstream_admits [OF 3(1)]
    have "mctx st = ctx" "mitm_home st"
      using mitm_new_home [OF 3(4)] resolve_upstream_ctx [OF 3(3) dispatched(3) c(1)] by simp_all
    then have "session_home (Mitm (mitm_set_on_closed_callback st))" "admits e (session_server (Mitm (mitm_set_on_closed_callback st)))"
      using c(2) by (simp_all add: mitm_set_on_closed_callback_def mitm_home_def session_server_def)
    then show ?thesis using add_session_new [OF assms(2) 3(2)] by auto
  qed simp
qed simp

text \<open>An event leaves every session with the server it had.\<close>

definition keeps_server :: "session \<Rightarrow> session \<Rightarrow> bool" where
  "keeps_server s s' \<longleftrightarrow> session_server s' = session_server s \<and> (session_home s \<longrightarrow> session_home s')"

lemma keeps_server_refl [simp]: "keeps_server s s"
  by (simp add: keeps_server_def)

lemma home_with [simp]:
  "http_home (http_with bp pp st) = http_home st" "mitm_home (mitm_with bp pp ms) = mitm_home ms"
  by (simp_all add: http_home_def mitm_home_def)

lemma event_keeps_server:
  assumes "sys_event cfg (ss, bp, pp) (ss', bp', pp')" and "ses' \<in> set ss'"
  shows "\<exists>ses \<in> set ss. keeps_server ses ses'"
  using assms(1)
proof cases
  case (http_event i st st')
  have "keeps_server (Http st) (Http st')"
    using http_step_stays [OF http_event(6)] by (simp add: keeps_server_def session_server_def http_stays_def)
  moreover have "Http st \<in> set ss" using nth_mem [OF http_event(4)] http_event(5) by simp
  moreover have "ses' \<in> insert (Http st') (set ss)"
    using assms(2) set_update_subset_insert [of ss i "Http st'"] unfolding http_event(1) by blast
  ultimately show ?thesis using keeps_server_refl by blast
next
  case (mitm_event i ms ms')
  have "keeps_server (Mitm ms) (Mitm ms')"
    using mitm_step_stays [OF mitm_event(6)] by (simp add: keeps_server_def session_server_def mitm_stays_def)
  moreover have "Mitm ms \<in> set ss" using nth_mem [OF mitm_event(4)] mitm_event(5) by simp
  moreover have "ses' \<in> insert (Mitm ms') (set ss)"
    using assms(2) set_update_subset_insert [of ss i "Mitm ms'"] unfolding mitm_event(1) by blast
  ultimately show ?thesis using keeps_server_refl by blast
qed (use assms(2) in \<open>auto simp: without_def dest: in_set_takeD in_set_dropD intro: keeps_server_refl\<close>)

definition settled :: "('t, 'd) handler_env list \<Rightarrow> session \<Rightarrow> bool" where
  "settled es ses \<longleftrightarrow> session_home ses \<and> (\<exists>e \<in> set es. admits e (session_server ses))"

lemma settled_keeps: "settled es ses \<Longrightarrow> keeps_server ses ses' \<Longrightarrow> settled (es @ fs) ses'"
  by (auto simp: settled_def keeps_server_def)

lemma server_step_settled:
  assumes "server_step cfg fs s s'" and "\<forall>ses \<in> snd ` set (srv_sessions s). settled es ses"
  shows "\<forall>ses \<in> snd ` set (srv_sessions s'). settled (es @ fs) ses"
proof -
  let ?old = "map snd (srv_sessions s)" and ?new = "map snd (srv_sessions s')"
  have old: "settled (es @ fs) ses'" if "ses \<in> set ?old" "keeps_server ses ses'" for ses ses'
    using assms(2) that(1) by (intro settled_keeps [OF _ that(2)]) auto
  from assms(1) have "\<forall>ses' \<in> set ?new. settled (es @ fs) ses'"
  proof cases
    case (connection e fd r acts)
    have new: "settled (es @ [e]) ses" if "session_home ses" "admits e (session_server ses)" for ses
      using that by (auto simp: settled_def)
    from master_handle_admits [OF connection(4,3)] show ?thesis
      using old connection(1) new keeps_server_refl by fastforce
  next
    case (session ss' bp' pp' counters)
    then have "?new = ss'" by simp
    moreover have "\<exists>ses \<in> set ?old. keeps_server ses ses'" if "ses' \<in> set ss'" for ses'
      using event_keeps_server [OF session(3) [unfolded sys_of_def] that] .
    ultimately show ?thesis using old by blast
  next
    case (ended i bp' pp')
    then have "set ?new \<subseteq> set ?old" by (auto simp: without_def dest: in_set_takeD in_set_dropD)
    then show ?thesis using old keeps_server_refl by blast
  qed
  then show ?thesis by simp
qed

lemma server_run_settled:
  "server_run cfg es s s' \<Longrightarrow> srv_sessions s = [] \<Longrightarrow> \<forall>ses \<in> snd ` set (srv_sessions s'). settled es ses"
proof (induction rule: server_run.induct)
  case (server_more es s s' fs s'')
  from server_step_settled [OF server_more(2) server_more.IH [OF server_more.prems]] show ?case .
qed simp

section \<open>Properties\<close>

fun session_out :: "session \<Rightarrow> effect list" where
  "session_out (Http st) = out st"
| "session_out (Mitm st) = mout st"

lemma home_uplinks:
  assumes "session_home ses" and "a \<in> set (uplinks (session_out ses))"
  shows "a = 0 \<or> inet_pton (fst (session_server ses)) = Some a"
  using assms
  by (cases ses) (auto simp: http_home_def mitm_home_def session_server_def host_addr_def Let_def split: option.splits)


text \<open>
  C19: The server refines the system of sessions. Whatever connections arrive and whatever the sessions do and end, what happens to the sessions
  and to the two pools of a worker is a run of the system of sessions from the fresh pools, so that all that is proved of that system holds behind the
  dispatcher. With blocks of at least 64 bytes, the number of used blocks the status page shows is the number of packets in the queues of its sessions.
\<close>

theorem server_refines_sessions:
  assumes "server_run cfg es (worker_server cfg counters lg) s"
  shows "sys_run cfg (sys_of (worker_server cfg counters lg)) (sys_of s) \<and>
    (64 \<le> buffer_pool_block_size cfg \<and> is_int (buffer_pool_block_size cfg) \<longrightarrow>
       get_total_allocated (srv_blocks s) - get_available_count (srv_blocks s) =
         (\<Sum>x\<leftarrow>srv_sessions s. length (session_queue (snd x))))"
proof -
  let ?size = "nat (buffer_pool_block_size cfg mod 2 ^ 64)"
  note r = server_run_sys [OF assms]
  have "sys_inv ?size (map snd (srv_sessions s), srv_blocks s)" if "64 \<le> ?size"
    using sys_run_inv [OF r] worker_server_inv [of cfg counters lg] that by (simp add: sys_of_def)
  moreover have "64 \<le> ?size" if "64 \<le> buffer_pool_block_size cfg" "is_int (buffer_pool_block_size cfg)"
    using that by (simp add: is_int_def)
  ultimately show ?thesis using r by (auto simp: sys_inv_def held_def comp_def on_loan_def)
qed

text \<open>One connection of a fresh server.\<close>

lemma example_served:
  assumes "srv_sessions s = []" and "bp_inv (srv_blocks s)" and "64 \<le> get_buffer_size (srv_blocks s)"
  obtains s' where "server_run default_config [example_env] s s'" "length (srv_sessions s') = 1"
proof -
  obtain s' where m: "master_handle example_env 7 (Request (request_line ''GET'' ''/rtp/10.0.0.1:554/a'' ''HTTP/1.1'' [])) s =
      Inr ([], s')" "length (srv_sessions s') = 1" using assms by (rule example_started)
  have "env_cfg example_env = default_config" "map_of (srv_sessions s) 7 = None"
    using assms(1) by (simp_all add: example_env_def)
  from server_more [OF server_start connection [OF this m(1)]] m(2) show thesis by (auto intro: that)
qed


theorem server_refines_sessions_witness:
  "\<exists>s'. server_run default_config [example_env] (worker_server default_config (Statistics 0 0) example_logger) s' \<and>
     length (srv_sessions s') = 1 \<and>
     get_total_allocated (srv_blocks s') - get_available_count (srv_blocks s') =
       (\<Sum>x\<leftarrow>srv_sessions s'. length (session_queue (snd x)))"
proof -
  let ?w = "worker_server default_config (Statistics 0 0) example_logger :: u64 server"
  have "srv_sessions ?w = []" "bp_inv (srv_blocks ?w)" "64 \<le> get_buffer_size (srv_blocks ?w)"
    by (simp_all add: worker_server_def get_buffer_size_def default_config_def) (simp add: BufferPool_def)
  then obtain s' where s': "server_run default_config [example_env] ?w s'" "length (srv_sessions s') = 1"
    by (rule example_served)
  have "64 \<le> buffer_pool_block_size default_config \<and> is_int (buffer_pool_block_size default_config)"
    by (simp add: default_config_def is_int_def)
  with server_refines_sessions [OF s'(1)] s' show ?thesis by blast
qed

end
