(* ===== verification/Proxy_Server.thy ===== *)
theory Proxy_Server
  imports Epoll_Loop Server_System
begin

text \<open>
  \<open>src/core/proxy_server.cpp\<close> and \<open>src/main.cpp\<close>: the start of the program, the worker with its accept handler and signals, and the supervisor that
  starts a worker again after a crash. What the system does (\<open>accept\<close>, \<open>fork\<close>, \<open>waitpid\<close>, \<open>daemon\<close>) is a sequence of answers;
  the result of \<open>run\<close> is how the process ends, when it ends.
\<close>

section \<open>Accepting connections\<close>

datatype accept_result = Accepted int bool | AcceptWouldBlock | AcceptError

text \<open>The accept handler: connections are taken until \<open>accept\<close> fails, for whatever reason; each gets a context of the loop. The flag
  says whether the kernel watches the new descriptor.\<close>

fun accept_handler :: "accept_result list \<Rightarrow> act list" where
  "accept_handler [] = []"
| "accept_handler (Accepted fd ok # rs) = Accept fd ok # accept_handler rs"
| "accept_handler (AcceptWouldBlock # rs) = []"
| "accept_handler (AcceptError # rs) = []"

section \<open>The worker\<close>

text \<open>How the loop of a worker ends: \<open>epoll_wait\<close> fails, or a signal arrives.\<close>

datatype worker_end = LoopEnded | Signal int

datatype wait_status = Exited int | Signaled int

definition EXIT_SUCCESS :: int where "EXIT_SUCCESS = 0"

definition EXIT_FAILURE :: int where "EXIT_FAILURE = 1"

text \<open>\<open>setup_signals\<close> with the handlers: \<open>SIGINT\<close> (2) and \<open>SIGTERM\<close> (15) end the worker normally; under the watchdog \<open>SIGSEGV\<close> (11), \<open>SIGABRT\<close> (6), \<open>SIGFPE\<close> (8) and
  \<open>SIGILL\<close> (4) end it with their number as exit code. Other signals kill it.\<close>

definition signal_status :: "bool \<Rightarrow> int \<Rightarrow> wait_status" where
  "signal_status watchdog sig =
     (if sig = 2 \<or> sig = 15 then Exited 0
      else if watchdog \<and> (sig = 11 \<or> sig = 6 \<or> sig = 8 \<or> sig = 4) then Exited sig
      else Signaled sig)"

definition start_worker :: "server_config \<Rightarrow> sys_answers \<Rightarrow> worker_end \<Rightarrow> wait_status" where
  "start_worker cfg a how =
     (if fst (create_listen_socket a (listen_interface cfg)) < 0 then Exited EXIT_FAILURE
      else (case how of LoopEnded \<Rightarrow> Exited EXIT_SUCCESS | Signal sig \<Rightarrow> signal_status (watchdog_enabled cfg) sig))"

section \<open>The supervisor\<close>

datatype fork_result = ForkFailed | Forked sys_answers worker_end

text \<open>\<open>start_watchdog\<close>: the exit code, when the supervisor ends, and the number of workers started.\<close>

fun start_watchdog :: "server_config \<Rightarrow> fork_result list \<Rightarrow> int option \<times> nat" where
  "start_watchdog cfg [] = (None, 0)"
| "start_watchdog cfg (ForkFailed # fs) = (Some EXIT_FAILURE, 0)"
| "start_watchdog cfg (Forked a how # fs) =
     (if start_worker cfg a how = Exited 0 then (Some 0, 1)
      else (case start_watchdog cfg fs of (code, n) \<Rightarrow> (code, Suc n)))"

text \<open>\<open>supervisor_sig_handler\<close>: the signal is passed on to a running worker.\<close>

definition supervisor_sig_handler :: "int \<Rightarrow> (int \<times> int) list" where
  "supervisor_sig_handler worker_pid = (if 0 < worker_pid then [(worker_pid, 15)] else [])"

text \<open>\<open>ProxyServer::run\<close>, which is all \<open>main\<close> does: an exception of the command line ends the program; the log file is set and the
  configuration logged; a daemon that cannot be started is a failure. The times and rotations of the log are arguments.\<close>

definition log_config :: "(nat \<Rightarrow> string \<times> rotation) \<Rightarrow> server_config \<Rightarrow> logger \<Rightarrow> logger" where
  "log_config stamps cfg lg =
     log_all (map (\<lambda>(i, line). (fst (stamps i), snd (stamps i), INFO, line)) (enumerate 0 (printConfig cfg))) lg"

definition run ::
  "(string \<Rightarrow> int option) \<Rightarrow> (string \<Rightarrow> string option) \<Rightarrow> cli_opt list \<Rightarrow> bool \<Rightarrow> (string \<Rightarrow> string list option) \<Rightarrow> (nat \<Rightarrow> string \<times> rotation) \<Rightarrow>
   fork_result list \<Rightarrow> sys_answers \<Rightarrow> worker_end \<Rightarrow> logger \<Rightarrow> cxx_error + wait_status option \<times> logger" where
  "run strtod texts args daemon_ok opens stamps forks a how lg =
     throwing (parseCommandLine (\<lambda>path. read_config strtod (texts path)) args default_config) (\<lambda>outcome.
       case outcome of
         Exit code \<Rightarrow> Inr (Some (Exited code), lg)
       | Run cfg \<Rightarrow>
           (let logf = server_config.log_file_path cfg;
                lg0 = setLogLevel (log_level cfg) lg;
                lg1 = log_config stamps cfg
                  (if logf = [] then lg0 else logger_setLogFile (opens logf) logf (log_file_lines cfg) lg0)
            in if daemon_enabled cfg \<and> \<not> daemon_ok then Inr (Some (Exited EXIT_FAILURE), lg1)
               else if watchdog_enabled cfg then Inr (map_option Exited (fst (start_watchdog cfg forks)), lg1)
               else Inr (Some (start_worker cfg a how), lg1)))"

section \<open>Properties\<close>

lemma crash_restarts:
  "watchdog_enabled cfg \<Longrightarrow> sig \<notin> {0, 2, 15} \<Longrightarrow> start_worker cfg a (Signal sig) \<noteq> Exited 0"
  by (auto simp: start_worker_def signal_status_def EXIT_FAILURE_def)

definition crash :: "sys_answers \<times> int \<Rightarrow> fork_result" where
  "crash = (\<lambda>(a, sig). Forked a (Signal sig))"

text \<open>
  C36: The watchdog keeps the server up. Under the watchdog every crash of a worker is followed by a new worker: after \<open>n\<close> workers that could
  not listen or were ended by signals other than \<open>SIGINT\<close> and \<open>SIGTERM\<close> the supervisor starts a further one, and it only ends, with code 0,
  when a worker ends normally. A worker whose event loop returns after an error of \<open>epoll_wait\<close> counts as one that ended normally: it is
  not started again.
\<close>

theorem watchdog_restarts:
  assumes "watchdog_enabled cfg" and "list_all (\<lambda>(a, sig). sig \<notin> {0, 2, 15}) crashes"
    and "0 \<le> fst (create_listen_socket a (listen_interface cfg))"
  shows "start_watchdog cfg (map crash crashes @ later) =
      (case start_watchdog cfg later of (code, n) \<Rightarrow> (code, length crashes + n)) \<and>
    start_watchdog cfg (map crash crashes @ Forked a (Signal 15) # rest) = (Some 0, Suc (length crashes)) \<and>
    start_watchdog cfg (map crash crashes @ Forked a LoopEnded # rest) = (Some 0, Suc (length crashes))"
proof -
  have r: "start_watchdog cfg (map crash crashes @ fs) =
      (case start_watchdog cfg fs of (code, n) \<Rightarrow> (code, length crashes + n))" for fs
    using assms(1,2) by (induction crashes) (auto simp: crash_def crash_restarts split: prod.splits)
  have "start_worker cfg a (Signal 15) = Exited 0" "start_worker cfg a LoopEnded = Exited 0"
    using assms(3) by (simp_all add: start_worker_def signal_status_def EXIT_SUCCESS_def)
  then show ?thesis by (simp add: r)
qed

theorem watchdog_restarts_witness:
  "start_watchdog (default_config\<lparr>watchdog_enabled := True\<rparr>)
     [crash (ok_answers 5, 11), crash (ok_answers (-1), 6), Forked (ok_answers 5) (Signal 15), ForkFailed] = (Some 0, 3)"
  using watchdog_restarts [of "default_config\<lparr>watchdog_enabled := True\<rparr>" "[(ok_answers 5, 11), (ok_answers (-1), 6)]" "ok_answers 5"
      "[]" "[ForkFailed]"]
  by (simp add: create_listen_socket_def ok_answers_def)

end
