(* ===== verification/Spec2Isabelle.thy ===== *)
theory Spec2Isabelle
  imports Http_Framing Rtsp_Loops Rtsp_Rewrite Rtsp_Transport Proxy_Server
begin

text \<open>
  \<^bold>\<open>rtsproxy\<close> is a streaming proxy. A client asks it over HTTP (\<open>GET /rtp/host:port/path\<close>) or over RTSP for the stream of
  an RTSP server; the proxy opens the RTSP session upstream and relays the media, as an HTTP body or as RTSP with the addresses exchanged.
  One process runs one event loop, a pool of blocks shared by all sessions, and a pool of UDP port pairs.

  \<^bold>\<open>Parts and theories.\<close> Each theory names the source file it follows. From the bottom up:

  \<^item> \<open>Prelude\<close>: machine words, errors of the C++ runtime as values, \<open>std::string\<close> searches, \<open>stoi\<close>, \<open>stoul\<close>, \<open>getline\<close>, byte order, checked
    reads and writes of buffers. \<open>Json\<close>, \<open>Json_Dump\<close>, \<open>Json_Parse\<close>, \<open>Json_Roundtrip\<close>: what the proxy uses of \<open>3rd/json.hpp\<close>: the values with their
    conversions, the serializer, the lexer and the parser, and that reading undoes writing. \<open>Regex\<close>: a backtracking matcher for the part of \<open>std::regex\<close>
    the proxy uses. \<open>Inet\<close>: \<open>inet_ntop\<close> and \<open>inet_pton\<close>.
  \<^item> \<open>Port_Pool\<close> (\<open>core/port_pool.cpp\<close>) and \<open>Buffer_Pool\<close> (\<open>core/buffer_pool.h\<close>): the two resources. Their contracts are the locales
    \<open>pair_allocator\<close> and \<open>block_pool\<close>, interpreted on the operations.
  \<^item> \<open>Rtp_Pipeline\<close> (\<open>protocol/rtp_pipeline.cpp\<close>), \<open>Stun_Client\<close> (\<open>utils/stun_client.cpp\<close>), \<open>Rtsp_Parser\<close> (\<open>protocol/rtsp_parser.cpp\<close>), \<open>Url_Rewriter\<close>
    (\<open>utils/url_rewriter.cpp\<close>), \<open>Request_Parser\<close> (\<open>protocol/request_parser.cpp\<close>), \<open>Server_Config\<close> (\<open>core/server_config.cpp\<close>), \<open>Blacklist\<close>
    (\<open>utils/blacklist_checker.cpp\<close>, \<open>utils/dns_resolver.cpp\<close>), \<open>Socket_Helper\<close> (\<open>utils/socket_helper.cpp\<close>), \<open>Logger\<close> (\<open>core/logger.cpp\<close>) and \<open>Statistics\<close>
    (\<open>core/statistics.h\<close>): one function of the model for each function of the code.
  \<^item> \<open>Client_Base\<close>, \<open>Http_Client\<close>, \<open>Http_Session\<close>, \<open>Http_Framing\<close> (\<open>clients/rtsp_to_http_client.cpp\<close>): the HTTP session. A record holds the
    members of the class; a handler takes it, with what \<open>recv\<close>, \<open>send\<close> and the other calls answer, to the next record; what it does to sockets and counters is
    appended to a list of effects.
  \<^item> \<open>Rtsp_Client\<close>, \<open>Rtsp_Session\<close>, \<open>Rtsp_Media\<close>, \<open>Rtsp_Loops\<close>, \<open>Rtsp_Rewrite\<close>, \<open>Rtsp_Transport\<close> (\<open>clients/rtsp_to_rtsp_client.cpp\<close>): the RTSP session, which reads
    and rewrites the requests of the client and the answers of the server; \<open>Rtsp_Transport\<close> follows the ports of a SETUP both ways.
  \<^item> \<open>Sessions\<close>: both kinds together on one pool of blocks, as a step relation; what they share is the locales \<open>pooled_client\<close> and \<open>session_kind\<close>.
    \<open>Session_Home\<close>: the ports a session holds and the host it talks to, kept by every handler of both kinds.
  \<^item> \<open>Epoll_Loop\<close> (\<open>core/epoll_loop.cpp\<close> and the descriptor guards of the clients): contexts, their owners and their end.
  \<^item> \<open>Handlers\<close> (\<open>handlers/\<close>): the first request of a connection, the admin interface and the start of a session. \<open>Proxy_Server\<close> (\<open>core/proxy_server.cpp\<close>,
    \<open>main.cpp\<close>): the start of the program, the accept handler and the supervisor. \<open>Server_System\<close>: the runs of a worker, in which connections,
    events of sessions and their ends interleave, over the handlers and the sessions.

  \<^bold>\<open>What is shown.\<close>

  \<^item> Memory and resources: the pipeline, the STUN parser and every handler of an HTTP session stay within their buffers whatever the network
    sends; blocks on loan are exactly those queued in living sessions, in every interleaving of sessions; port pairs are in range and
    no two living sessions share one; the event loop never calls a destroyed context or client and leaks none.
  \<^item> Media: what the client receives are the payloads of the server, byte for byte and in order, over UDP, over interleaved TCP and over HTTP, whatever the
    segmentation; the stripping of padding and null packets computes its specification; forwarding starts at a key frame.
  \<^item> Dialogue: the RTSP dialogue of an HTTP session is sequential; requests of an RTSP client reach the server complete, in order and under the server's
    own URI; the ports of a SETUP and of its answer are exactly those remembered and passed on; parsing is inverse to printing for URLs, SDP, STUN addresses, headers
    and JSON values.
  \<^item> Access: no session starts without the token, against the blacklist or towards the proxy itself; tokens are removed from what is passed on; a living
    session keeps the upstream server it was admitted to and sends its UDP traffic to no other; every run of a worker is a run of the system of sessions;
    the configuration a start can produce has its settings within their types.
  \<^item> Termination: the loop over client requests always returns, the loop over answers unless a message declares a negative length. Where
    the code misbehaves the theorems say so: negative body lengths hang both kinds of session, an answer longer than a block overflows it, the status page can
    be had without the token, a malformed time ends the process, a refused request that is not UTF-8 makes the
    next look at the log end it too, and a shipped rewriting rule destroys the times it is meant to complete.

  \<^bold>\<open>Bounds and fuel.\<close> Integers have the width of the code where it matters (\<open>uint16_t\<close> ports, \<open>uint8_t\<close> channels, the 64 bits of \<open>stoul\<close> and of the counters); \<open>int\<close> values read by
    \<open>stoi\<close> carry its range check. The reading loops of the two clients take fuel: \<^term>\<open>None\<close> means that it ran out, a result that more fuel does not change is shown to
    be reached with fuel the length of the buffer and one more, and the loops that never return are shown to run out of every fuel. The regular
    expressions are matched with fuel given by the length of the text. All other recursion is structural or has a measure.

  \<^bold>\<open>Parameters.\<close> The answers of the system calls, the clock and calendar functions, \<open>getaddrinfo\<close>, the file system, floating-point division, \<open>strtod\<close>
  and the text of a float in JSON are arguments of the definitions. Indeterminate members (the ports of a fresh \<open>rtspCtx\<close>) are arguments too.

  \<^bold>\<open>Not modelled.\<close> What the proxy does not call of the JSON library (\<open>3rd/json.hpp\<close>, third-party) and its printing of floats; the web interface and the packaging files; threads and
  mutexes, since the program runs its handlers in one thread. The log lines of the sessions and of the parsers are left out; the warnings of the dispatcher, which carry what a
  client sent into the log page, are kept, and the logger itself is modelled. The getters of the configuration are the selectors of its record. Pointers are
  modelled where their life is the point (contexts and clients in \<open>Epoll_Loop\<close>); elsewhere a block is its bytes.
\<close>

end
